(* ===== verification/Prelude.thy ===== *)
theory Prelude
  imports Main "HOL-Library.Word" "HOL-Library.Sublist"
begin

text \<open>
  Shared vocabulary of the development: Go strings and byte slices, the verbs of
  \<^verbatim>\<open>fmt\<close> the control plane uses, its error values, the JSON values it reads
  and writes, and time. Strings are byte strings (\<^typ>\<open>string\<close>), as in Go.
\<close>

named_theorems prog_defs \<open>definitions of the modelled Go functions, for unfolding\<close>
named_theorems wp_simps \<open>weakest preconditions of the primitive effects\<close>
named_theorems frame_rules \<open>which rows and objects an operation leaves alone\<close>

type_synonym byte = "8 word"

section \<open>Strings\<close>

text \<open>\<^verbatim>\<open>strings.HasPrefix\<close>, \<^verbatim>\<open>strings.Cut\<close> with a one-byte separator and the
  prefix up to \<^verbatim>\<open>strings.LastIndex\<close> of a one-byte separator.\<close>

definition HasPrefix :: "string \<Rightarrow> string \<Rightarrow> bool" where
  "HasPrefix s pre \<longleftrightarrow> take (length pre) s = pre"

fun Cut :: "string \<Rightarrow> char \<Rightarrow> string \<times> string \<times> bool" where
  "Cut [] sep = ([], [], False)"
| "Cut (c # s) sep =
     (if c = sep then ([], s, True)
      else (case Cut s sep of (before, after, found) \<Rightarrow> (c # before, after, found)))"

definition before_last :: "string \<Rightarrow> char \<Rightarrow> string option" where
  "before_last s sep =
     (if sep \<in> set s then Some (rev (tl (dropWhile (\<lambda>c. c \<noteq> sep) (rev s)))) else None)"

fun Split :: "string \<Rightarrow> char \<Rightarrow> string list" where
  "Split [] sep = [[]]"
| "Split (c # s) sep =
     (if c = sep then [] # Split s sep
      else (case Split s sep of [] \<Rightarrow> [[c]] | w # ws \<Rightarrow> (c # w) # ws))"

lemma HasPrefix_append [simp]: "HasPrefix (p @ s) p"
  by (simp add: HasPrefix_def)

lemma HasPrefix_iff: "HasPrefix s p \<longleftrightarrow> (\<exists>t. s = p @ t)"
  by (metis HasPrefix_append HasPrefix_def append_take_drop_id)

lemma Cut_absent: "sep \<notin> set s \<Longrightarrow> Cut s sep = (s, [], False)"
  by (induction s) auto

lemma Cut_append: "sep \<notin> set a \<Longrightarrow> Cut (a @ sep # b) sep = (a, b, True)"
  by (induction a) auto

lemma Cut_found: "Cut s sep = (a, b, True) \<Longrightarrow> s = a @ sep # b \<and> sep \<notin> set a"
  by (induction s arbitrary: a) (auto split: if_splits prod.splits)

lemma before_last_append: "sep \<notin> set b \<Longrightarrow> before_last (a @ sep # b) sep = Some a"
proof -
  assume "sep \<notin> set b"
  then have "dropWhile (\<lambda>c. c \<noteq> sep) (rev b @ sep # rev a) = sep # rev a"
    by (subst dropWhile_append2) auto
  then show ?thesis by (simp add: before_last_def)
qed

section \<open>Numbers as text\<close>

definition digit :: "nat \<Rightarrow> char" where
  "digit n = ''0123456789abcdef'' ! n"

fun dec_nat :: "nat \<Rightarrow> string" where
  "dec_nat n = (if n < 10 then [digit n] else dec_nat (n div 10) @ [digit (n mod 10)])"

declare dec_nat.simps [simp del]

definition dec :: "int \<Rightarrow> string" where
  "dec i = (if i < 0 then CHR ''-'' # dec_nat (nat (- i)) else dec_nat (nat i))"

lemma digit_set: "n < 16 \<Longrightarrow> digit n \<in> set ''0123456789abcdef''"
  unfolding digit_def by (rule nth_mem) simp

lemma digit_inj: "m < 16 \<Longrightarrow> n < 16 \<Longrightarrow> digit m = digit n \<Longrightarrow> m = n"
  unfolding digit_def by (rule nth_eq_iff_index_eq [THEN iffD1, rotated 3]) auto

lemma digit_decimal: "n < 10 \<Longrightarrow> digit n \<in> set ''0123456789''"
proof -
  assume "n < 10"
  then have "digit n = ''0123456789'' ! n"
    using nth_append [of "''0123456789''" "''abcdef''" n] by (simp add: digit_def)
  moreover have "''0123456789'' ! n \<in> set ''0123456789''"
    using \<open>n < 10\<close> by (intro nth_mem) simp
  ultimately show ?thesis by simp
qed

lemma dec_nat_set: "set (dec_nat n) \<subseteq> set ''0123456789''"
proof (induction n rule: dec_nat.induct)
  case (1 n)
  then show ?case
    using digit_decimal [of "n mod 10"] digit_decimal [of n]
    by (subst dec_nat.simps) auto
qed

lemma dec_nat_nonempty [simp]: "dec_nat n \<noteq> []"
  by (subst dec_nat.simps) simp

text \<open>\<^verbatim>\<open>Duration.String\<close>: a number of nanoseconds as \<^verbatim>\<open>1h2m0.5s\<close>, below a second in the unit
  that fits. \<open>decimals prec v\<close> is the fraction \<open>v / 10 ^ prec\<close>, less its trailing zeros.\<close>

definition decimals :: "nat \<Rightarrow> nat \<Rightarrow> string" where
  "decimals prec v =
     (let ds = dec_nat v;
          padded = replicate (prec - length ds) CHR ''0'' @ ds;
          kept = rev (dropWhile (\<lambda>c. c = CHR ''0'') (rev padded))
      in if prec = 0 \<or> kept = [] then [] else CHR ''.'' # kept)"

definition fraction :: "nat \<Rightarrow> nat \<Rightarrow> string" where
  "fraction prec v = dec_nat (v div 10 ^ prec) @ decimals prec (v mod 10 ^ prec)"

definition duration_string :: "int \<Rightarrow> string" where
  "duration_string d =
     (let u = nat \<bar>d\<bar>; sign = (if d < 0 then ''-'' else []) in
      if u = 0 then ''0s''
      else if u < 1000 then sign @ dec_nat u @ ''ns''
      else if u < 1000000 then sign @ fraction 3 u @ [CHR 0xC2, CHR 0xB5, CHR ''s'']
      else if u < 1000000000 then sign @ fraction 6 u @ ''ms''
      else let s = u div 1000000000; m = s div 60; h = m div 60;
               secs = fraction 9 (s mod 60 * 1000000000 + u mod 1000000000) @ ''s''
           in sign @ (if h > 0 then dec_nat h @ ''h'' else [])
                @ (if m > 0 then dec_nat (m mod 60) @ ''m'' else []) @ secs)"

section \<open>fmt\<close>

text \<open>The arguments of a format call: \<^verbatim>\<open>%s\<close>, \<^verbatim>\<open>%v\<close> and \<^verbatim>\<open>%w\<close> print the text,
  \<^verbatim>\<open>%d\<close> a decimal number, \<^verbatim>\<open>%q\<close> a quoted Go string; a duration prints as text. \<open>quote\<close> escapes the ASCII
  characters as \<^verbatim>\<open>strconv.Quote\<close> does and copies the bytes above 127, which is what
  Go prints for printable UTF-8.\<close>

datatype farg = Str string | Num int | Dur int

definition escape :: "char \<Rightarrow> string" where
  "escape c =
     (let n = (of_char c :: nat) in
      if c = CHR 0x22 then [CHR 0x5C, CHR 0x22]
      else if c = CHR 0x5C then [CHR 0x5C, CHR 0x5C]
      else if n = 7 then [CHR 0x5C, CHR ''a'']
      else if n = 8 then [CHR 0x5C, CHR ''b'']
      else if n = 9 then [CHR 0x5C, CHR ''t'']
      else if n = 10 then [CHR 0x5C, CHR ''n'']
      else if n = 11 then [CHR 0x5C, CHR ''v'']
      else if n = 12 then [CHR 0x5C, CHR ''f'']
      else if n = 13 then [CHR 0x5C, CHR ''r'']
      else if n < 32 \<or> n = 127 then [CHR 0x5C, CHR ''x'', digit (n div 16), digit (n mod 16)]
      else [c])"

definition quote :: "string \<Rightarrow> string" where
  "quote s = CHR 0x22 # concat (map escape s) @ [CHR 0x22]"

definition verb :: "char \<Rightarrow> farg \<Rightarrow> string" where
  "verb c a = (case a of Str s \<Rightarrow> (if c = CHR ''q'' then quote s else s) | Num i \<Rightarrow> dec i
               | Dur d \<Rightarrow> duration_string d)"

fun sprintf :: "string \<Rightarrow> farg list \<Rightarrow> string" where
  "sprintf [] as = []"
| "sprintf (c # f) as =
     (if c = CHR ''%''
      then (case f of [] \<Rightarrow> [c]
            | v # f' \<Rightarrow> (case as of [] \<Rightarrow> c # v # sprintf f' [] | a # as' \<Rightarrow> verb v a @ sprintf f' as'))
      else c # sprintf f as)"

section \<open>Errors\<close>

text \<open>
  Go error values. \<open>ErrNotFound\<close> is \<^verbatim>\<open>state.ErrNotFound\<close>, \<open>CtxErr\<close> is
  \<^verbatim>\<open>ctx.Err()\<close>, \<open>ExtErr\<close> an error that code outside the repository returned,
  \<open>Errorf\<close> a \<^verbatim>\<open>fmt.Errorf\<close> without a wrapped error, \<open>Wrapf\<close> one whose last verb is
  \<^verbatim>\<open>%w\<close> and \<open>Valf\<close> one whose last verb is \<^verbatim>\<open>%v\<close> of a possibly nil error, which prints
  the error and does not wrap it.
\<close>

datatype err =
    ErrNotFound
  | CtxErr
  | ExtErr string
  | Errorf string "farg list"
  | Wrapf string "farg list" err
  | Valf string "err option"

primrec is_NotFound :: "err \<Rightarrow> bool" where
  "is_NotFound ErrNotFound = True"
| "is_NotFound CtxErr = False"
| "is_NotFound (ExtErr m) = False"
| "is_NotFound (Errorf f as) = False"
| "is_NotFound (Wrapf f as e) = is_NotFound e"
| "is_NotFound (Valf f oe) = False"

fun Error :: "err \<Rightarrow> string" where
  "Error ErrNotFound = ''not found''"
| "Error CtxErr = ''context canceled''"
| "Error (ExtErr m) = m"
| "Error (Errorf f as) = sprintf f as"
| "Error (Wrapf f as e) = sprintf f (as @ [Str (Error e)])"
| "Error (Valf f None) = sprintf f [Str ''<nil>'']"
| "Error (Valf f (Some e)) = sprintf f [Str (Error e)]"

section \<open>JSON\<close>

text \<open>
  A JSON value: \<open>JInt\<close> is a number literal written as an integer, \<open>JNum\<close> any other
  number literal. A body is its text, the first JSON value in it (\<open>None\<close> when the text
  does not start with one) and whether something other than white space follows. The
  lexical level of \<^verbatim>\<open>encoding/json\<close> is outside the model; what its decoder does with the
  value and a struct's fields is modelled below.
\<close>

datatype json =
    JNull
  | JBool bool
  | JInt int
  | JNum string
  | JStr string
  | JArr "json list"
  | JObj "(string \<times> json) list"

record payload =
  pl_text :: string
  pl_value :: "json option"
  pl_trailing :: bool

definition ascii_fold :: "char \<Rightarrow> char" where
  "ascii_fold c =
     (let n = (of_char c :: nat) in if 65 \<le> n \<and> n \<le> 90 then char_of (n + 32) else c)"

text \<open>A struct field matches a key exactly or up to case; a later key wins. \<open>null\<close>
  leaves a field alone (a pointer becomes nil), a value of another type is reported as an
  error while the other fields are still decoded. Each function returns the field's value
  and whether it met such a value.\<close>

definition key_matches :: "string \<Rightarrow> string \<Rightarrow> bool" where
  "key_matches field k \<longleftrightarrow> map ascii_fold field = map ascii_fold k"

fun dec_string :: "string \<Rightarrow> string \<Rightarrow> (string \<times> json) list \<Rightarrow> string \<times> bool" where
  "dec_string field cur [] = (cur, False)"
| "dec_string field cur ((k, v) # kvs) =
     (if key_matches field k
      then (case v of
              JStr s \<Rightarrow> dec_string field s kvs
            | JNull \<Rightarrow> dec_string field cur kvs
            | _ \<Rightarrow> (fst (dec_string field cur kvs), True))
      else dec_string field cur kvs)"

fun dec_string_ptr :: "string \<Rightarrow> string option \<Rightarrow> (string \<times> json) list \<Rightarrow> string option \<times> bool" where
  "dec_string_ptr field cur [] = (cur, False)"
| "dec_string_ptr field cur ((k, v) # kvs) =
     (if key_matches field k
      then (case v of
              JStr s \<Rightarrow> dec_string_ptr field (Some s) kvs
            | JNull \<Rightarrow> dec_string_ptr field None kvs
            | _ \<Rightarrow> (fst (dec_string_ptr field (Some (case cur of None \<Rightarrow> [] | Some s \<Rightarrow> s)) kvs), True))
      else dec_string_ptr field cur kvs)"

text \<open>An integer field of the range \<open>lo..hi\<close> (Go's \<^verbatim>\<open>int\<close> or \<^verbatim>\<open>uint64\<close>).\<close>

fun dec_int :: "int \<Rightarrow> int \<Rightarrow> string \<Rightarrow> int \<Rightarrow> (string \<times> json) list \<Rightarrow> int \<times> bool" where
  "dec_int lo hi field cur [] = (cur, False)"
| "dec_int lo hi field cur ((k, v) # kvs) =
     (if key_matches field k
      then (case v of
              JInt i \<Rightarrow> (if lo \<le> i \<and> i \<le> hi then dec_int lo hi field i kvs
                         else (fst (dec_int lo hi field cur kvs), True))
            | JNull \<Rightarrow> dec_int lo hi field cur kvs
            | _ \<Rightarrow> (fst (dec_int lo hi field cur kvs), True))
      else dec_int lo hi field cur kvs)"

text \<open>The members a struct decoder sees: an object's; none for \<open>null\<close>, which decodes
  without an error; anything else is an error.\<close>

definition struct_members :: "json option \<Rightarrow> (string \<times> json) list \<times> bool" where
  "struct_members v =
     (case v of Some (JObj kvs) \<Rightarrow> (kvs, False) | Some JNull \<Rightarrow> ([], False) | _ \<Rightarrow> ([], True))"

lemma dec_int_range:
  "lo \<le> cur \<Longrightarrow> cur \<le> hi \<Longrightarrow>
     lo \<le> fst (dec_int lo hi f cur kvs) \<and> fst (dec_int lo hi f cur kvs) \<le> hi"
proof (induction kvs arbitrary: cur)
  case Nil
  then show ?case by simp
next
  case (Cons kv kvs)
  obtain k v where "kv = (k, v)" by (cases kv)
  with Cons show ?case by (cases v) simp_all
qed

section \<open>Time\<close>

text \<open>
  An instant is a number of nanoseconds since the Unix epoch, a duration a number of
  nanoseconds. \<^verbatim>\<open>time.Time{}\<close> is the first instant of the year 1. \<open>since\<close> is
  \<^verbatim>\<open>time.Since\<close>, which stops at the ends of the 64-bit range of a duration.
\<close>

type_synonym time = int
type_synonym duration = int

abbreviation millisecond :: duration where "millisecond \<equiv> 1000000"
abbreviation second :: duration where "second \<equiv> 1000000000"
abbreviation minute :: duration where "minute \<equiv> 60000000000"

abbreviation max_duration :: duration where "max_duration \<equiv> 9223372036854775807"
abbreviation min_duration :: duration where "min_duration \<equiv> - 9223372036854775808"

definition time_zero :: time where
  "time_zero = - 62135596800000000000"

definition IsZero :: "time \<Rightarrow> bool" where
  "IsZero t \<longleftrightarrow> t = time_zero"

definition since :: "time \<Rightarrow> time \<Rightarrow> duration" where
  "since now t = max min_duration (min max_duration (now - t))"

text \<open>\<^verbatim>\<open>time.Duration(n) * time.Second\<close> is a 64-bit multiplication.\<close>

definition seconds :: "int \<Rightarrow> duration" where
  "seconds n = sint (word_of_int n * word_of_int second :: 64 word)"

lemma seconds_exact:
  assumes "0 \<le> n" "n < 2 ^ 31"
  shows "seconds n = n * second"
proof -
  have "n * second < 2 ^ 63" using assms by simp
  moreover have "0 \<le> n * second" using assms by simp
  ultimately have "signed_take_bit 63 (n * second) = n * second"
    by (intro signed_take_bit_int_eq_self) auto
  moreover have "(word_of_int n * word_of_int second :: 64 word) = word_of_int (n * second)"
    by (simp only: wi_hom_mult)
  ultimately show ?thesis
    by (simp only: seconds_def sint_sbintrunc') simp
qed

end
