(* ===== verification/Database.thy ===== *)
theory Database
  imports Prelude
begin

text \<open>
  The state database: the Go structs of \<^verbatim>\<open>internal/state/store.go\<close>, the three tables of
  \<^verbatim>\<open>internal/state/schema.sql\<close> with their keys, checks and cascades, the SQL statements the
  store issues and what each does to the tables. A transaction is a list of statements;
  an error rolls it back.
\<close>

section \<open>Rows\<close>

record project =
  p_id :: string
  p_name :: string
  p_tenant :: string
  p_pg_version :: int
  p_role :: string
  p_verifier :: string

record branch =
  b_id :: string
  b_project :: string
  b_name :: string
  b_timeline :: string
  b_parent :: "string option"
  b_default :: bool

record endpoint =
  e_id :: string
  e_branch :: string
  e_state :: string
  e_addr :: "string option"
  e_suspend_after :: int
  e_last_started :: "time option"
  e_last_active :: "time option"
  e_updated :: time

record access_control =
  ac_role :: string
  ac_verifier :: string
  ac_project :: string
  ac_branch :: string

text \<open>Stored projects and branches carry \<^verbatim>\<open>created_at\<close>, which no query selects.\<close>

record project_row = project + p_created :: time
record branch_row = branch + b_created :: time

record database =
  projects :: "project_row list"
  branches :: "branch_row list"
  endpoints :: "endpoint list"

definition empty_db :: database where
  "empty_db = \<lparr>projects = [], branches = [], endpoints = []\<rparr>"

definition project_row_of :: "project \<Rightarrow> time \<Rightarrow> project_row" where
  "project_row_of p t = project.extend p \<lparr>p_created = t\<rparr>"

definition branch_row_of :: "branch \<Rightarrow> time \<Rightarrow> branch_row" where
  "branch_row_of b t = branch.extend b \<lparr>b_created = t\<rparr>"

section \<open>Statements\<close>

text \<open>One constructor per SQL statement text of the store.\<close>

datatype stmt =
    CreateSchema
  | InsertProject project
  | InsertBranch branch
  | InsertEndpoint string string string int
  | SelectProject string
  | SelectBranch string
  | SelectBranchesOf string
  | SelectEndpoint string
  | SelectEndpointForUpdate string
  | SelectEndpointOfBranch string
  | SelectEndpointsIn string
  | SelectAccess string
  | UpdateState string string string
  | UpdateRunning string string
  | UpdateSuspended string
  | UpdateSuspendAfter string int
  | DeleteProjectRow string
  | DeleteBranchRow string

datatype sql_result =
    Affected nat
  | ProjectRows "project list"
  | BranchRows "branch list"
  | EndpointRows "endpoint list"
  | AccessRows "access_control list"

text \<open>PostgreSQL refuses a zero byte in a text value and an \<^verbatim>\<open>int\<close> beyond 32 bits.\<close>

definition text_ok :: "string \<Rightarrow> bool" where
  "text_ok s \<longleftrightarrow> CHR 0x00 \<notin> set s"

definition int4_ok :: "int \<Rightarrow> bool" where
  "int4_ok n \<longleftrightarrow> - 2147483648 \<le> n \<and> n \<le> 2147483647"

definition endpoint_states :: "string list" where
  "endpoint_states = [''suspended'', ''starting'', ''running'', ''suspending'', ''failed'']"

abbreviation violates :: "string \<Rightarrow> err" where
  "violates c \<equiv> ExtErr (''ERROR: violates '' @ c)"

definition insert_project :: "time \<Rightarrow> project \<Rightarrow> database \<Rightarrow> err + database" where
  "insert_project t p db =
     (if \<not> (text_ok (p_id p) \<and> text_ok (p_name p) \<and> text_ok (p_tenant p)
            \<and> text_ok (p_role p) \<and> text_ok (p_verifier p) \<and> int4_ok (p_pg_version p))
      then Inl (violates ''encoding'')
      else if \<exists>r \<in> set (projects db). p_id r = p_id p then Inl (violates ''projects_pkey'')
      else if \<exists>r \<in> set (projects db). p_tenant r = p_tenant p
      then Inl (violates ''projects_tenant_id_key'')
      else Inr (db\<lparr>projects := projects db @ [project_row_of p t]\<rparr>))"

definition insert_branch :: "time \<Rightarrow> branch \<Rightarrow> database \<Rightarrow> err + database" where
  "insert_branch t b db =
     (if \<not> (text_ok (b_id b) \<and> text_ok (b_project b) \<and> text_ok (b_name b) \<and> text_ok (b_timeline b)
            \<and> (case b_parent b of None \<Rightarrow> True | Some q \<Rightarrow> text_ok q))
      then Inl (violates ''encoding'')
      else if \<exists>r \<in> set (branches db). b_id r = b_id b then Inl (violates ''branches_pkey'')
      else if \<exists>r \<in> set (branches db). b_project r = b_project b \<and> b_name r = b_name b
      then Inl (violates ''branches_project_id_name_key'')
      else if \<not> (\<exists>r \<in> set (projects db). p_id r = b_project b)
      then Inl (violates ''branches_project_id_fkey'')
      else if (case b_parent b of None \<Rightarrow> False
               | Some q \<Rightarrow> q \<noteq> b_id b \<and> \<not> (\<exists>r \<in> set (branches db). b_id r = q))
      then Inl (violates ''branches_parent_branch_id_fkey'')
      else Inr (db\<lparr>branches := branches db @ [branch_row_of b t]\<rparr>))"

definition insert_endpoint ::
  "time \<Rightarrow> string \<Rightarrow> string \<Rightarrow> string \<Rightarrow> int \<Rightarrow> database \<Rightarrow> err + database" where
  "insert_endpoint t i b st secs db =
     (if \<not> (text_ok i \<and> text_ok b \<and> text_ok st \<and> int4_ok secs) then Inl (violates ''encoding'')
      else if st \<notin> set endpoint_states then Inl (violates ''endpoints_state_check'')
      else if secs \<le> 0 then Inl (violates ''endpoints_suspend_after_seconds_check'')
      else if \<exists>r \<in> set (endpoints db). e_id r = i then Inl (violates ''endpoints_pkey'')
      else if \<exists>r \<in> set (endpoints db). e_branch r = b then Inl (violates ''endpoints_branch_id_key'')
      else if \<not> (\<exists>r \<in> set (branches db). b_id r = b) then Inl (violates ''endpoints_branch_id_fkey'')
      else Inr (db\<lparr>endpoints := endpoints db @
             [\<lparr>e_id = i, e_branch = b, e_state = st, e_addr = None, e_suspend_after = secs,
               e_last_started = None, e_last_active = None, e_updated = t\<rparr>]\<rparr>))"

text \<open>\<^verbatim>\<open>UPDATE endpoints SET ... WHERE ...\<close>: the rows that match, changed.\<close>

definition update_endpoints :: "(endpoint \<Rightarrow> bool) \<Rightarrow> (endpoint \<Rightarrow> endpoint) \<Rightarrow> database \<Rightarrow> database" where
  "update_endpoints P f db = db\<lparr>endpoints := map (\<lambda>e. if P e then f e else e) (endpoints db)\<rparr>"

definition matching :: "(endpoint \<Rightarrow> bool) \<Rightarrow> database \<Rightarrow> nat" where
  "matching P db = length (filter P (endpoints db))"

text \<open>\<^verbatim>\<open>DELETE\<close> with the cascades of the schema: a deleted branch takes its endpoint and
  is no one's parent any more; a deleted project takes its branches.\<close>

definition delete_branches :: "(branch_row \<Rightarrow> bool) \<Rightarrow> database \<Rightarrow> database" where
  "delete_branches P db =
     (let gone = map b_id (filter P (branches db)) in
      db\<lparr>branches := map (\<lambda>b. case b_parent b of
                       Some q \<Rightarrow> if q \<in> set gone then b\<lparr>b_parent := None\<rparr> else b
                     | None \<Rightarrow> b) (filter (\<lambda>b. \<not> P b) (branches db)),
         endpoints := filter (\<lambda>e. e_branch e \<notin> set gone) (endpoints db)\<rparr>)"

definition delete_project :: "string \<Rightarrow> database \<Rightarrow> database" where
  "delete_project i db =
     (let db' = delete_branches (\<lambda>b. b_project b = i) db
      in db'\<lparr>projects := filter (\<lambda>p. p_id p \<noteq> i) (projects db')\<rparr>)"

definition access_rows :: "string \<Rightarrow> database \<Rightarrow> access_control list" where
  "access_rows i db =
     [\<lparr>ac_role = p_role p, ac_verifier = p_verifier p, ac_project = p_id p, ac_branch = b_id b\<rparr>.
        e \<leftarrow> endpoints db, e_id e = i,
        b \<leftarrow> branches db, b_id b = e_branch e,
        p \<leftarrow> projects db, p_id p = b_project b]"

text \<open>What one statement does at the database's time \<open>t\<close>. A parameter with a NUL byte is an error
  where it would be stored; in a condition, where the server refuses it too, it matches no row here.
  Rows come in the order of the tables, and times are not rounded to microseconds.\<close>

fun exec_stmt :: "time \<Rightarrow> stmt \<Rightarrow> database \<Rightarrow> err + (sql_result \<times> database)" where
  "exec_stmt t CreateSchema db = Inr (Affected 0, db)"
| "exec_stmt t (InsertProject p) db = map_sum id (Pair (Affected 1)) (insert_project t p db)"
| "exec_stmt t (InsertBranch b) db = map_sum id (Pair (Affected 1)) (insert_branch t b db)"
| "exec_stmt t (InsertEndpoint i b st secs) db =
     map_sum id (Pair (Affected 1)) (insert_endpoint t i b st secs db)"
| "exec_stmt t (SelectProject i) db =
     Inr (ProjectRows (map project.truncate (filter (\<lambda>p. p_id p = i) (projects db))), db)"
| "exec_stmt t (SelectBranch i) db =
     Inr (BranchRows (map branch.truncate (filter (\<lambda>b. b_id b = i) (branches db))), db)"
| "exec_stmt t (SelectBranchesOf i) db =
     Inr (BranchRows (map branch.truncate
            (sort_key b_created (filter (\<lambda>b. b_project b = i) (branches db)))), db)"
| "exec_stmt t (SelectEndpoint i) db = Inr (EndpointRows (filter (\<lambda>e. e_id e = i) (endpoints db)), db)"
| "exec_stmt t (SelectEndpointForUpdate i) db =
     Inr (EndpointRows (filter (\<lambda>e. e_id e = i) (endpoints db)), db)"
| "exec_stmt t (SelectEndpointOfBranch b) db =
     Inr (EndpointRows (filter (\<lambda>e. e_branch e = b) (endpoints db)), db)"
| "exec_stmt t (SelectEndpointsIn st) db =
     Inr (EndpointRows (filter (\<lambda>e. e_state e = st) (endpoints db)), db)"
| "exec_stmt t (SelectAccess i) db = Inr (AccessRows (access_rows i db), db)"
| "exec_stmt t (UpdateState i from to) db =
     (let P = (\<lambda>e. e_id e = i \<and> e_state e = from) in
      if matching P db \<noteq> 0 \<and> to \<notin> set endpoint_states then Inl (violates ''endpoints_state_check'')
      else Inr (Affected (matching P db), update_endpoints P (\<lambda>e. e\<lparr>e_state := to, e_updated := t\<rparr>) db))"
| "exec_stmt t (UpdateRunning i addr) db =
     (let P = (\<lambda>e. e_id e = i) in
      if \<not> text_ok addr then Inl (violates ''encoding'')
      else Inr (Affected (matching P db), update_endpoints P
             (\<lambda>e. e\<lparr>e_state := ''running'', e_addr := Some addr, e_last_started := Some t,
                    e_last_active := Some t, e_updated := t\<rparr>) db))"
| "exec_stmt t (UpdateSuspended i) db =
     (let P = (\<lambda>e. e_id e = i) in
      Inr (Affected (matching P db), update_endpoints P
             (\<lambda>e. e\<lparr>e_state := ''suspended'', e_addr := None, e_updated := t\<rparr>) db))"
| "exec_stmt t (UpdateSuspendAfter i secs) db =
     (let P = (\<lambda>e. e_id e = i) in
      if \<not> int4_ok secs then Inl (violates ''encoding'')
      else if matching P db \<noteq> 0 \<and> secs \<le> 0 then Inl (violates ''endpoints_suspend_after_seconds_check'')
      else Inr (Affected (matching P db), update_endpoints P
             (\<lambda>e. e\<lparr>e_suspend_after := secs, e_updated := t\<rparr>) db))"
| "exec_stmt t (DeleteProjectRow i) db =
     Inr (Affected (length (filter (\<lambda>p. p_id p = i) (projects db))), delete_project i db)"
| "exec_stmt t (DeleteBranchRow i) db =
     Inr (Affected (length (filter (\<lambda>b. b_id b = i) (branches db))),
          delete_branches (\<lambda>b. b_id b = i) db)"

text \<open>A transaction returns its last statement's result.\<close>

fun exec_stmts :: "time \<Rightarrow> stmt list \<Rightarrow> sql_result \<Rightarrow> database \<Rightarrow> err + (sql_result \<times> database)" where
  "exec_stmts t [] r db = Inr (r, db)"
| "exec_stmts t (q # qs) r db =
     (case exec_stmt t q db of Inl e \<Rightarrow> Inl e | Inr (r', db') \<Rightarrow> exec_stmts t qs r' db')"

definition exec_tx :: "time \<Rightarrow> stmt list \<Rightarrow> database \<Rightarrow> (err + sql_result) \<times> database" where
  "exec_tx t qs db =
     (case exec_stmts t qs (Affected 0) db of Inl e \<Rightarrow> (Inl e, db) | Inr (r, db') \<Rightarrow> (Inr r, db'))"

section \<open>The schema invariant\<close>

definition schema_ok :: "database \<Rightarrow> bool" where
  "schema_ok db \<longleftrightarrow>
     distinct (map p_id (projects db)) \<and>
     distinct (map p_tenant (projects db)) \<and>
     distinct (map b_id (branches db)) \<and>
     distinct (map (\<lambda>b. (b_project b, b_name b)) (branches db)) \<and>
     distinct (map e_id (endpoints db)) \<and>
     distinct (map e_branch (endpoints db)) \<and>
     (\<forall>b \<in> set (branches db). b_project b \<in> p_id ` set (projects db)) \<and>
     (\<forall>b \<in> set (branches db). \<forall>q. b_parent b = Some q \<longrightarrow> q \<in> b_id ` set (branches db)) \<and>
     (\<forall>e \<in> set (endpoints db). e_branch e \<in> b_id ` set (branches db)) \<and>
     (\<forall>e \<in> set (endpoints db). e_state e \<in> set endpoint_states) \<and>
     (\<forall>e \<in> set (endpoints db). 0 < e_suspend_after e \<and> int4_ok (e_suspend_after e))"

lemma row_of_simps [simp]:
  "p_id (project_row_of p t) = p_id p" "p_tenant (project_row_of p t) = p_tenant p"
  "p_created (project_row_of p t) = t" "project.truncate (project_row_of p t) = p"
  "b_id (branch_row_of b t) = b_id b" "b_project (branch_row_of b t) = b_project b"
  "b_name (branch_row_of b t) = b_name b" "b_parent (branch_row_of b t) = b_parent b"
  "b_created (branch_row_of b t) = t" "branch.truncate (branch_row_of b t) = b"
  by (simp_all add: project_row_of_def branch_row_of_def project.defs branch.defs)

lemma truncate_simps [simp]:
  "p_id (project.truncate p) = p_id p" "p_name (project.truncate p) = p_name p"
  "p_tenant (project.truncate p) = p_tenant p" "p_role (project.truncate p) = p_role p"
  "p_verifier (project.truncate p) = p_verifier p"
  "b_id (branch.truncate b) = b_id b" "b_project (branch.truncate b) = b_project b"
  "b_name (branch.truncate b) = b_name b" "b_timeline (branch.truncate b) = b_timeline b"
  "b_parent (branch.truncate b) = b_parent b" "b_default (branch.truncate b) = b_default b"
  by (simp_all add: project.defs branch.defs)

lemma empty_db_ok: "schema_ok empty_db"
  by (simp add: schema_ok_def empty_db_def)

lemma has_key: "(\<exists>r \<in> S. k r = a) \<longleftrightarrow> a \<in> k ` S"
  by auto

lemma has_key_pair: "(\<exists>r \<in> S. k r = a \<and> l r = b) \<longleftrightarrow> (a, b) \<in> (\<lambda>r. (k r, l r)) ` S"
  by auto

lemma insert_project_ok:
  "insert_project t p db = Inr db' \<Longrightarrow> schema_ok db \<Longrightarrow> schema_ok db'"
  by (auto simp: insert_project_def schema_ok_def has_key split: if_splits)

lemma insert_branch_ok:
  "insert_branch t b db = Inr db' \<Longrightarrow> schema_ok db \<Longrightarrow> schema_ok db'"
  by (cases "b_parent b")
    (auto simp: insert_branch_def schema_ok_def has_key has_key_pair split: if_splits)

lemma insert_endpoint_ok:
  "insert_endpoint t i b st secs db = Inr db' \<Longrightarrow> schema_ok db \<Longrightarrow> schema_ok db'"
  by (auto simp: insert_endpoint_def schema_ok_def has_key split: if_splits)

lemma update_endpoints_ok:
  assumes "schema_ok db"
    and "\<And>e. e_id (f e) = e_id e" and "\<And>e. e_branch (f e) = e_branch e"
    and "\<And>e. e \<in> set (endpoints db) \<Longrightarrow> P e \<Longrightarrow> e_state (f e) \<in> set endpoint_states"
    and "\<And>e. e \<in> set (endpoints db) \<Longrightarrow> P e \<Longrightarrow> 0 < e_suspend_after (f e) \<and> int4_ok (e_suspend_after (f e))"
  shows "schema_ok (update_endpoints P f db)"
proof -
  have "e_id \<circ> (\<lambda>e. if P e then f e else e) = e_id"
    "e_branch \<circ> (\<lambda>e. if P e then f e else e) = e_branch"
    using assms(2,3) by auto
  with assms show ?thesis
    by (auto simp: schema_ok_def update_endpoints_def)
qed

text \<open>The branches that stay, with \<^verbatim>\<open>ON DELETE SET NULL\<close> applied.\<close>

definition orphan :: "string list \<Rightarrow> branch_row \<Rightarrow> branch_row" where
  "orphan gone b =
     (case b_parent b of Some q \<Rightarrow> if q \<in> set gone then b\<lparr>b_parent := None\<rparr> else b | None \<Rightarrow> b)"

lemma orphan_simps [simp]:
  "b_id (orphan gone b) = b_id b" "b_project (orphan gone b) = b_project b"
  "b_name (orphan gone b) = b_name b" "b_timeline (orphan gone b) = b_timeline b"
  "b_default (orphan gone b) = b_default b" "b_created (orphan gone b) = b_created b"
  by (simp_all add: orphan_def split: option.splits)

lemma orphan_parent:
  "b_parent (orphan gone b) = Some q \<longleftrightarrow> b_parent b = Some q \<and> q \<notin> set gone"
  by (auto simp: orphan_def split: option.splits if_splits)

lemma delete_branches_eq:
  "delete_branches P db =
     db\<lparr>branches := map (orphan (map b_id (filter P (branches db)))) (filter (\<lambda>b. \<not> P b) (branches db)),
        endpoints := filter (\<lambda>e. e_branch e \<notin> b_id ` {b \<in> set (branches db). P b}) (endpoints db)\<rparr>"
  by (simp add: delete_branches_def orphan_def)

lemma delete_branches_ok: "schema_ok db \<Longrightarrow> schema_ok (delete_branches P db)"
proof -
  assume ok: "schema_ok db"
  let ?gone = "map b_id (filter P (branches db))"
  have comps: "b_id \<circ> orphan ?gone = b_id"
    "(\<lambda>b. (b_project b, b_name b)) \<circ> orphan ?gone = (\<lambda>b. (b_project b, b_name b))"
    by auto
  have keep: "x \<in> b_id ` {b \<in> set (branches db). \<not> P b}"
    if "x \<in> b_id ` set (branches db)" "x \<notin> b_id ` {b \<in> set (branches db). P b}" for x
    using that by auto
  have "\<forall>b \<in> set (branches db). \<forall>q. b_parent b = Some q \<longrightarrow> q \<in> b_id ` set (branches db)"
    "\<forall>e \<in> set (endpoints db). e_branch e \<in> b_id ` set (branches db)"
    using ok by (simp_all add: schema_ok_def)
  then have "\<forall>b \<in> set (branches (delete_branches P db)). \<forall>q. b_parent b = Some q \<longrightarrow>
        q \<in> b_id ` set (branches (delete_branches P db))"
    "\<forall>e \<in> set (endpoints (delete_branches P db)). e_branch e \<in> b_id ` set (branches (delete_branches P db))"
    using keep by (auto simp: delete_branches_eq orphan_parent image_image)
  with ok show ?thesis
    by (simp add: schema_ok_def delete_branches_eq comps distinct_map_filter)
qed

lemma delete_project_ok: "schema_ok db \<Longrightarrow> schema_ok (delete_project i db)"
proof -
  assume "schema_ok db"
  then have ok: "schema_ok (delete_branches (\<lambda>b. b_project b = i) db)" by (rule delete_branches_ok)
  have "\<forall>b \<in> set (branches (delete_branches (\<lambda>b. b_project b = i) db)). b_project b \<noteq> i"
    by (auto simp: delete_branches_eq)
  then have "\<forall>b \<in> set (branches (delete_branches (\<lambda>b. b_project b = i) db)).
      b_project b \<in> p_id ` {p \<in> set (projects (delete_branches (\<lambda>b. b_project b = i) db)). p_id p \<noteq> i}"
    using ok by (fastforce simp: schema_ok_def)
  with ok show ?thesis
    by (simp add: schema_ok_def delete_project_def Let_def distinct_map_filter)
qed

text \<open>Every statement, and so every transaction, keeps the schema's keys, references and
  checks.\<close>

lemma matching_zero: "matching P db = 0 \<longleftrightarrow> (\<forall>e \<in> set (endpoints db). \<not> P e)"
  by (simp add: matching_def filter_empty_conv)

lemma exec_stmt_ok:
  assumes "exec_stmt t q db = Inr (r, db')" and "schema_ok db"
  shows "schema_ok db'"
proof -
  have ends: "e_state e \<in> set endpoint_states" "0 < e_suspend_after e" "int4_ok (e_suspend_after e)"
    if "e \<in> set (endpoints db)" for e
    using assms(2) that by (simp_all add: schema_ok_def)
  show ?thesis
  proof (cases q)
    case (InsertProject p)
    with assms show ?thesis
      by (cases "insert_project t p db") (auto intro: insert_project_ok)
  next
    case (InsertBranch b)
    with assms show ?thesis
      by (cases "insert_branch t b db") (auto intro: insert_branch_ok)
  next
    case (InsertEndpoint i b st secs)
    with assms show ?thesis
      by (cases "insert_endpoint t i b st secs db") (auto intro: insert_endpoint_ok)
  next
    case (DeleteProjectRow i)
    with assms show ?thesis by (auto intro: delete_project_ok)
  next
    case (DeleteBranchRow i)
    with assms show ?thesis by (auto intro: delete_branches_ok)
  qed (use assms ends in \<open>auto simp: Let_def matching_zero endpoint_states_def
         intro!: update_endpoints_ok split: if_splits\<close>)
qed

lemma exec_stmts_ok:
  "exec_stmts t qs r db = Inr (r', db') \<Longrightarrow> schema_ok db \<Longrightarrow> schema_ok db'"
  by (induction t qs r db rule: exec_stmts.induct)
    (auto split: sum.splits dest: exec_stmt_ok)

lemma exec_tx_ok: "schema_ok db \<Longrightarrow> schema_ok (snd (exec_tx t qs db))"
  by (auto simp: exec_tx_def split: sum.splits dest: exec_stmts_ok)

text \<open>An error leaves the database as it was.\<close>

lemma exec_tx_error: "exec_tx t qs db = (Inl e, db') \<Longrightarrow> db' = db"
  by (auto simp: exec_tx_def split: sum.splits)

lemma exec_tx_single:
  "exec_tx t [q] db =
     (case exec_stmt t q db of Inl e \<Rightarrow> (Inl e, db) | Inr (r, db') \<Rightarrow> (Inr r, db'))"
  by (auto simp: exec_tx_def split: sum.splits)

end
