(* ===== verification/Kube.thy ===== *)
theory Kube
  imports Prelude
begin

text \<open>
  The Kubernetes and HTTP objects the control plane sends and receives: the client-go
  types reduced to the fields the repository sets or reads. The API server itself is
  outside the repository: its answers are arbitrary in the model.
\<close>

record config_map =
  cm_name :: string
  cm_namespace :: string
  cm_labels :: "(string \<times> string) list"
  cm_data :: "(string \<times> json) list"
  cm_resource_version :: string

record container =
  co_name :: string
  co_image :: string
  co_pull_policy :: string
  co_env :: "(string \<times> string) list"
  co_command :: "string list"
  co_ports :: "(int \<times> string) list"
  co_requests :: "(string \<times> string) list"
  co_limits :: "(string \<times> string) list"
  co_mounts :: "(string \<times> string) list"

datatype volume_source = ConfigMapVolume string | EmptyDir

record pod =
  po_name :: string
  po_namespace :: string
  po_labels :: "(string \<times> string) list"
  po_restart_policy :: string
  po_fs_group :: int
  po_containers :: "container list"
  po_volumes :: "(string \<times> volume_source) list"

text \<open>What \<^verbatim>\<open>Pods().Get\<close> reports that the code reads: \<^verbatim>\<open>status.podIP\<close> and \<^verbatim>\<open>status.phase\<close>.\<close>

record pod_view =
  pv_ip :: string
  pv_phase :: string

datatype k8s_call =
    CreateConfigMap string config_map
  | GetConfigMap string string
  | UpdateConfigMap string config_map
  | CreatePod string pod
  | DeletePod string string
  | DeleteConfigMap string string
  | GetPod string string

datatype k8s_error = AlreadyExists string | DoesNotExist string | K8sError string

datatype k8s_object = ConfigMapObject config_map | PodObject pod_view | NoObject

definition k8s_err :: "k8s_error \<Rightarrow> err" where
  "k8s_err e = ExtErr (case e of AlreadyExists m \<Rightarrow> m | DoesNotExist m \<Rightarrow> m | K8sError m \<Rightarrow> m)"

fun IsAlreadyExists :: "k8s_error \<Rightarrow> bool" where
  "IsAlreadyExists (AlreadyExists m) = True"
| "IsAlreadyExists _ = False"

fun IsNotFound :: "k8s_error \<Rightarrow> bool" where
  "IsNotFound (DoesNotExist m) = True"
| "IsNotFound _ = False"

text \<open>The namespace and endpoint-specific name a call is about.\<close>

fun k8s_target :: "k8s_call \<Rightarrow> string \<times> string" where
  "k8s_target (CreateConfigMap ns cm) = (ns, cm_name cm)"
| "k8s_target (GetConfigMap ns n) = (ns, n)"
| "k8s_target (UpdateConfigMap ns cm) = (ns, cm_name cm)"
| "k8s_target (CreatePod ns p) = (ns, po_name p)"
| "k8s_target (DeletePod ns n) = (ns, n)"
| "k8s_target (DeleteConfigMap ns n) = (ns, n)"
| "k8s_target (GetPod ns n) = (ns, n)"

record http_request =
  rq_method :: string
  rq_url :: string
  rq_body :: "json option"

record http_response =
  rs_code :: int
  rs_body :: payload

text \<open>The answer of the control plane's own handlers.\<close>

record response =
  resp_status :: int
  resp_body :: json

end
