(* ===== verification/Effects.thy ===== *)
theory Effects
  imports Database Kube
begin

text \<open>
  Programs with effects. A Go function that talks to the clock, the random source, the
  network, the Kubernetes API or the state database is a value of type \<open>'a prog\<close>: either
  it is done, or it performs one effect and continues with the reply. One definition per
  Go function serves both semantics of this theory: \<open>run\<close> executes a program against a
  deterministic environment and records its effects; \<open>prog_step\<close> makes one effect with
  any reply, for the interleaving of several programs. \<open>wp\<close> is the weakest precondition
  of a program over a monitor of its effects, sound for both.
\<close>

section \<open>Programs\<close>

text \<open>
  \<open>Now\<close> is \<^verbatim>\<open>time.Now\<close>. \<open>Sleep d\<close> is the \<^verbatim>\<open>select\<close> between \<^verbatim>\<open>ctx.Done()\<close> and
  \<^verbatim>\<open>time.After(d)\<close>: the reply is the context's error when that case was taken. \<open>Rand n\<close> is
  \<^verbatim>\<open>rand.Read\<close> into \<open>n\<close> bytes. \<open>Sql qs\<close> is one transaction. \<open>Diverge\<close> is the end of a loop's
  fuel, \<open>Panic\<close> a Go panic.
\<close>

datatype 'a prog =
    Return 'a
  | Panic err
  | Diverge
  | Now "time \<Rightarrow> 'a prog"
  | Sleep duration "err option \<Rightarrow> 'a prog"
  | Rand nat "err + byte list \<Rightarrow> 'a prog"
  | Http http_request "err + http_response \<Rightarrow> 'a prog"
  | K8s k8s_call "k8s_error + k8s_object \<Rightarrow> 'a prog"
  | Sql "stmt list" "err + sql_result \<Rightarrow> 'a prog"

datatype event =
    ENow time
  | ESleep duration "err option"
  | ERand nat "err + byte list"
  | EHttp http_request "err + http_response"
  | EK8s k8s_call "k8s_error + k8s_object"
  | ESql "stmt list" "err + sql_result"

datatype 'a outcome = Returned 'a | Panicked err | OutOfFuel

primrec bind :: "'a prog \<Rightarrow> ('a \<Rightarrow> 'b prog) \<Rightarrow> 'b prog" where
  "bind (Return a) f = f a"
| "bind (Panic e) f = Panic e"
| "bind Diverge f = Diverge"
| "bind (Now k) f = Now (\<lambda>r. bind (k r) f)"
| "bind (Sleep d k) f = Sleep d (\<lambda>r. bind (k r) f)"
| "bind (Rand n k) f = Rand n (\<lambda>r. bind (k r) f)"
| "bind (Http q k) f = Http q (\<lambda>r. bind (k r) f)"
| "bind (K8s c k) f = K8s c (\<lambda>r. bind (k r) f)"
| "bind (Sql qs k) f = Sql qs (\<lambda>r. bind (k r) f)"

text \<open>\<open>check p h k\<close> is Go's \<^verbatim>\<open>x, err := p; if err != nil { h }; k\<close>.\<close>

definition check :: "(err + 'a) prog \<Rightarrow> (err \<Rightarrow> 'b prog) \<Rightarrow> ('a \<Rightarrow> 'b prog) \<Rightarrow> 'b prog" where
  "check p h k = bind p (\<lambda>r. case r of Inl e \<Rightarrow> h e | Inr x \<Rightarrow> k x)"

text \<open>The common \<^verbatim>\<open>return ..., err\<close>.\<close>

abbreviation fails :: "err \<Rightarrow> (err + 'a) prog" where
  "fails e \<equiv> Return (Inl e)"

abbreviation returns :: "'a \<Rightarrow> (err + 'a) prog" where
  "returns x \<equiv> Return (Inr x)"

section \<open>Running against an environment\<close>

text \<open>An environment answers each effect from a state of its own.\<close>

record 'x env =
  env_now :: "'x \<Rightarrow> time \<times> 'x"
  env_sleep :: "duration \<Rightarrow> 'x \<Rightarrow> err option \<times> 'x"
  env_rand :: "nat \<Rightarrow> 'x \<Rightarrow> (err + byte list) \<times> 'x"
  env_http :: "http_request \<Rightarrow> 'x \<Rightarrow> (err + http_response) \<times> 'x"
  env_k8s :: "k8s_call \<Rightarrow> 'x \<Rightarrow> (k8s_error + k8s_object) \<times> 'x"
  env_sql :: "stmt list \<Rightarrow> 'x \<Rightarrow> (err + sql_result) \<times> 'x"

primrec run :: "'x env \<Rightarrow> 'a prog \<Rightarrow> 'x \<Rightarrow> 'a outcome \<times> event list \<times> 'x" where
  "run E (Return a) x = (Returned a, [], x)"
| "run E (Panic e) x = (Panicked e, [], x)"
| "run E Diverge x = (OutOfFuel, [], x)"
| "run E (Now k) x =
     (let (r, x1) = env_now E x; (out, tr, x2) = run E (k r) x1 in (out, ENow r # tr, x2))"
| "run E (Sleep d k) x =
     (let (r, x1) = env_sleep E d x; (out, tr, x2) = run E (k r) x1 in (out, ESleep d r # tr, x2))"
| "run E (Rand n k) x =
     (let (r, x1) = env_rand E n x; (out, tr, x2) = run E (k r) x1 in (out, ERand n r # tr, x2))"
| "run E (Http q k) x =
     (let (r, x1) = env_http E q x; (out, tr, x2) = run E (k r) x1 in (out, EHttp q r # tr, x2))"
| "run E (K8s c k) x =
     (let (r, x1) = env_k8s E c x; (out, tr, x2) = run E (k r) x1 in (out, EK8s c r # tr, x2))"
| "run E (Sql qs k) x =
     (let (r, x1) = env_sql E qs x; (out, tr, x2) = run E (k r) x1 in (out, ESql qs r # tr, x2))"

definition result :: "'x env \<Rightarrow> 'a prog \<Rightarrow> 'x \<Rightarrow> 'a outcome" where
  "result E p x = fst (run E p x)"

definition trace :: "'x env \<Rightarrow> 'a prog \<Rightarrow> 'x \<Rightarrow> event list" where
  "trace E p x = fst (snd (run E p x))"

definition final :: "'x env \<Rightarrow> 'a prog \<Rightarrow> 'x \<Rightarrow> 'x" where
  "final E p x = snd (snd (run E p x))"

text \<open>An environment whose database is the model's: \<open>fault\<close> says, for a transaction, whether
  it fails in transit (and is rolled back) and what the database server's clock reads.\<close>

definition with_db :: "(stmt list \<Rightarrow> 'x \<Rightarrow> err option \<times> time \<times> 'x) \<Rightarrow> 'x env \<Rightarrow> (database \<times> 'x) env" where
  "with_db fault E =
     \<lparr>env_now = (\<lambda>(db, x). let (r, x') = env_now E x in (r, db, x')),
      env_sleep = (\<lambda>d (db, x). let (r, x') = env_sleep E d x in (r, db, x')),
      env_rand = (\<lambda>n (db, x). let (r, x') = env_rand E n x in (r, db, x')),
      env_http = (\<lambda>q (db, x). let (r, x') = env_http E q x in (r, db, x')),
      env_k8s = (\<lambda>c (db, x). let (r, x') = env_k8s E c x in (r, db, x')),
      env_sql = (\<lambda>qs (db, x).
        case fault qs x of
          (Some e, t, x') \<Rightarrow> (Inl e, db, x')
        | (None, t, x') \<Rightarrow> (let (r, db') = exec_tx t qs db in (r, db', x')))\<rparr>"

text \<open>The environment that answers at once and knows nothing, a base for concrete ones: time
  stands still, random bytes are zero, every request fails.\<close>

definition quiet_env :: "'x env" where
  "quiet_env =
     \<lparr>env_now = (\<lambda>x. (0, x)), env_sleep = (\<lambda>d x. (None, x)),
      env_rand = (\<lambda>n x. (Inr (replicate n 0), x)), env_http = (\<lambda>q x. (Inl (ExtErr ''down''), x)),
      env_k8s = (\<lambda>c x. (Inl (K8sError ''down''), x)), env_sql = (\<lambda>qs x. (Inl (ExtErr ''down''), x))\<rparr>"

section \<open>One effect at a time\<close>

inductive prog_step :: "'a prog \<Rightarrow> event \<Rightarrow> 'a prog \<Rightarrow> bool" where
  Now: "prog_step (Now k) (ENow r) (k r)"
| Sleep: "prog_step (Sleep d k) (ESleep d r) (k r)"
| Rand: "prog_step (Rand n k) (ERand n r) (k r)"
| Http: "prog_step (Http q k) (EHttp q r) (k r)"
| K8s: "prog_step (K8s c k) (EK8s c r) (k r)"
| Sql: "prog_step (Sql qs k) (ESql qs r) (k r)"

inductive_simps prog_step_simps [simp]:
  "prog_step (Return a) ev p" "prog_step (Panic e) ev p" "prog_step Diverge ev p"
  "prog_step (Now k) ev p" "prog_step (Sleep d k) ev p" "prog_step (Rand n k) ev p"
  "prog_step (Http q k) ev p" "prog_step (K8s c k) ev p" "prog_step (Sql qs k) ev p"

inductive prog_steps :: "'a prog \<Rightarrow> event list \<Rightarrow> 'a prog \<Rightarrow> bool" where
  refl: "prog_steps p [] p"
| step: "prog_step p ev q \<Longrightarrow> prog_steps q tr r \<Longrightarrow> prog_steps p (ev # tr) r"

fun terminal :: "'a outcome \<Rightarrow> 'a prog" where
  "terminal (Returned a) = Return a"
| "terminal (Panicked e) = Panic e"
| "terminal OutOfFuel = Diverge"

text \<open>A run is one of the step sequences.\<close>

lemma run_steps: "run E p x = (out, tr, x') \<Longrightarrow> prog_steps p tr (terminal out)"
  by (induction p arbitrary: x tr)
    (fastforce simp: split_beta Let_def intro: prog_steps.intros prod_eqI)+

lemma prog_steps_append:
  "prog_steps p tr q \<Longrightarrow> prog_steps q tr' r \<Longrightarrow> prog_steps p (tr @ tr') r"
  by (induction rule: prog_steps.induct) (auto intro: prog_steps.step)

lemma run_bind:
  "run E (bind p f) x =
     (case run E p x of
        (Returned a, tr, x1) \<Rightarrow> (case run E (f a) x1 of (out, tr', x2) \<Rightarrow> (out, tr @ tr', x2))
      | (Panicked e, tr, x1) \<Rightarrow> (Panicked e, tr, x1)
      | (OutOfFuel, tr, x1) \<Rightarrow> (OutOfFuel, tr, x1))"
  by (induction p arbitrary: x) (auto simp: split_beta Let_def split: outcome.split)

lemma bind_assoc: "bind (bind p f) g = bind p (\<lambda>a. bind (f a) g)"
  by (induction p) auto

lemma bind_Return [simp]: "bind p Return = p"
  by (induction p) auto

section \<open>Weakest preconditions over a monitor\<close>

text \<open>
  A monitor watches the effects of a program: \<open>mon_rely\<close> is what it takes for granted about
  a reply, \<open>mon_guar\<close> what it demands of an effect, \<open>mon_next\<close> how its state moves.
\<close>

record 's monitor =
  mon_rely :: "'s \<Rightarrow> event \<Rightarrow> bool"
  mon_guar :: "'s \<Rightarrow> event \<Rightarrow> bool"
  mon_next :: "'s \<Rightarrow> event \<Rightarrow> 's"

definition after :: "'s monitor \<Rightarrow> event \<Rightarrow> ('s \<Rightarrow> bool) \<Rightarrow> 's \<Rightarrow> bool" where
  "after M ev Q s \<longleftrightarrow> (mon_rely M s ev \<longrightarrow> mon_guar M s ev \<and> Q (mon_next M s ev))"

primrec wp :: "'s monitor \<Rightarrow> 'a prog \<Rightarrow> ('a \<Rightarrow> 's \<Rightarrow> bool) \<Rightarrow> 's \<Rightarrow> bool" where
  "wp M (Return a) Q s = Q a s"
| "wp M (Panic e) Q s = True"
| "wp M Diverge Q s = True"
| "wp M (Now k) Q s = (\<forall>r. after M (ENow r) (wp M (k r) Q) s)"
| "wp M (Sleep d k) Q s = (\<forall>r. after M (ESleep d r) (wp M (k r) Q) s)"
| "wp M (Rand n k) Q s = (\<forall>r. after M (ERand n r) (wp M (k r) Q) s)"
| "wp M (Http q k) Q s = (\<forall>r. after M (EHttp q r) (wp M (k r) Q) s)"
| "wp M (K8s c k) Q s = (\<forall>r. after M (EK8s c r) (wp M (k r) Q) s)"
| "wp M (Sql qs k) Q s = (\<forall>r. after M (ESql qs r) (wp M (k r) Q) s)"

lemma after_mono: "after M ev Q s \<Longrightarrow> (\<And>s. Q s \<Longrightarrow> Q' s) \<Longrightarrow> after M ev Q' s"
  by (auto simp: after_def)

lemma wp_mono: "wp M p Q s \<Longrightarrow> (\<And>a s. Q a s \<Longrightarrow> Q' a s) \<Longrightarrow> wp M p Q' s"
  by (induction p arbitrary: s) (auto simp: after_def)

lemma wp_bind [simp]: "wp M (bind p f) Q s = wp M p (\<lambda>a. wp M (f a) Q) s"
  by (induction p arbitrary: s) (auto simp: after_def)

lemma wp_check [simp]:
  "wp M (check p h k) Q s =
     wp M p (\<lambda>r. case r of Inl e \<Rightarrow> wp M (h e) Q | Inr x \<Rightarrow> wp M (k x) Q) s"
proof -
  have "(\<lambda>r. wp M (case r of Inl e \<Rightarrow> h e | Inr x \<Rightarrow> k x) Q) =
      (\<lambda>r. case r of Inl e \<Rightarrow> wp M (h e) Q | Inr x \<Rightarrow> wp M (k x) Q)"
    by (auto split: sum.splits)
  then show ?thesis by (simp add: check_def)
qed

text \<open>The sequence rules, from what is known of the first program.\<close>

lemma wp_bindI:
  "wp M p P s \<Longrightarrow> (\<And>a s'. P a s' \<Longrightarrow> wp M (f a) Q s') \<Longrightarrow> wp M (bind p f) Q s"
  unfolding wp_bind by (rule wp_mono)

lemma wp_checkI:
  "wp M p P s \<Longrightarrow> (\<And>e s'. P (Inl e) s' \<Longrightarrow> wp M (h e) Q s') \<Longrightarrow> (\<And>a s'. P (Inr a) s' \<Longrightarrow> wp M (k a) Q s') \<Longrightarrow>
     wp M (check p h k) Q s"
  unfolding wp_check by (erule wp_mono) (auto split: sum.split)

lemma wp_step:
  "prog_step p ev q \<Longrightarrow> wp M p Q s \<Longrightarrow> mon_rely M s ev \<Longrightarrow>
     mon_guar M s ev \<and> wp M q Q (mon_next M s ev)"
  by (induction rule: prog_step.induct) (auto simp: after_def)

text \<open>Accepting a trace: every reply is one the monitor relies on.\<close>

fun relies :: "'s monitor \<Rightarrow> 's \<Rightarrow> event list \<Rightarrow> bool" where
  "relies M s [] = True"
| "relies M s (ev # tr) = (mon_rely M s ev \<and> relies M (mon_next M s ev) tr)"

fun guards :: "'s monitor \<Rightarrow> 's \<Rightarrow> event list \<Rightarrow> bool" where
  "guards M s [] = True"
| "guards M s (ev # tr) = (mon_guar M s ev \<and> guards M (mon_next M s ev) tr)"

definition advance :: "'s monitor \<Rightarrow> 's \<Rightarrow> event list \<Rightarrow> 's" where
  "advance M s tr = fold (\<lambda>ev s. mon_next M s ev) tr s"

lemma advance_simps [simp]:
  "advance M s [] = s" "advance M s (ev # tr) = advance M (mon_next M s ev) tr"
  by (simp_all add: advance_def)

theorem wp_steps:
  "prog_steps p tr q \<Longrightarrow> wp M p Q s \<Longrightarrow> relies M s tr \<Longrightarrow>
     guards M s tr \<and> wp M q Q (advance M s tr)"
  by (induction arbitrary: s rule: prog_steps.induct) (auto dest: wp_step)

lemma wp_run:
  assumes "wp M p Q s" and "run E p x = (out, tr, x')" and "relies M s tr"
  shows "guards M s tr" and "out = Returned a \<Longrightarrow> Q a (advance M s tr)"
  using wp_steps [OF run_steps [OF assms(2)] assms(1,3)] by auto

text \<open>Congruence rules that evaluate a program no further than its first effect.\<close>

lemma prog_congs:
  "Now k1 = Now k1"
  "d = d' \<Longrightarrow> Sleep d k2 = Sleep d' k2"
  "n = n' \<Longrightarrow> Rand n k3 = Rand n' k3"
  "q = q' \<Longrightarrow> Http q k4 = Http q' k4"
  "c = c' \<Longrightarrow> K8s c k5 = K8s c' k5"
  "qs = qs' \<Longrightarrow> Sql qs k6 = Sql qs' k6"
  "p = p' \<Longrightarrow> bind p f = bind p' f"
  "p2 = p2' \<Longrightarrow> check p2 h k7 = check p2' h k7"
  by simp_all

section \<open>Which effects a program can have\<close>

text \<open>\<open>emits G p\<close>: every effect of \<open>p\<close>, whatever the replies, is one of \<open>G\<close>.
  \<open>yields p R\<close>: every result of \<open>p\<close>, whatever the replies, is one of \<open>R\<close>.\<close>

definition watch :: "(event \<Rightarrow> bool) \<Rightarrow> unit monitor" where
  "watch G = \<lparr>mon_rely = \<lambda>s ev. True, mon_guar = \<lambda>s ev. G ev, mon_next = \<lambda>s ev. s\<rparr>"

definition emits :: "(event \<Rightarrow> bool) \<Rightarrow> 'a prog \<Rightarrow> bool" where
  "emits G p \<longleftrightarrow> wp (watch G) p (\<lambda>a s. True) ()"

definition yields :: "'a prog \<Rightarrow> ('a \<Rightarrow> bool) \<Rightarrow> bool" where
  "yields p R \<longleftrightarrow> wp (watch (\<lambda>ev. True)) p (\<lambda>a s. R a) ()"

lemma watch_simps [simp]:
  "mon_rely (watch G) s ev" "mon_guar (watch G) s ev = G ev" "mon_next (watch G) s ev = s"
  by (simp_all add: watch_def)

lemma after_watch [simp]: "after (watch G) ev Q s \<longleftrightarrow> G ev \<and> Q s"
  by (simp add: after_def)

lemma relies_watch [simp]: "relies (watch G) s tr"
  by (induction tr arbitrary: s) auto

lemma guards_watch: "guards (watch G) s tr \<longleftrightarrow> (\<forall>ev \<in> set tr. G ev)"
  by (induction tr arbitrary: s) auto

lemma wp_watch_conj:
  "wp (watch G) p Q s \<Longrightarrow> wp (watch H) p R s \<Longrightarrow>
     wp (watch (\<lambda>ev. G ev \<and> H ev)) p (\<lambda>a s. Q a s \<and> R a s) s"
  by (induction p arbitrary: s) auto

lemma emits_bindI: "emits G p \<Longrightarrow> (\<And>a. emits G (f a)) \<Longrightarrow> emits G (bind p f)"
  unfolding emits_def wp_bind by (erule wp_mono) simp

lemma emits_checkI:
  "emits G p \<Longrightarrow> (\<And>e. emits G (h e)) \<Longrightarrow> (\<And>x. emits G (k x)) \<Longrightarrow> emits G (check p h k)"
  unfolding check_def by (rule emits_bindI) (auto split: sum.split)

lemma emits_mono: "emits G p \<Longrightarrow> (\<And>ev. G ev \<Longrightarrow> H ev) \<Longrightarrow> emits H p"
  unfolding emits_def by (induction p) auto

lemma emits_run:
  assumes "emits G p" shows "\<forall>ev \<in> set (trace E p x). G ev"
  using wp_run(1) [OF assms [unfolded emits_def], of E x "fst (run E p x)" "trace E p x" "final E p x"]
  by (simp add: trace_def final_def guards_watch)

lemma yields_run:
  assumes "yields p R" and "result E p x = Returned a" shows "R a"
  using wp_run(2) [OF assms(1) [unfolded yields_def], of E x "fst (run E p x)" "trace E p x" "final E p x" a]
    assms(2)
  by (simp add: trace_def final_def result_def prod_eq_iff)

text \<open>A program whose effects a monitor lets pass unnoticed leaves the monitor's state alone.\<close>

lemma emits_wp:
  assumes "emits G p" and "\<And>ev. G ev \<Longrightarrow> mon_guar M s ev \<and> mon_next M s ev = s"
  shows "wp M p (\<lambda>a s'. s' = s) s"
  using assms(1) unfolding emits_def
  by (induction p) (auto simp: after_def assms(2) [THEN conjunct1] assms(2) [THEN conjunct2])

lemma emits_yields_wp:
  assumes "emits G p" and "yields p R" and "\<And>ev. G ev \<Longrightarrow> mon_guar M s ev \<and> mon_next M s ev = s"
  shows "wp M p (\<lambda>a s'. R a \<and> s' = s) s"
  using assms(1,2) unfolding emits_def yields_def
  by (induction p) (auto simp: after_def assms(3) [THEN conjunct1] assms(3) [THEN conjunct2])

text \<open>What a monitor that takes nothing for granted shows of the result alone.\<close>

lemma wp_yields:
  assumes "\<And>s ev. mon_rely M s ev" and "wp M p Q s" and "\<And>a s. Q a s \<Longrightarrow> R a"
  shows "yields p R"
  using assms(2) unfolding yields_def
  by (induction p arbitrary: s) (auto simp: after_def assms(1) intro: assms(3))

text \<open>Effects of one kind.\<close>

fun is_k8s :: "(k8s_call \<Rightarrow> bool) \<Rightarrow> event \<Rightarrow> bool" where
  "is_k8s P (EK8s c r) = P c"
| "is_k8s P _ = False"

fun is_sql :: "event \<Rightarrow> bool" where
  "is_sql (ESql qs r) = True"
| "is_sql _ = False"

fun is_http :: "(http_request \<Rightarrow> bool) \<Rightarrow> event \<Rightarrow> bool" where
  "is_http P (EHttp q r) = P q"
| "is_http P _ = False"

lemma is_k8s_elim: "is_k8s P ev \<Longrightarrow> (\<And>c r. ev = EK8s c r \<Longrightarrow> P c \<Longrightarrow> T) \<Longrightarrow> T"
  by (cases ev) auto

end
