(* ===== verification/Compute_Spec.thy ===== *)
theory Compute_Spec
  imports Prelude
begin

text \<open>
  \<^verbatim>\<open>internal/compute/spec.go\<close>: the configuration handed to \<^verbatim>\<open>compute_ctl\<close>, how it is
  built from a branch's parameters and the JSON object it marshals to.
\<close>

record setting =
  set_name :: string
  set_value :: string
  set_vartype :: string

record database_def =
  dd_name :: string
  dd_owner :: string

record role_def =
  rd_name :: string
  rd_password :: "string option"

record cluster =
  cl_id :: string
  cl_name :: string
  cl_state :: string
  cl_roles :: "role_def list"
  cl_databases :: "database_def list"
  cl_settings :: "setting list"

text \<open>\<^verbatim>\<open>FormatVersion\<close> is a float that only ever holds 1.0, marshalled as \<^verbatim>\<open>1\<close>.\<close>

record compute_spec =
  cs_format_version :: int
  cs_suspend_timeout :: int
  cs_cluster :: cluster
  cs_delta_operations :: "json list"
  cs_tenant :: string
  cs_timeline :: string
  cs_pageserver :: string
  cs_safekeepers :: "string list"
  cs_mode :: string
  cs_skip_catalog :: bool

record compute_config =
  cc_spec :: compute_spec
  cc_jwks_keys :: "json list"

definition cloudAdminMD5 :: string where
  "cloudAdminMD5 = ''b093c0d3b281ba6da1eacc608620abd8''"

definition ComputePort :: int where
  "ComputePort = 55433"

record spec_params =
  sp_tenant :: string
  sp_timeline :: string
  sp_role :: string
  sp_verifier :: string
  sp_database :: string
  sp_pageserver :: string
  sp_safekeepers :: "string list"

definition defaultSettings :: "setting list" where
  "defaultSettings = map (\<lambda>(n, v, t). \<lparr>set_name = n, set_value = v, set_vartype = t\<rparr>)
    [(''fsync'', ''off'', ''bool''),
     (''wal_level'', ''logical'', ''enum''),
     (''wal_log_hints'', ''on'', ''bool''),
     (''log_connections'', ''on'', ''bool''),
     (''port'', ''55433'', ''integer''),
     (''shared_buffers'', ''128MB'', ''string''),
     (''max_connections'', ''100'', ''integer''),
     (''listen_addresses'', ''0.0.0.0'', ''string''),
     (''max_wal_senders'', ''10'', ''integer''),
     (''max_replication_slots'', ''10'', ''integer''),
     (''wal_sender_timeout'', ''5s'', ''string''),
     (''wal_keep_size'', ''0'', ''integer''),
     (''password_encryption'', ''scram-sha-256'', ''enum''),
     (''restart_after_crash'', ''off'', ''bool''),
     (''synchronous_standby_names'', ''walproposer'', ''string''),
     (''shared_preload_libraries'', ''neon,pg_stat_statements'', ''string''),
     (''max_replication_write_lag'', ''500MB'', ''string''),
     (''max_replication_flush_lag'', ''10GB'', ''string'')]"

definition BuildComputeConfig :: "spec_params \<Rightarrow> compute_config" where
  "BuildComputeConfig p =
     \<lparr>cc_spec =
        \<lparr>cs_format_version = 1,
         cs_suspend_timeout = -1,
         cs_cluster =
           \<lparr>cl_id = ''firth-pgsql'', cl_name = ''firth-pgsql'', cl_state = ''restarted'',
            cl_roles =
              [\<lparr>rd_name = ''cloud_admin'', rd_password = Some cloudAdminMD5\<rparr>,
               \<lparr>rd_name = sp_role p, rd_password = Some (sp_verifier p)\<rparr>],
            cl_databases = [\<lparr>dd_name = sp_database p, dd_owner = sp_role p\<rparr>],
            cl_settings = defaultSettings\<rparr>,
         cs_delta_operations = [],
         cs_tenant = sp_tenant p,
         cs_timeline = sp_timeline p,
         cs_pageserver = sp_pageserver p,
         cs_safekeepers = sp_safekeepers p,
         cs_mode = ''Primary'',
         cs_skip_catalog = False\<rparr>,
      cc_jwks_keys = []\<rparr>"

section \<open>The marshalled configuration\<close>

definition marshal_setting :: "setting \<Rightarrow> json" where
  "marshal_setting s = JObj
     [(''name'', JStr (set_name s)), (''value'', JStr (set_value s)), (''vartype'', JStr (set_vartype s))]"

definition marshal_database :: "database_def \<Rightarrow> json" where
  "marshal_database d = JObj
     [(''name'', JStr (dd_name d)), (''owner'', JStr (dd_owner d)), (''options'', JNull)]"

definition marshal_role :: "role_def \<Rightarrow> json" where
  "marshal_role r = JObj
     [(''name'', JStr (rd_name r)),
      (''encrypted_password'', case rd_password r of None \<Rightarrow> JNull | Some s \<Rightarrow> JStr s),
      (''options'', JNull)]"

definition marshal_cluster :: "cluster \<Rightarrow> json" where
  "marshal_cluster c = JObj
     [(''cluster_id'', JStr (cl_id c)), (''name'', JStr (cl_name c)), (''state'', JStr (cl_state c)),
      (''roles'', JArr (map marshal_role (cl_roles c))),
      (''databases'', JArr (map marshal_database (cl_databases c))),
      (''settings'', JArr (map marshal_setting (cl_settings c)))]"

definition marshal_spec :: "compute_spec \<Rightarrow> json" where
  "marshal_spec s = JObj
     [(''format_version'', JInt (cs_format_version s)),
      (''suspend_timeout_seconds'', JInt (cs_suspend_timeout s)),
      (''cluster'', marshal_cluster (cs_cluster s)),
      (''delta_operations'', JArr (cs_delta_operations s)),
      (''tenant_id'', JStr (cs_tenant s)),
      (''timeline_id'', JStr (cs_timeline s)),
      (''pageserver_connstring'', JStr (cs_pageserver s)),
      (''safekeeper_connstrings'', JArr (map JStr (cs_safekeepers s))),
      (''mode'', JStr (cs_mode s)),
      (''skip_pg_catalog_updates'', JBool (cs_skip_catalog s))]"

definition marshal_config :: "compute_config \<Rightarrow> json" where
  "marshal_config c = JObj
     [(''spec'', marshal_spec (cc_spec c)),
      (''compute_ctl_config'', JObj [(''jwks'', JObj [(''keys'', JArr (cc_jwks_keys c))])])]"

text \<open>Looking a member up, for statements about the marshalled object.\<close>

fun member :: "string \<Rightarrow> json \<Rightarrow> json option" where
  "member k (JObj kvs) = map_of kvs k"
| "member k _ = None"

fun members :: "string list \<Rightarrow> json \<Rightarrow> json option" where
  "members [] j = Some j"
| "members (k # ks) j = (case member k j of None \<Rightarrow> None | Some j' \<Rightarrow> members ks j')"

text \<open>The configuration is determined by its parameters and determines them: no two
  parameter sets share a configuration.\<close>

lemma BuildComputeConfig_inj: "inj BuildComputeConfig"
  by (rule injI) (simp add: BuildComputeConfig_def)

lemma map_inj_eq: "inj f \<Longrightarrow> map f xs = map f ys \<longleftrightarrow> xs = ys"
  by (simp add: inj_map_eq_map)

lemma marshal_setting_inj: "inj marshal_setting"
  by (rule injI) (auto simp: marshal_setting_def)

lemma marshal_database_inj: "inj marshal_database"
  by (rule injI) (auto simp: marshal_database_def)

lemma marshal_role_inj: "inj marshal_role"
  by (rule injI) (auto simp: marshal_role_def split: option.splits)

lemma marshal_cluster_inj: "inj marshal_cluster"
  by (rule injI)
    (auto simp: marshal_cluster_def map_inj_eq marshal_role_inj marshal_database_inj marshal_setting_inj)

lemma marshal_spec_inj: "inj marshal_spec"
  by (rule injI) (auto simp: marshal_spec_def map_inj_eq inj_def dest: injD [OF marshal_cluster_inj])

lemma marshal_config_inj: "inj marshal_config"
  by (rule injI) (auto simp: marshal_config_def dest: injD [OF marshal_spec_inj])

end
