(* ===== verification/Compute_K8s.thy ===== *)
theory Compute_K8s
  imports Effects Compute_Spec
begin

text \<open>
  \<^verbatim>\<open>internal/compute/k8s.go\<close>: the \<^verbatim>\<open>Runtime\<close> interface that the waker, the suspender and
  the API share, and its implementation by Kubernetes pods. The interface is the record
  \<open>runtime\<close>; its contract is the locale \<open>compute_runtime\<close>, interpreted at the end on the
  implementation.
\<close>

record pod_status =
  ps_exists :: bool
  ps_ip :: string
  ps_phase :: string

record runtime =
  rt_Start :: "string \<Rightarrow> compute_config \<Rightarrow> (err + unit) prog"
  rt_Stop :: "string \<Rightarrow> (err + unit) prog"
  rt_Status :: "string \<Rightarrow> (err + pod_status) prog"

record k8s_runtime =
  kr_namespace :: string
  kr_image :: string

definition podName :: "string \<Rightarrow> string" where
  "podName endpointID = ''compute-'' @ endpointID"

definition configMapName :: "string \<Rightarrow> string" where
  "configMapName endpointID = ''compute-'' @ endpointID @ ''-config''"

section \<open>Start\<close>

definition buildPod :: "k8s_runtime \<Rightarrow> string \<Rightarrow> pod" where
  "buildPod r endpointID =
     \<lparr>po_name = podName endpointID,
      po_namespace = kr_namespace r,
      po_labels = [(''app'', ''compute''), (''endpoint'', endpointID)],
      po_restart_policy = ''Never'',
      po_fs_group = 1000,
      po_containers =
        [\<lparr>co_name = ''compute'',
          co_image = kr_image r,
          co_pull_policy = ''IfNotPresent'',
          co_env = [(''INSTANCE_ID'', ''firth-pgsql-'' @ endpointID)],
          co_command =
            [''/usr/local/bin/compute_ctl'',
             ''--pgdata'', ''/var/db/postgres/compute'',
             ''-C'', ''postgresql://cloud_admin@localhost:55433/postgres'',
             ''-b'', ''/usr/local/bin/postgres'',
             ''--compute-id'', podName endpointID,
             ''--config'', ''/config/config.json'',
             ''--dev''],
          co_ports = [(55433, ''pg''), (3080, ''http'')],
          co_requests = [(''cpu'', ''250m''), (''memory'', ''512Mi'')],
          co_limits = [(''cpu'', ''1''), (''memory'', ''1Gi'')],
          co_mounts = [(''config'', ''/config''), (''pgdata'', ''/var/db/postgres'')]\<rparr>],
      po_volumes =
        [(''config'', ConfigMapVolume (configMapName endpointID)),
         (''pgdata'', EmptyDir)]\<rparr>"

definition configMapFor :: "k8s_runtime \<Rightarrow> string \<Rightarrow> compute_config \<Rightarrow> config_map" where
  "configMapFor r endpointID cfg =
     \<lparr>cm_name = configMapName endpointID,
      cm_namespace = kr_namespace r,
      cm_labels = [(''app'', ''compute''), (''endpoint'', endpointID)],
      cm_data = [(''config.json'', marshal_config cfg)],
      cm_resource_version = []\<rparr>"

text \<open>The second half of \<^verbatim>\<open>Start\<close>, reached from each way the config map is put in place.\<close>

definition createPod :: "k8s_runtime \<Rightarrow> string \<Rightarrow> (err + unit) prog" where
  "createPod r endpointID =
     K8s (CreatePod (kr_namespace r) (buildPod r endpointID)) (\<lambda>res.
       case res of
         Inl e \<Rightarrow> if IsAlreadyExists e then returns ()
                  else fails (Wrapf ''create pod: %w'' [] (k8s_err e))
       | Inr _ \<Rightarrow> returns ())"

definition Start :: "k8s_runtime \<Rightarrow> string \<Rightarrow> compute_config \<Rightarrow> (err + unit) prog" where
  "Start r endpointID cfg =
     (let cm = configMapFor r endpointID cfg in
      K8s (CreateConfigMap (kr_namespace r) cm) (\<lambda>res.
        case res of
          Inr _ \<Rightarrow> createPod r endpointID
        | Inl e \<Rightarrow>
            if \<not> IsAlreadyExists e then fails (Wrapf ''create configmap: %w'' [] (k8s_err e))
            else K8s (GetConfigMap (kr_namespace r) (cm_name cm)) (\<lambda>got.
              case got of
                Inl ge \<Rightarrow> fails (Wrapf ''get configmap for update: %w'' [] (k8s_err ge))
              | Inr (ConfigMapObject existing) \<Rightarrow>
                  K8s (UpdateConfigMap (kr_namespace r)
                         (existing\<lparr>cm_data := cm_data cm, cm_labels := cm_labels cm\<rparr>)) (\<lambda>upd.
                    case upd of
                      Inl ue \<Rightarrow> fails (Wrapf ''update configmap: %w'' [] (k8s_err ue))
                    | Inr _ \<Rightarrow> createPod r endpointID)
              | Inr _ \<Rightarrow> fails (ExtErr ''unexpected object''))))"

section \<open>Stop and Status\<close>

definition deleteConfigMap :: "k8s_runtime \<Rightarrow> string \<Rightarrow> (err + unit) prog" where
  "deleteConfigMap r endpointID =
     K8s (DeleteConfigMap (kr_namespace r) (configMapName endpointID)) (\<lambda>res.
       case res of
         Inl e \<Rightarrow> if \<not> IsNotFound e then fails (Wrapf ''delete configmap: %w'' [] (k8s_err e))
                  else returns ()
       | Inr _ \<Rightarrow> returns ())"

definition Stop :: "k8s_runtime \<Rightarrow> string \<Rightarrow> (err + unit) prog" where
  "Stop r endpointID =
     K8s (DeletePod (kr_namespace r) (podName endpointID)) (\<lambda>res.
       case res of
         Inl e \<Rightarrow> if \<not> IsNotFound e then fails (Wrapf ''delete pod: %w'' [] (k8s_err e))
                  else deleteConfigMap r endpointID
       | Inr _ \<Rightarrow> deleteConfigMap r endpointID)"

definition Status :: "k8s_runtime \<Rightarrow> string \<Rightarrow> (err + pod_status) prog" where
  "Status r endpointID =
     K8s (GetPod (kr_namespace r) (podName endpointID)) (\<lambda>res.
       case res of
         Inl e \<Rightarrow> if IsNotFound e then returns \<lparr>ps_exists = False, ps_ip = [], ps_phase = []\<rparr>
                  else fails (k8s_err e)
       | Inr (PodObject p) \<Rightarrow> returns \<lparr>ps_exists = True, ps_ip = pv_ip p, ps_phase = pv_phase p\<rparr>
       | Inr _ \<Rightarrow> fails (ExtErr ''unexpected object''))"

definition NewK8sRuntime :: "k8s_runtime \<Rightarrow> runtime" where
  "NewK8sRuntime r = \<lparr>rt_Start = Start r, rt_Stop = Stop r, rt_Status = Status r\<rparr>"

section \<open>Names\<close>

lemma podName_inj: "inj podName"
  by (rule injI) (simp add: podName_def)

lemma podName_eq [simp]: "podName i = podName j \<longleftrightarrow> i = j"
  by (simp add: podName_def)

lemma configMapName_inj: "inj configMapName"
  by (rule injI) (simp add: configMapName_def)

section \<open>The interface's contract\<close>

text \<open>The pod a call creates or deletes.\<close>

fun pod_created :: "k8s_call \<Rightarrow> string option" where
  "pod_created (CreatePod ns p) = Some (po_name p)"
| "pod_created _ = None"

fun pod_deleted :: "k8s_call \<Rightarrow> string option" where
  "pod_deleted (DeletePod ns n) = Some n"
| "pod_deleted _ = None"

text \<open>What a client of the interface relies on: the three operations reach the cluster only,
  with calls of their own class about the endpoint they are given; only a start creates a
  pod and only a stop deletes one, the endpoint's; and a status without an existing pod
  carries no address.\<close>

locale compute_runtime =
  fixes rt :: runtime
    and creates deletes reads :: "string \<Rightarrow> k8s_call \<Rightarrow> bool"
  assumes Start_calls: "emits (is_k8s (creates i)) (rt_Start rt i cfg)"
    and Stop_calls: "emits (is_k8s (deletes i)) (rt_Stop rt i)"
    and Status_calls: "emits (is_k8s (reads i)) (rt_Status rt i)"
    and Status_absent: "yields (rt_Status rt i) (\<lambda>r. \<forall>st. r = Inr st \<and> \<not> ps_exists st \<longrightarrow> ps_ip st = [])"
    and creates_pod: "creates i c \<Longrightarrow> pod_deleted c = None \<and> pod_created c \<in> {None, Some (podName i)}"
    and deletes_pod: "deletes i c \<Longrightarrow> pod_created c = None \<and> pod_deleted c \<in> {None, Some (podName i)}"
    and reads_pod: "reads i c \<Longrightarrow> pod_created c = None \<and> pod_deleted c = None"
begin

lemma Start_wp:
  "(\<And>c r. creates i c \<Longrightarrow> mon_guar M s (EK8s c r) \<and> mon_next M s (EK8s c r) = s) \<Longrightarrow>
     wp M (rt_Start rt i cfg) (\<lambda>a s'. s' = s) s"
  by (rule emits_wp [OF Start_calls]) (auto elim!: is_k8s_elim)

lemma Stop_wp:
  "(\<And>c r. deletes i c \<Longrightarrow> mon_guar M s (EK8s c r) \<and> mon_next M s (EK8s c r) = s) \<Longrightarrow>
     wp M (rt_Stop rt i) (\<lambda>a s'. s' = s) s"
  by (rule emits_wp [OF Stop_calls]) (auto elim!: is_k8s_elim)

lemma Status_wp:
  "(\<And>c r. reads i c \<Longrightarrow> mon_guar M s (EK8s c r) \<and> mon_next M s (EK8s c r) = s) \<Longrightarrow>
     wp M (rt_Status rt i)
       (\<lambda>a s'. (\<forall>st. a = Inr st \<and> \<not> ps_exists st \<longrightarrow> ps_ip st = []) \<and> s' = s) s"
  by (rule emits_yields_wp [OF Status_calls Status_absent]) (auto elim!: is_k8s_elim)

end

text \<open>The calls of the implementation.\<close>

fun k8s_creates :: "string \<Rightarrow> string \<Rightarrow> k8s_call \<Rightarrow> bool" where
  "k8s_creates ns i (CreateConfigMap n cm) = (n = ns \<and> cm_name cm = configMapName i)"
| "k8s_creates ns i (GetConfigMap n m) = (n = ns \<and> m = configMapName i)"
| "k8s_creates ns i (UpdateConfigMap n cm) = (n = ns)"
| "k8s_creates ns i (CreatePod n p) = (n = ns \<and> po_name p = podName i)"
| "k8s_creates ns i _ = False"

fun k8s_deletes :: "string \<Rightarrow> string \<Rightarrow> k8s_call \<Rightarrow> bool" where
  "k8s_deletes ns i (DeletePod n m) = (n = ns \<and> m = podName i)"
| "k8s_deletes ns i (DeleteConfigMap n m) = (n = ns \<and> m = configMapName i)"
| "k8s_deletes ns i _ = False"

fun k8s_reads :: "string \<Rightarrow> string \<Rightarrow> k8s_call \<Rightarrow> bool" where
  "k8s_reads ns i (GetPod n m) = (n = ns \<and> m = podName i)"
| "k8s_reads ns i _ = False"

lemma k8s_classes:
  "k8s_creates ns i c \<Longrightarrow> pod_deleted c = None \<and> pod_created c \<in> {None, Some (podName i)}"
  "k8s_deletes ns i c \<Longrightarrow> pod_created c = None \<and> pod_deleted c \<in> {None, Some (podName i)}"
  "k8s_reads ns i c \<Longrightarrow> pod_created c = None \<and> pod_deleted c = None"
  by (cases c; simp)+

lemma Start_emits: "emits (is_k8s (k8s_creates (kr_namespace r) i)) (Start r i cfg)"
  by (auto simp: emits_def Start_def createPod_def Let_def configMapFor_def buildPod_def
      split: sum.split k8s_object.split)

lemma Stop_emits: "emits (is_k8s (k8s_deletes (kr_namespace r) i)) (Stop r i)"
  by (auto simp: emits_def Stop_def deleteConfigMap_def split: sum.split)

lemma Status_emits: "emits (is_k8s (k8s_reads (kr_namespace r) i)) (Status r i)"
  by (auto simp: emits_def Status_def split: sum.split k8s_object.split)

lemma Status_yields:
  "yields (Status r i) (\<lambda>a. \<forall>st. a = Inr st \<and> \<not> ps_exists st \<longrightarrow> ps_ip st = [])"
  by (auto simp: yields_def Status_def split: sum.split k8s_object.split)

interpretation k8s: compute_runtime "NewK8sRuntime r" "k8s_creates (kr_namespace r)"
  "k8s_deletes (kr_namespace r)" "k8s_reads (kr_namespace r)" for r
  by unfold_locales
    (simp_all add: NewK8sRuntime_def Start_emits Stop_emits Status_emits Status_yields
      k8s_classes [simplified])

end
