(* ===== verification/Lifecycle.thy ===== *)
theory Lifecycle
  imports Compute_K8s
begin

text \<open>
  The endpoint state machine as a lease. A program that moves an endpoint to
  \<^verbatim>\<open>starting\<close> owns its start, one that moves it to \<^verbatim>\<open>suspending\<close> owns its suspension. The
  monitor \<open>lease i\<close> computes the role a program has for endpoint \<open>i\<close> from its effects and
  says what a role may do; \<open>lease_as True i\<close> is the one for the requests that stop a compute
  without a role: deletions and the debugging stop. The locale \<open>endpoint_cell\<close> is the contract
  of the store's updates that makes the role exclusive.
\<close>

fun rows_affected :: "sql_result \<Rightarrow> nat" where
  "rows_affected (Affected n) = n" | "rows_affected _ = 0"

fun reads_only :: "stmt \<Rightarrow> bool" where
  "reads_only (SelectProject i) = True"
| "reads_only (SelectBranch i) = True"
| "reads_only (SelectBranchesOf i) = True"
| "reads_only (SelectEndpoint i) = True"
| "reads_only (SelectEndpointForUpdate i) = True"
| "reads_only (SelectEndpointOfBranch i) = True"
| "reads_only (SelectEndpointsIn st) = True"
| "reads_only (SelectAccess i) = True"
| "reads_only _ = False"

text \<open>The statements of a creation and of a deletion.\<close>

fun inserts :: "stmt \<Rightarrow> bool" where
  "inserts (InsertProject p) = True"
| "inserts (InsertBranch b) = True"
| "inserts (InsertEndpoint j b st n) = True"
| "inserts _ = False"

fun inserts_row :: "string \<Rightarrow> stmt \<Rightarrow> bool" where
  "inserts_row i (InsertEndpoint j b st n) = (j = i)"
| "inserts_row i _ = False"

fun removes_rows :: "stmt \<Rightarrow> bool" where
  "removes_rows (DeleteProjectRow j) = True"
| "removes_rows (DeleteBranchRow j) = True"
| "removes_rows _ = False"

section \<open>Roles\<close>

datatype role = Idle | Owner | Suspender

text \<open>The statement an event wrote, alone in its transaction, with its result.\<close>

fun wrote :: "event \<Rightarrow> (stmt \<times> nat) option" where
  "wrote (ESql [q] (Inr v)) = Some (q, rows_affected v)"
| "wrote _ = None"

fun role_after :: "string \<Rightarrow> role \<Rightarrow> stmt \<times> nat \<Rightarrow> role" where
  "role_after i s (UpdateState j from to, n) =
     (if j = i \<and> n = 1
      then (if to = ''starting'' then Owner else if to = ''suspending'' then Suspender else Idle)
      else s)"
| "role_after i s (UpdateRunning j a, n) = (if j = i then Idle else s)"
| "role_after i s (UpdateSuspended j, n) = (if j = i then Idle else s)"
| "role_after i s (q, n) = s"

text \<open>The transitions the code makes. A role is needed to end a start or a suspension, to
  create the endpoint's pod and, for a program that is not an administrator's, to delete it.\<close>

fun may_write :: "string \<Rightarrow> role \<Rightarrow> stmt \<Rightarrow> bool" where
  "may_write i s (UpdateState j from to) =
     (if from = ''starting'' \<and> to = ''failed'' then j = i \<longrightarrow> s = Owner
      else (from, to) \<in>
        {(''suspended'', ''starting''), (''failed'', ''starting''), (''starting'', ''starting''),
         (''suspending'', ''starting''), (''running'', ''suspended''), (''running'', ''suspending'')})"
| "may_write i s (UpdateRunning j a) = (j = i \<longrightarrow> s = Owner)"
| "may_write i s (UpdateSuspended j) = True"
| "may_write i s q = (reads_only q \<or> removes_rows q)"

fun lease_guar :: "bool \<Rightarrow> string \<Rightarrow> role \<Rightarrow> event \<Rightarrow> bool" where
  "lease_guar adm i s (ESql qs r) =
     (case qs of [q] \<Rightarrow> may_write i s q \<or> inserts q | _ \<Rightarrow> list_all inserts qs)"
| "lease_guar adm i s (EK8s c r) =
     ((pod_created c = Some (podName i) \<longrightarrow> s = Owner) \<and>
      (pod_deleted c = Some (podName i) \<longrightarrow> adm \<or> s \<noteq> Idle))"
| "lease_guar adm i s _ = True"

lemma may_write_kinds:
  "may_write i s q \<Longrightarrow> reads_only q \<or> removes_rows q \<or> (\<exists>j src dst. q = UpdateState j src dst) \<or>
     (\<exists>j a. q = UpdateRunning j a) \<or> (\<exists>j. q = UpdateSuspended j)"
  by (cases q) auto

text \<open>The two writes that take an endpoint away from its owner: a takeover of a stale start or
  suspension, and the repair of an endpoint by a program that did not move it to \<^verbatim>\<open>suspending\<close>, a
  sweep or the debugging stop.\<close>

fun takes_over :: "string \<Rightarrow> stmt \<times> nat \<Rightarrow> bool" where
  "takes_over i (UpdateState j from to, n) =
     (j = i \<and> n = 1 \<and> to = ''starting'' \<and> (from = ''starting'' \<or> from = ''suspending''))"
| "takes_over i (q, n) = False"

fun repairs :: "string \<Rightarrow> role \<Rightarrow> stmt \<times> nat \<Rightarrow> bool" where
  "repairs i s (UpdateSuspended j, n) = (j = i \<and> s \<noteq> Suspender)"
| "repairs i s (q, n) = False"

definition lease_as :: "bool \<Rightarrow> string \<Rightarrow> role monitor" where
  "lease_as adm i =
     \<lparr>mon_rely = (\<lambda>s ev. case wrote ev of None \<Rightarrow> True | Some w \<Rightarrow> \<not> takes_over i w \<and> \<not> repairs i s w),
      mon_guar = lease_guar adm i,
      mon_next = (\<lambda>s ev. case wrote ev of None \<Rightarrow> s | Some w \<Rightarrow> role_after i s w)\<rparr>"

abbreviation lease :: "string \<Rightarrow> role monitor" where
  "lease \<equiv> lease_as False"

lemma lease_simps [simp]:
  "mon_rely (lease_as adm i) s ev =
     (case wrote ev of None \<Rightarrow> True | Some w \<Rightarrow> \<not> takes_over i w \<and> \<not> repairs i s w)"
  "mon_guar (lease_as adm i) s ev = lease_guar adm i s ev"
  "mon_next (lease_as adm i) s ev = (case wrote ev of None \<Rightarrow> s | Some w \<Rightarrow> role_after i s w)"
  by (simp_all add: lease_as_def)

text \<open>The creation of the row of endpoint \<open>i\<close>.\<close>

fun creates_row :: "string \<Rightarrow> event \<Rightarrow> bool" where
  "creates_row i (ESql qs (Inr v)) = list_ex (inserts_row i) qs"
| "creates_row i _ = False"

text \<open>The roles \<open>\<rho>\<close> of all programs agree with the endpoint's state, unless it was deleted: an
  owner's endpoint is \<^verbatim>\<open>starting\<close>, a suspender's \<^verbatim>\<open>suspending\<close>, and at most one program has a
  role.\<close>

definition lease_inv :: "string option \<Rightarrow> ('t \<Rightarrow> role) \<Rightarrow> bool" where
  "lease_inv st \<rho> \<longleftrightarrow>
     (\<forall>t. \<rho> t = Owner \<longrightarrow> st \<in> {None, Some ''starting''}) \<and>
     (\<forall>t. \<rho> t = Suspender \<longrightarrow> st \<in> {None, Some ''suspending''}) \<and>
     (\<forall>t u. \<rho> t \<noteq> Idle \<longrightarrow> \<rho> u \<noteq> Idle \<longrightarrow> t = u)"

lemma lease_inv_idle: "(\<And>t. \<rho> t = Idle) \<Longrightarrow> lease_inv st \<rho>"
  by (simp add: lease_inv_def)

lemma lease_inv_exclusive: "lease_inv st \<rho> \<Longrightarrow> \<rho> t \<noteq> Idle \<Longrightarrow> u \<noteq> t \<Longrightarrow> \<rho> u = Idle"
  by (auto simp: lease_inv_def)

lemma lease_inv_Owner: "lease_inv st \<rho> \<Longrightarrow> \<rho> t = Owner \<Longrightarrow> st \<in> {None, Some ''starting''}"
  by (auto simp: lease_inv_def)

lemma lease_inv_Suspender: "lease_inv st \<rho> \<Longrightarrow> \<rho> t = Suspender \<Longrightarrow> st \<in> {None, Some ''suspending''}"
  by (auto simp: lease_inv_def)

text \<open>No program has a role for an endpoint that is neither \<^verbatim>\<open>starting\<close> nor \<^verbatim>\<open>suspending\<close>.\<close>

lemma lease_inv_free:
  "lease_inv st \<rho> \<Longrightarrow> st \<noteq> None \<Longrightarrow> st \<noteq> Some ''starting'' \<Longrightarrow> st \<noteq> Some ''suspending'' \<Longrightarrow> \<rho> t = Idle"
  by (cases "\<rho> t") (auto simp: lease_inv_def)

lemma lease_inv_grant:
  assumes "\<And>t. \<rho> t = Idle"
    and "r = Owner \<Longrightarrow> st = Some ''starting''" and "r = Suspender \<Longrightarrow> st = Some ''suspending''"
  shows "lease_inv st (\<rho>(t := r))"
  using assms by (auto simp: lease_inv_def)

lemma lease_inv_deleted: "lease_inv st \<rho> \<Longrightarrow> st' \<in> {st, None} \<Longrightarrow> lease_inv st' \<rho>"
  unfolding lease_inv_def by blast

lemma lease_inv_release:
  assumes "lease_inv st \<rho>" and "\<rho> t \<noteq> Idle"
  shows "lease_inv st' (\<rho>(t := Idle))"
  using assms by (auto simp: lease_inv_def)

text \<open>Effects without a part in the lease: reading the tables, waiting, asking the network, and
  the cluster calls that neither create nor delete a pod.\<close>

fun looks :: "event \<Rightarrow> bool" where
  "looks (ESql [q] r) = reads_only q"
| "looks _ = False"

fun waits :: "(k8s_call \<Rightarrow> bool) \<Rightarrow> event \<Rightarrow> bool" where
  "waits P (ENow t) = True"
| "waits P (ESleep d r) = True"
| "waits P (EHttp q r) = True"
| "waits P (EK8s c r) = P c"
| "waits P _ = False"

lemma looks_lease: "looks ev \<Longrightarrow> mon_guar (lease i) s ev \<and> mon_next (lease i) s ev = s"
proof (cases ev rule: looks.cases)
  case (1 q r)
  assume "looks ev"
  with 1 show ?thesis by (cases q; cases r) simp_all
qed simp_all

lemma waits_lease:
  "waits P ev \<Longrightarrow> (\<And>c. P c \<Longrightarrow> pod_created c = None \<and> pod_deleted c = None) \<Longrightarrow>
     mon_guar (lease i) s ev \<and> mon_next (lease i) s ev = s"
  by (cases ev) auto

lemma k8s_lease:
  "is_k8s P ev \<Longrightarrow>
     (\<And>c. P c \<Longrightarrow> pod_created c \<in> {None, Some (podName j)} \<and> pod_deleted c \<in> {None, Some (podName j)}) \<Longrightarrow>
     (\<And>c. P c \<Longrightarrow> pod_created c \<noteq> None \<Longrightarrow> j = i \<Longrightarrow> s = Owner) \<Longrightarrow>
     (\<And>c. P c \<Longrightarrow> pod_deleted c \<noteq> None \<Longrightarrow> j = i \<Longrightarrow> s \<noteq> Idle) \<Longrightarrow>
     mon_guar (lease i) s ev \<and> mon_next (lease i) s ev = s"
proof (cases ev)
  case (EK8s c r)
  assume "is_k8s P ev" with EK8s have "P c" by simp
  assume "\<And>c. P c \<Longrightarrow> pod_created c \<in> {None, Some (podName j)} \<and> pod_deleted c \<in> {None, Some (podName j)}"
    and "\<And>c. P c \<Longrightarrow> pod_created c \<noteq> None \<Longrightarrow> j = i \<Longrightarrow> s = Owner"
    and "\<And>c. P c \<Longrightarrow> pod_deleted c \<noteq> None \<Longrightarrow> j = i \<Longrightarrow> s \<noteq> Idle"
  from this [OF \<open>P c\<close>] EK8s show ?thesis by fastforce
qed simp_all

context compute_runtime
begin

lemma Stop_lease:
  assumes "j = i \<Longrightarrow> s \<noteq> Idle"
  shows "wp (lease i) (rt_Stop rt j) (\<lambda>a s'. s' = s) s"
proof (rule emits_wp [OF Stop_calls])
  fix ev assume "is_k8s (deletes j) ev"
  then show "mon_guar (lease i) s ev \<and> mon_next (lease i) s ev = s"
    by (rule k8s_lease [where j = j]) (use assms deletes_pod in auto)
qed

lemma Start_lease:
  assumes "j = i \<Longrightarrow> s = Owner"
  shows "wp (lease i) (rt_Start rt j cfg) (\<lambda>a s'. s' = s) s"
proof (rule emits_wp [OF Start_calls])
  fix ev assume "is_k8s (creates j) ev"
  then show "mon_guar (lease i) s ev \<and> mon_next (lease i) s ev = s"
    by (rule k8s_lease [where j = j]) (use assms creates_pod in auto)
qed

lemma Status_lease: "wp (lease i) (rt_Status rt j) (\<lambda>a s'. s' = s) s"
proof (rule emits_wp [OF Status_calls])
  fix ev assume "is_k8s (reads j) ev"
  then show "mon_guar (lease i) s ev \<and> mon_next (lease i) s ev = s"
    by (rule k8s_lease [where j = j]) (use reads_pod in auto)
qed

end

section \<open>The store's contract\<close>

text \<open>What the updates of a store promise about the endpoints' states: a compare-and-swap
  moves one endpoint and reports one row exactly when it was in the expected state; the
  unconditional updates move an endpoint that exists; an error and a read move nothing; an
  insertion leaves the endpoints alone that it does not insert, a deletion those it does not
  delete.\<close>

locale endpoint_cell =
  fixes state_of :: "'d \<Rightarrow> string \<Rightarrow> string option"
    and invar :: "'d \<Rightarrow> bool"
    and apply_tx :: "time \<Rightarrow> stmt list \<Rightarrow> 'd \<Rightarrow> (err + sql_result) \<times> 'd"
  assumes cas: "invar d \<Longrightarrow> to \<in> set endpoint_states \<Longrightarrow> apply_tx t [UpdateState j from to] d = (r, d') \<Longrightarrow>
      (if state_of d j = Some from
       then r = Inr (Affected 1) \<and> state_of d' = (state_of d)(j := Some to)
       else r = Inr (Affected 0) \<and> state_of d' = state_of d)"
    and set_running: "invar d \<Longrightarrow> apply_tx t [UpdateRunning j a] d = (Inr v, d') \<Longrightarrow>
      state_of d' = (if state_of d j = None then state_of d else (state_of d)(j := Some ''running''))"
    and set_suspended: "invar d \<Longrightarrow> apply_tx t [UpdateSuspended j] d = (Inr v, d') \<Longrightarrow>
      state_of d' = (if state_of d j = None then state_of d else (state_of d)(j := Some ''suspended''))"
    and read: "reads_only q \<Longrightarrow> apply_tx t [q] d = (r, d') \<Longrightarrow> d' = d"
    and insert_rows: "list_all inserts qs \<Longrightarrow> apply_tx t qs d = (r, d') \<Longrightarrow> \<not> list_ex (inserts_row j) qs \<Longrightarrow>
      state_of d' j = state_of d j"
    and remove_rows: "invar d \<Longrightarrow> removes_rows q \<Longrightarrow> apply_tx t [q] d = (r, d') \<Longrightarrow> state_of d' j \<in> {state_of d j, None}"
    and rollback: "apply_tx t qs d = (Inl e, d') \<Longrightarrow> d' = d"
    and keeps: "invar d \<Longrightarrow> invar (snd (apply_tx t qs d))"
begin

lemma cas_keeps_lease:
  assumes inv: "lease_inv (state_of d i) \<rho>" and ok: "invar d"
    and tx: "apply_tx t [UpdateState j from to] d = (Inr v, d')"
    and guar: "may_write i (\<rho> k) (UpdateState j from to)"
    and rely: "\<not> takes_over i (UpdateState j from to, rows_affected v)"
  shows "lease_inv (state_of d' i) (\<rho>(k := role_after i (\<rho> k) (UpdateState j from to, rows_affected v)))"
proof -
  have "to \<in> set endpoint_states"
    using guar by (auto simp: endpoint_states_def split: if_splits)
  from cas [OF ok this tx] have step: "if state_of d j = Some from
      then v = Affected 1 \<and> state_of d' = (state_of d)(j := Some to)
      else v = Affected 0 \<and> state_of d' = state_of d"
    by (simp split: if_splits)
  show ?thesis
  proof (cases "state_of d j = Some from \<and> j = i")
    case False
    with step have "state_of d' i = state_of d i"
      "role_after i (\<rho> k) (UpdateState j from to, rows_affected v) = \<rho> k"
      by (auto split: if_splits)
    with inv show ?thesis by simp
  next
    case True
    with step have new: "v = Affected 1" "state_of d' i = Some to" by auto
    show ?thesis
    proof (cases "from = ''starting'' \<and> to = ''failed''")
      case True
      with guar \<open>state_of d j = Some from \<and> j = i\<close> have "\<rho> k = Owner" by simp
      with inv True \<open>state_of d j = Some from \<and> j = i\<close> new show ?thesis
        by (simp add: lease_inv_release)
    next
      case False
      with guar rely True new have "from \<noteq> ''starting''" "from \<noteq> ''suspending''" by auto
      with inv True have "\<And>t. \<rho> t = Idle" by (intro lease_inv_free [OF inv]) auto
      with new True show ?thesis by (auto intro!: lease_inv_grant)
    qed
  qed
qed

text \<open>A permitted effect of program \<open>k\<close>, not a takeover or a repair, keeps the roles in step
  with the state.\<close>

lemma step_keeps_lease:
  assumes inv: "lease_inv (state_of d i) \<rho>" and ok: "invar d"
    and tx: "apply_tx t qs d = (r, d')"
    and guar: "mon_guar (lease_as adm i) (\<rho> k) (ESql qs r)"
    and rely: "mon_rely (lease_as adm i) (\<rho> k) (ESql qs r)"
    and unused: "creates_row i (ESql qs r) \<Longrightarrow> \<forall>u. \<rho> u = Idle"
  shows "lease_inv (state_of d' i) (\<rho>(k := mon_next (lease_as adm i) (\<rho> k) (ESql qs r)))"
proof (cases r)
  case (Inl e)
  with rollback tx have "d' = d" by blast
  with Inl inv show ?thesis by (cases qs) simp_all
next
  case (Inr v)
  consider "list_all inserts qs" | q where "qs = [q]" "reads_only q" | q where "qs = [q]" "removes_rows q"
    | j src dst where "qs = [UpdateState j src dst]"
    | j a where "qs = [UpdateRunning j a]" | j where "qs = [UpdateSuspended j]"
    using guar by (auto split: list.splits dest!: may_write_kinds)
  then show ?thesis
  proof cases
    case 1
    have "inserts q \<Longrightarrow> role_after i s (q, n) = s" for s q n by (cases q) simp_all
    with 1 Inr have same: "\<rho>(k := mon_next (lease_as adm i) (\<rho> k) (ESql qs r)) = \<rho>"
      by (cases qs; cases "tl qs") auto
    show ?thesis
    proof (cases "list_ex (inserts_row i) qs")
      case True
      with unused Inr same show ?thesis by (simp add: lease_inv_idle)
    next
      case False
      with insert_rows [OF 1 tx] inv same show ?thesis by simp
    qed
  next
    case (2 q)
    with read tx have "d' = d" by blast
    with 2 inv Inr show ?thesis by (cases q) simp_all
  next
    case (3 q)
    with remove_rows [OF ok 3(2), of t r d' i] tx inv have "lease_inv (state_of d' i) \<rho>"
      by (auto intro: lease_inv_deleted)
    with 3 inv Inr show ?thesis by (cases q) simp_all
  next
    case (4 j src dst)
    with inv ok tx guar rely Inr show ?thesis
      using cas_keeps_lease [of d i \<rho> t j src dst v d' k] by simp
  next
    case (5 j a)
    show ?thesis
    proof (cases "j = i")
      case True
      with 5 guar have "\<rho> k = Owner" by simp
      with inv True 5 Inr show ?thesis by (simp add: lease_inv_release)
    next
      case False
      with set_running [OF ok, of t j a v d'] tx 5 Inr inv show ?thesis by simp
    qed
  next
    case (6 j)
    show ?thesis
    proof (cases "j = i")
      case True
      with 6 rely Inr have "\<rho> k = Suspender" by simp
      with inv True 6 Inr show ?thesis by (simp add: lease_inv_release)
    next
      case False
      with set_suspended [OF ok, of t j v d'] tx 6 Inr inv show ?thesis by simp
    qed
  qed
qed

end

end
