(* ===== verification/Store.thy ===== *)
theory Store
  imports Lifecycle
begin

text \<open>
  \<^verbatim>\<open>internal/state/store.go\<close>: the methods of \<^verbatim>\<open>Store\<close>, each one transaction of the
  statements of \<open>Database\<close> and the conversion of its rows.
\<close>

section \<open>pgx\<close>

text \<open>\<^verbatim>\<open>Exec\<close> returns the number of rows affected, \<^verbatim>\<open>Query\<close> the rows, \<^verbatim>\<open>QueryRow\<close> the first
  one or \<^verbatim>\<open>pgx.ErrNoRows\<close>; rows of other columns than the scan expects are an error.\<close>

definition ErrNoRows :: err where
  "ErrNoRows = ExtErr ''no rows in result set''"

definition scan_error :: err where
  "scan_error = ExtErr ''cannot scan row''"

fun as_projects :: "sql_result \<Rightarrow> project list option" where
  "as_projects (ProjectRows xs) = Some xs" | "as_projects _ = None"

fun as_branches :: "sql_result \<Rightarrow> branch list option" where
  "as_branches (BranchRows xs) = Some xs" | "as_branches _ = None"

fun as_endpoints :: "sql_result \<Rightarrow> endpoint list option" where
  "as_endpoints (EndpointRows xs) = Some xs" | "as_endpoints _ = None"

fun as_access :: "sql_result \<Rightarrow> access_control list option" where
  "as_access (AccessRows xs) = Some xs" | "as_access _ = None"

definition exec_reply :: "err + sql_result \<Rightarrow> err + unit" where
  "exec_reply r = map_sum id (\<lambda>_. ()) r"

definition query_reply :: "(sql_result \<Rightarrow> 'r list option) \<Rightarrow> err + sql_result \<Rightarrow> err + 'r list" where
  "query_reply sel r =
     (case r of Inl e \<Rightarrow> Inl e
      | Inr v \<Rightarrow> (case sel v of None \<Rightarrow> Inl scan_error | Some rows \<Rightarrow> Inr rows))"

definition query_row_reply :: "(sql_result \<Rightarrow> 'r list option) \<Rightarrow> err + sql_result \<Rightarrow> err + 'r" where
  "query_row_reply sel r =
     (case query_reply sel r of Inl e \<Rightarrow> Inl e
      | Inr [] \<Rightarrow> Inl ErrNoRows
      | Inr (x # _) \<Rightarrow> Inr x)"

text \<open>\<^verbatim>\<open>if errors.Is(err, pgx.ErrNoRows) { return nil, ErrNotFound }; return p, err\<close>\<close>

definition or_not_found :: "err + 'r \<Rightarrow> err + 'r" where
  "or_not_found r = (case r of Inl e \<Rightarrow> Inl (if e = ErrNoRows then ErrNotFound else e) | Inr x \<Rightarrow> Inr x)"

section \<open>Writing\<close>

definition Migrate :: "(err + unit) prog" where
  "Migrate = Sql [CreateSchema] (\<lambda>r. Return (exec_reply r))"

definition insertBranchAndEndpoint :: "branch \<Rightarrow> endpoint \<Rightarrow> stmt list" where
  "insertBranchAndEndpoint b ep =
     (let st = (if e_state ep = '''' then ''suspended'' else e_state ep);
          suspendAfter = (if e_suspend_after ep = 0 then 300 else e_suspend_after ep)
      in [InsertBranch b, InsertEndpoint (e_id ep) (e_branch ep) st suspendAfter])"

definition CreateProject :: "project \<Rightarrow> branch \<Rightarrow> endpoint \<Rightarrow> (err + unit) prog" where
  "CreateProject p b ep =
     Sql (InsertProject p # insertBranchAndEndpoint b ep) (\<lambda>r. Return (exec_reply r))"

definition CreateBranch :: "branch \<Rightarrow> endpoint \<Rightarrow> (err + unit) prog" where
  "CreateBranch b ep = Sql (insertBranchAndEndpoint b ep) (\<lambda>r. Return (exec_reply r))"

text \<open>The compare-and-swap: true when exactly one row was in the expected state.\<close>

definition TransitionEndpoint :: "string \<Rightarrow> string \<Rightarrow> string \<Rightarrow> (err + bool) prog" where
  "TransitionEndpoint i from to =
     Sql [UpdateState i from to] (\<lambda>r. Return (map_sum id (\<lambda>v. rows_affected v = 1) r))"

definition SetEndpointRunning :: "string \<Rightarrow> string \<Rightarrow> (err + unit) prog" where
  "SetEndpointRunning i addr = Sql [UpdateRunning i addr] (\<lambda>r. Return (exec_reply r))"

definition SetEndpointSuspended :: "string \<Rightarrow> (err + unit) prog" where
  "SetEndpointSuspended i = Sql [UpdateSuspended i] (\<lambda>r. Return (exec_reply r))"

definition SetEndpointSuspendAfter :: "string \<Rightarrow> int \<Rightarrow> (err + unit) prog" where
  "SetEndpointSuspendAfter i secs = Sql [UpdateSuspendAfter i secs] (\<lambda>r. Return (exec_reply r))"

definition DeleteProject :: "string \<Rightarrow> (err + unit) prog" where
  "DeleteProject i = Sql [DeleteProjectRow i] (\<lambda>r. Return (exec_reply r))"

definition DeleteBranch :: "string \<Rightarrow> (err + unit) prog" where
  "DeleteBranch i = Sql [DeleteBranchRow i] (\<lambda>r. Return (exec_reply r))"

section \<open>Reading\<close>

definition GetProjectByID :: "string \<Rightarrow> (err + project) prog" where
  "GetProjectByID i =
     Sql [SelectProject i] (\<lambda>r. Return (or_not_found (query_row_reply as_projects r)))"

definition GetBranchByID :: "string \<Rightarrow> (err + branch) prog" where
  "GetBranchByID i =
     Sql [SelectBranch i] (\<lambda>r. Return (or_not_found (query_row_reply as_branches r)))"

definition ListBranchesByProject :: "string \<Rightarrow> (err + branch list) prog" where
  "ListBranchesByProject i = Sql [SelectBranchesOf i] (\<lambda>r. Return (query_reply as_branches r))"

definition scanEndpoint :: "err + sql_result \<Rightarrow> err + endpoint" where
  "scanEndpoint r = or_not_found (query_row_reply as_endpoints r)"

definition GetEndpointByID :: "string \<Rightarrow> (err + endpoint) prog" where
  "GetEndpointByID i = Sql [SelectEndpoint i] (\<lambda>r. Return (scanEndpoint r))"

definition GetEndpointByBranch :: "string \<Rightarrow> (err + endpoint) prog" where
  "GetEndpointByBranch b = Sql [SelectEndpointOfBranch b] (\<lambda>r. Return (scanEndpoint r))"

definition ListEndpointsByState :: "string \<Rightarrow> (err + endpoint list) prog" where
  "ListEndpointsByState st = Sql [SelectEndpointsIn st] (\<lambda>r. Return (query_reply as_endpoints r))"

definition GetAccessControl :: "string \<Rightarrow> (err + access_control) prog" where
  "GetAccessControl i =
     Sql [SelectAccess i] (\<lambda>r. Return (or_not_found (query_row_reply as_access r)))"

text \<open>
  The row is read under \<^verbatim>\<open>FOR UPDATE\<close>, the callback runs, and the empty transaction
  \<open>Sql []\<close> stands for the commit; the callback's error rolls back. The callbacks of the
  repository issue no statement of their own.
\<close>

definition WithEndpointLock :: "string \<Rightarrow> (endpoint \<Rightarrow> (err + 'b) prog) \<Rightarrow> (err + 'b) prog" where
  "WithEndpointLock i fn =
     Sql [SelectEndpointForUpdate i] (\<lambda>r.
       case scanEndpoint r of
         Inl e \<Rightarrow> fails e
       | Inr ep \<Rightarrow> check (fn ep) fails (\<lambda>x.
           Sql [] (\<lambda>c. case c of Inl e \<Rightarrow> fails e | Inr _ \<Rightarrow> returns x)))"

lemmas store_defs [prog_defs] =
  CreateProject_def CreateBranch_def TransitionEndpoint_def SetEndpointRunning_def
  SetEndpointSuspended_def SetEndpointSuspendAfter_def DeleteProject_def DeleteBranch_def
  GetProjectByID_def GetBranchByID_def ListBranchesByProject_def GetEndpointByID_def
  GetEndpointByBranch_def ListEndpointsByState_def GetAccessControl_def WithEndpointLock_def
  Migrate_def

section \<open>What the replies mean against the tables\<close>

abbreviation ep_row :: "database \<Rightarrow> string \<Rightarrow> endpoint option" where
  "ep_row db i \<equiv> List.find (\<lambda>e. e_id e = i) (endpoints db)"

definition ep_state :: "database \<Rightarrow> string \<Rightarrow> string option" where
  "ep_state db i = map_option e_state (ep_row db i)"

lemma find_distinct_filter:
  assumes "distinct (map k xs)"
  shows "filter (\<lambda>x. k x = i) xs = (case List.find (\<lambda>x. k x = i) xs of None \<Rightarrow> [] | Some x \<Rightarrow> [x])"
  using assms
proof (induction xs)
  case (Cons x xs)
  have "k x = i \<Longrightarrow> filter (\<lambda>y. k y = i) xs = []"
    using Cons.prems by (auto simp: filter_empty_conv image_iff)
  with Cons show ?case by auto
qed simp

lemma find_map_update:
  assumes "\<And>x. k (f x) = k x"
  shows "List.find (\<lambda>x. k x = i) (map f xs) = map_option f (List.find (\<lambda>x. k x = i) xs)"
  using assms by (induction xs) auto

lemma find_key: "List.find (\<lambda>x. k x = i) xs = Some x \<Longrightarrow> k x = i \<and> x \<in> set xs"
  by (auto simp: find_Some_iff)

lemma ep_row_update:
  assumes "\<And>e. e_id (f e) = e_id e"
  shows "ep_row (update_endpoints P f db) i =
    map_option (\<lambda>e. if P e then f e else e) (ep_row db i)"
  unfolding update_endpoints_def using assms
  by (simp add: find_map_update [where k = e_id])

lemma matching_key:
  assumes "schema_ok db"
  shows "matching (\<lambda>e. e_id e = i \<and> P e) db =
    (case ep_row db i of None \<Rightarrow> 0 | Some e \<Rightarrow> if P e then 1 else 0)"
proof -
  have "distinct (map e_id (endpoints db))" using assms by (simp add: schema_ok_def)
  then have "filter (\<lambda>e. e_id e = i) (endpoints db) =
      (case ep_row db i of None \<Rightarrow> [] | Some e \<Rightarrow> [e])"
    by (rule find_distinct_filter)
  moreover have "filter (\<lambda>e. e_id e = i \<and> P e) (endpoints db) =
      filter P (filter (\<lambda>e. e_id e = i) (endpoints db))"
    by (simp add: filter_filter conj_commute)
  ultimately show ?thesis
    by (simp add: matching_def split: option.split)
qed

text \<open>The compare-and-swap on the tables: it succeeds exactly from the expected state, moves
  only that endpoint, and leaves the tables alone otherwise.\<close>

lemma cas_outcome:
  assumes "schema_ok db" and "to \<in> set endpoint_states"
  shows "exec_tx t [UpdateState i from to] db =
    (if ep_state db i = Some from
     then (Inr (Affected 1),
           update_endpoints (\<lambda>e. e_id e = i \<and> e_state e = from) (\<lambda>e. e\<lparr>e_state := to, e_updated := t\<rparr>) db)
     else (Inr (Affected 0), db))"
proof -
  have "update_endpoints P f db = db" if "matching P db = 0" for P f
    using that by (simp add: update_endpoints_def matching_zero map_idI)
  then show ?thesis
    using assms matching_key [OF assms(1), of i "\<lambda>e. e_state e = from"]
    by (auto simp: exec_tx_single ep_state_def Let_def split: option.splits if_splits)
qed

lemma ep_state_update:
  assumes "\<And>e. e_id (f e) = e_id e"
  shows "ep_state (update_endpoints P f db) i =
    map_option (\<lambda>e. if P e then e_state (f e) else e_state e) (ep_row db i)"
  by (simp add: ep_state_def ep_row_update [OF assms] option.map_comp comp_def if_distrib)

lemma ep_row_key: "ep_row db i = Some e \<Longrightarrow> e_id e = i"
  using find_key [of e_id i "endpoints db" e] by simp

text \<open>An unconditional update of one endpoint's state, and a conditional one whose condition
  holds.\<close>

lemma set_state_outcome:
  assumes "\<And>e. e_id (f e) = e_id e" and "\<And>e. e_state (f e) = s"
  shows "ep_state (update_endpoints (\<lambda>e. e_id e = j) f db) =
    (if ep_state db j = None then ep_state db else (ep_state db)(j := Some s))"
proof
  fix i
  have "ep_state (update_endpoints (\<lambda>e. e_id e = j) f db) i =
      map_option (\<lambda>e. if e_id e = j then s else e_state e) (ep_row db i)"
    by (simp add: ep_state_update [OF assms(1)] assms(2) cong: if_cong)
  also have "\<dots> = (if ep_state db j = None then ep_state db else (ep_state db)(j := Some s)) i"
    by (cases "ep_row db i") (auto simp: ep_state_def dest: ep_row_key)
  finally show "ep_state (update_endpoints (\<lambda>e. e_id e = j) f db) i = \<dots>" .
qed

lemma cas_state:
  assumes "ep_state db j = Some src"
  shows "ep_state (update_endpoints (\<lambda>e. e_id e = j \<and> e_state e = src)
      (\<lambda>e. e\<lparr>e_state := dst, e_updated := t\<rparr>) db) = (ep_state db)(j := Some dst)"
proof
  fix i
  have "ep_state (update_endpoints (\<lambda>e. e_id e = j \<and> e_state e = src)
      (\<lambda>e. e\<lparr>e_state := dst, e_updated := t\<rparr>) db) i =
    map_option (\<lambda>e. if e_id e = j \<and> e_state e = src then dst else e_state e) (ep_row db i)"
    by (subst ep_state_update) (simp_all cong: if_cong)
  also have "\<dots> = ((ep_state db)(j := Some dst)) i"
    using assms by (cases "ep_row db i") (auto simp: ep_state_def dest: ep_row_key)
  finally show "ep_state (update_endpoints (\<lambda>e. e_id e = j \<and> e_state e = src)
      (\<lambda>e. e\<lparr>e_state := dst, e_updated := t\<rparr>) db) i = \<dots>" .
qed

lemma running_outcome:
  assumes "exec_tx t [UpdateRunning j a] db = (Inr v, db')"
  shows "ep_state db' = (if ep_state db j = None then ep_state db else (ep_state db)(j := Some ''running''))"
proof -
  from assms have "db' = update_endpoints (\<lambda>e. e_id e = j)
      (\<lambda>e. e\<lparr>e_state := ''running'', e_addr := Some a, e_last_started := Some t,
             e_last_active := Some t, e_updated := t\<rparr>) db"
    by (simp add: exec_tx_single Let_def split: if_splits)
  then show ?thesis by (simp only:) (rule set_state_outcome, simp_all)
qed

lemma suspended_outcome:
  assumes "exec_tx t [UpdateSuspended j] db = (Inr v, db')"
  shows "ep_state db' = (if ep_state db j = None then ep_state db else (ep_state db)(j := Some ''suspended''))"
proof -
  from assms have "db' = update_endpoints (\<lambda>e. e_id e = j)
      (\<lambda>e. e\<lparr>e_state := ''suspended'', e_addr := None, e_updated := t\<rparr>) db"
    by (simp add: exec_tx_single Let_def)
  then show ?thesis by (simp only:) (rule set_state_outcome, simp_all)
qed

lemma read_outcome: "reads_only q \<Longrightarrow> exec_tx t [q] db = (r, db') \<Longrightarrow> db' = db"
  by (cases q) (auto simp: exec_tx_single)

lemma find_app:
  "List.find P (xs @ ys) = (case List.find P xs of None \<Rightarrow> List.find P ys | Some x \<Rightarrow> Some x)"
  by (induction xs) auto

lemma insert_stmt_state:
  assumes "inserts q" and "exec_stmt t q db = Inr (v, db')" and "\<not> inserts_row j q"
  shows "ep_state db' j = ep_state db j"
  using assms
  by (cases q) (auto simp: insert_project_def insert_branch_def insert_endpoint_def ep_state_def find_app
      map_sum_def split: sum.splits if_splits option.split)

lemma insert_outcome:
  assumes "list_all inserts qs" and "exec_tx t qs db = (r, db')" and "\<not> list_ex (inserts_row j) qs"
  shows "ep_state db' j = ep_state db j"
proof -
  have "exec_stmts t qs v db = Inr (v', db') \<Longrightarrow> ep_state db' j = ep_state db j" for v v' db'
    using assms(1,3)
    by (induction qs arbitrary: v db) (auto split: sum.splits dest!: insert_stmt_state)
  with assms(2) show ?thesis by (auto simp: exec_tx_def split: sum.splits)
qed

lemma find_absent: "a \<notin> k ` set xs \<Longrightarrow> List.find (\<lambda>e. k e = a) xs = None"
  by (auto simp: find_None_iff)

lemma find_filter:
  "distinct (map k xs) \<Longrightarrow>
     List.find (\<lambda>e. k e = a) (filter Q xs) \<in> {List.find (\<lambda>e. k e = a) xs, None}"
  by (induction xs) (auto intro!: find_absent)

lemma delete_branches_state:
  assumes "schema_ok db"
  shows "ep_state (delete_branches P db) j \<in> {ep_state db j, None}"
proof -
  have "distinct (map e_id (endpoints db))" using assms by (simp add: schema_ok_def)
  from find_filter [OF this, of j "\<lambda>e. e_branch e \<notin> b_id ` {b \<in> set (branches db). P b}"]
  show ?thesis unfolding ep_state_def delete_branches_eq by auto
qed

lemma remove_outcome:
  assumes "schema_ok db" and "removes_rows q" and "exec_tx t [q] db = (r, db')"
  shows "ep_state db' j \<in> {ep_state db j, None}"
proof (cases q)
  case (DeleteProjectRow i)
  have "ep_state (delete_project i db) j = ep_state (delete_branches (\<lambda>b. b_project b = i) db) j"
    by (simp add: delete_project_def Let_def ep_state_def)
  moreover have "db' = delete_project i db" using DeleteProjectRow assms by (simp add: exec_tx_single)
  ultimately show ?thesis using delete_branches_state [OF assms(1)] by simp
next
  case (DeleteBranchRow i)
  with assms have "db' = delete_branches (\<lambda>b. b_id b = i) db" by (simp add: exec_tx_single)
  with delete_branches_state [OF assms(1)] show ?thesis by simp
qed (use assms in simp_all)

interpretation cell: endpoint_cell ep_state schema_ok exec_tx
proof (unfold_locales, goal_cases)
  case (1 d dst t j src r d')
  show ?case
  proof (cases "ep_state d j = Some src")
    case True
    with 1 cas_outcome [OF 1(1,2), of t j src] cas_state [OF True] show ?thesis by auto
  next
    case False
    with 1 cas_outcome [OF 1(1,2), of t j src] show ?thesis by simp
  qed
next
  case (2 d t j a v d')
  then show ?case by (intro running_outcome)
next
  case (3 d t j v d')
  then show ?case by (intro suspended_outcome)
next
  case (4 q t d r d')
  then show ?case by (intro read_outcome)
next
  case (5 qs t d r d' j)
  then show ?case by (rule insert_outcome)
next
  case (6 d q t r d' j)
  then show ?case by (rule remove_outcome)
next
  case (7 t qs d e d')
  then show ?case by (intro exec_tx_error)
next
  case (8 d t qs)
  then show ?case by (rule exec_tx_ok)
qed

section \<open>The store's methods and the lease\<close>

lemma after_lease_sql:
  assumes "may_write i s q"
    and "\<And>e. Q (Inl e) s"
    and "\<And>v. \<not> takes_over i (q, rows_affected v) \<Longrightarrow> \<not> repairs i s (q, rows_affected v) \<Longrightarrow>
      Q (Inr v) (role_after i s (q, rows_affected v))"
  shows "after (lease i) (ESql [q] r) (\<lambda>s'. Q r s') s"
  using assms by (cases r) (simp_all add: after_def)

lemma Transition_lease:
  assumes "may_write i s (UpdateState j src dst)"
    and "\<And>e. Q (Inl e) s"
    and "\<And>n. \<not> takes_over i (UpdateState j src dst, n) \<Longrightarrow>
      Q (Inr (n = 1)) (role_after i s (UpdateState j src dst, n))"
  shows "wp (lease i) (TransitionEndpoint j src dst) Q s"
  unfolding TransitionEndpoint_def wp.simps
  using assms by (intro allI after_lease_sql) simp_all

lemma SetRunning_lease:
  assumes "j = i \<Longrightarrow> s = Owner" and "\<And>e. Q (Inl e) s" and "Q (Inr ()) (if j = i then Idle else s)"
  shows "wp (lease i) (SetEndpointRunning j a) Q s"
  unfolding SetEndpointRunning_def wp.simps
  using assms by (intro allI after_lease_sql) (simp_all add: exec_reply_def)

lemma SetSuspended_lease:
  assumes "\<And>e. Q (Inl e) s" and "Q (Inr ()) (if j = i then Idle else s)"
  shows "wp (lease i) (SetEndpointSuspended j) Q s"
  unfolding SetEndpointSuspended_def wp.simps
  using assms by (intro allI after_lease_sql) (simp_all add: exec_reply_def)

end
