(* ===== verification/Wake.thy ===== *)
theory Wake
  imports Store Compute_K8s
begin

text \<open>
  \<^verbatim>\<open>internal/wake/wake.go\<close>: turning a suspended endpoint into a running compute. The record
  \<open>waker\<close> has the fields of \<^verbatim>\<open>Waker\<close> (the store is the database of the effects); \<open>Wake\<close>,
  \<open>startCompute\<close> and \<open>waitReady\<close> are its methods. The polling loops take fuel, one unit a
  turn; \<open>waitReady_terminates\<close> says how much is enough.
\<close>

record waker =
  wk_runtime :: runtime
  wk_spec :: "string \<Rightarrow> (err + compute_config) prog"
  wk_ready_timeout :: duration
  wk_poll :: duration
  wk_status_url :: "(string \<Rightarrow> string) option"

definition staleAfter :: duration where
  "staleAfter = 2 * minute"

definition pollInterval :: "waker \<Rightarrow> duration" where
  "pollInterval w = (if wk_poll w > 0 then wk_poll w else 500 * millisecond)"

definition readyTimeout :: "waker \<Rightarrow> duration" where
  "readyTimeout w = (if wk_ready_timeout w > 0 then wk_ready_timeout w else 120 * second)"

definition statusURL :: "waker \<Rightarrow> string \<Rightarrow> string" where
  "statusURL w podIP =
     (case wk_status_url w of Some f \<Rightarrow> f podIP | None \<Rightarrow> sprintf ''http://%s:3080/status'' [Str podIP])"

section \<open>Waiting for the compute\<close>

text \<open>The body of \<^verbatim>\<open>/status\<close>; a decoding error is ignored and leaves what was decoded.\<close>

definition decode_status :: "payload \<Rightarrow> string \<times> string" where
  "decode_status p =
     (let kvs = fst (struct_members (pl_value p))
      in (fst (dec_string ''status'' [] kvs), fst (dec_string ''error'' [] kvs)))"

text \<open>One look at the pod and its \<^verbatim>\<open>/status\<close>: a final answer or none yet.\<close>

definition probe :: "waker \<Rightarrow> string \<Rightarrow> (err + string) option prog" where
  "probe w endpointID =
     bind (rt_Status (wk_runtime w) endpointID) (\<lambda>r.
       case r of
         Inl _ \<Rightarrow> Return None
       | Inr st \<Rightarrow>
           if ps_exists st \<and> ps_ip st \<noteq> [] then
             Http \<lparr>rq_method = ''GET'', rq_url = statusURL w (ps_ip st), rq_body = None\<rparr> (\<lambda>resp.
               case resp of
                 Inl _ \<Rightarrow> Return None
               | Inr rs \<Rightarrow>
                   (case decode_status (rs_body rs) of (status, error) \<Rightarrow>
                      if status = ''running'' then Return (Some (Inr (ps_ip st)))
                      else if status = ''failed''
                      then Return (Some (Inl (Errorf ''compute_ctl failed: %s'' [Str error])))
                      else Return None))
           else Return None)"

fun waitReady_loop :: "nat \<Rightarrow> waker \<Rightarrow> string \<Rightarrow> time \<Rightarrow> (err + string) prog" where
  "waitReady_loop 0 w endpointID deadline = Diverge"
| "waitReady_loop (Suc n) w endpointID deadline =
     Now (\<lambda>now.
       if now < deadline then
         bind (probe w endpointID) (\<lambda>verdict.
           case verdict of
             Some r \<Rightarrow> Return r
           | None \<Rightarrow> Sleep (pollInterval w) (\<lambda>c.
               case c of Some e \<Rightarrow> fails e | None \<Rightarrow> waitReady_loop n w endpointID deadline))
       else fails (Errorf ''compute for %s not ready within %s'' [Str endpointID, Dur (readyTimeout w)]))"

definition waitReady :: "nat \<Rightarrow> waker \<Rightarrow> string \<Rightarrow> (err + string) prog" where
  "waitReady n w endpointID =
     Now (\<lambda>now. waitReady_loop n w endpointID (now + readyTimeout w))"

section \<open>Starting\<close>

text \<open>The closure \<^verbatim>\<open>fail\<close>: stop what was started, mark the endpoint failed, ignore both
  outcomes and return the error.\<close>

definition start_fail :: "waker \<Rightarrow> string \<Rightarrow> err \<Rightarrow> (err + string) prog" where
  "start_fail w endpointID e =
     bind (rt_Stop (wk_runtime w) endpointID) (\<lambda>_.
     bind (TransitionEndpoint endpointID ''starting'' ''failed'') (\<lambda>_.
     fails e))"

definition startCompute :: "nat \<Rightarrow> waker \<Rightarrow> string \<Rightarrow> (err + string) prog" where
  "startCompute n w endpointID =
     check (wk_spec w endpointID)
       (\<lambda>e. start_fail w endpointID (Wrapf ''build spec: %w'' [] e))
       (\<lambda>cfg. check (rt_Start (wk_runtime w) endpointID cfg)
          (\<lambda>e. start_fail w endpointID (Wrapf ''start compute: %w'' [] e))
          (\<lambda>_. check (waitReady n w endpointID)
             (\<lambda>e. start_fail w endpointID e)
             (\<lambda>podIP. (let addr = sprintf ''%s:%d'' [Str podIP, Num ComputePort] in
                check (SetEndpointRunning endpointID addr)
                  (\<lambda>e. start_fail w endpointID e)
                  (\<lambda>_. returns addr)))))"

section \<open>Wake\<close>

datatype wake_action = VerifyRunning string | Take_over | Wait | Start_it

text \<open>The decision taken under the row lock.\<close>

definition decide :: "string \<Rightarrow> endpoint \<Rightarrow> (err + wake_action) prog" where
  "decide endpointID ep =
     (if e_state ep = ''running'' then
        returns (VerifyRunning (case e_addr ep of Some a \<Rightarrow> a | None \<Rightarrow> []))
      else if e_state ep = ''starting'' \<or> e_state ep = ''suspending'' then
        Now (\<lambda>now. if since now (e_updated ep) > staleAfter then returns Take_over else returns Wait)
      else if e_state ep = ''suspended'' \<or> e_state ep = ''failed'' then returns Start_it
      else fails (Errorf ''endpoint %s in unknown state %q'' [Str endpointID, Str (e_state ep)]))"

text \<open>\<^verbatim>\<open>for _, from := range froms\<close>: the first compare-and-swap that succeeds names its
  source state.\<close>

fun cas_any :: "string list \<Rightarrow> string \<Rightarrow> string \<Rightarrow> (err + string option) prog" where
  "cas_any [] endpointID to = returns None"
| "cas_any (from # froms) endpointID to =
     check (TransitionEndpoint endpointID from to) fails
       (\<lambda>ok. if ok then returns (Some from) else cas_any froms endpointID to)"

fun Wake_loop :: "nat \<Rightarrow> waker \<Rightarrow> string \<Rightarrow> time \<Rightarrow> (err + string) prog" where
  "Wake_loop 0 w endpointID deadline = Diverge"
| "Wake_loop (Suc n) w endpointID deadline =
     Now (\<lambda>now.
       if now < deadline then
         check (WithEndpointLock endpointID (decide endpointID)) fails (\<lambda>action.
           case action of
             VerifyRunning addr \<Rightarrow>
               check (rt_Status (wk_runtime w) endpointID) fails (\<lambda>st.
                 if ps_exists st \<and> ps_phase st = ''Running'' \<and> addr \<noteq> [] \<and> HasPrefix addr (ps_ip st @ '':'')
                 then returns addr
                 else check (TransitionEndpoint endpointID ''running'' ''suspended'') fails
                        (\<lambda>_. Wake_loop n w endpointID deadline))
           | Start_it \<Rightarrow>
               check (cas_any [''suspended'', ''failed''] endpointID ''starting'') fails (\<lambda>won.
                 case won of
                   Some _ \<Rightarrow> startCompute n w endpointID
                 | None \<Rightarrow> Wake_loop n w endpointID deadline)
           | Take_over \<Rightarrow>
               check (cas_any [''starting'', ''suspending''] endpointID ''starting'') fails (\<lambda>won.
                 case won of
                   Some _ \<Rightarrow> bind (rt_Stop (wk_runtime w) endpointID) (\<lambda>_. startCompute n w endpointID)
                 | None \<Rightarrow> Wake_loop n w endpointID deadline)
           | Wait \<Rightarrow>
               Sleep (pollInterval w) (\<lambda>c.
                 case c of Some e \<Rightarrow> fails e | None \<Rightarrow> Wake_loop n w endpointID deadline))
       else fails (Errorf ''wake %s: timed out'' [Str endpointID]))"

definition Wake :: "nat \<Rightarrow> waker \<Rightarrow> string \<Rightarrow> (err + string) prog" where
  "Wake n w endpointID =
     Now (\<lambda>now. Wake_loop n w endpointID (now + (readyTimeout w + 30 * second)))"

section \<open>The waker and the lease\<close>

text \<open>The role of a program that works on endpoint \<open>j\<close> with respect to endpoint \<open>i\<close>.\<close>

definition owner_of :: "string \<Rightarrow> string \<Rightarrow> role" where
  "owner_of i j = (if j = i then Owner else Idle)"

lemma probe_emits:
  assumes "\<And>id. emits (is_k8s P) (rt_Status (wk_runtime w) id)"
  shows "emits (waits P) (probe w endpointID)"
  unfolding probe_def
proof (rule emits_bindI)
  show "emits (waits P) (rt_Status (wk_runtime w) endpointID)"
    by (rule emits_mono [OF assms]) (auto elim: is_k8s_elim)
qed (auto simp: emits_def split: sum.split prod.split)

lemma waitReady_emits:
  assumes "\<And>id. emits (is_k8s P) (rt_Status (wk_runtime w) id)"
  shows "emits (waits P) (waitReady n w endpointID)"
proof -
  have "emits (waits P) (waitReady_loop n w endpointID d)" for d
  proof (induction n)
    case 0
    show ?case by (simp add: emits_def)
  next
    case (Suc n)
    have "emits (waits P) (bind (probe w endpointID) (\<lambda>verdict.
           case verdict of Some r \<Rightarrow> Return r
           | None \<Rightarrow> Sleep (pollInterval w) (\<lambda>c.
               case c of Some e \<Rightarrow> fails e | None \<Rightarrow> waitReady_loop n w endpointID d)))"
      using Suc by (intro emits_bindI probe_emits assms) (auto simp: emits_def split: option.split)
    then show ?case by (simp add: emits_def)
  qed
  then show ?thesis by (simp add: waitReady_def emits_def)
qed

context compute_runtime
begin

lemma start_fail_lease:
  assumes "wk_runtime w = rt"
  shows "wp (lease i) (start_fail w j e) (\<lambda>_ _. True) (owner_of i j)"
  unfolding start_fail_def assms wp_bind
  by (rule wp_mono [OF Stop_lease]) (auto simp: owner_of_def intro!: Transition_lease)

lemma waitReady_lease:
  assumes "wk_runtime w = rt"
  shows "wp (lease i) (waitReady n w j) (\<lambda>a s'. s' = s) s"
proof (rule emits_wp)
  show "emits (waits (\<lambda>c. pod_created c = None \<and> pod_deleted c = None)) (waitReady n w j)"
    by (rule waitReady_emits, unfold assms, rule emits_mono [OF Status_calls])
      (auto elim!: is_k8s_elim dest: reads_pod)
qed (auto simp only: dest: waits_lease)

lemma startCompute_lease:
  assumes rt: "wk_runtime w = rt" and spec: "emits looks (wk_spec w j)"
  shows "wp (lease i) (startCompute n w j) (\<lambda>_ _. True) (owner_of i j)"
proof -
  note fail = start_fail_lease [OF rt]
  have running: "wp (lease i) (SetEndpointRunning j a)
      (\<lambda>r. case r of Inl e \<Rightarrow> wp (lease i) (start_fail w j e) (\<lambda>_ _. True)
           | Inr x \<Rightarrow> wp (lease i) (returns a) (\<lambda>_ _. True)) (owner_of i j)" for a
    by (rule SetRunning_lease) (simp_all add: fail, simp add: owner_of_def)
  show ?thesis
    unfolding startCompute_def wp_check rt Let_def
    apply (rule wp_mono [OF emits_wp [OF spec looks_lease]], assumption)
    apply (clarsimp simp: fail split: sum.split)
    apply (rule wp_mono [OF Start_lease], simp add: owner_of_def)
    apply (clarsimp simp: fail split: sum.split)
    apply (rule wp_mono [OF waitReady_lease [OF rt]])
    apply (clarsimp simp: fail running simp del: sprintf.simps wp.simps split: sum.split)
    done
qed

text \<open>A waker starts without a role, and every effect it has is permitted to the role it has
  by then: in particular it creates the endpoint's pod only as the owner of its start.\<close>

lemma cas_any_lease:
  assumes "\<And>src. src \<in> set froms \<Longrightarrow>
      src \<in> {''suspended'', ''failed'', ''starting'', ''suspending''}"
  shows "wp (lease i) (cas_any froms j ''starting'')
    (\<lambda>r s. s = (case r of Inr (Some _) \<Rightarrow> owner_of i j | _ \<Rightarrow> Idle)) Idle"
  using assms
proof (induction froms)
  case Nil
  show ?case by simp
next
  case (Cons src froms)
  then have IH: "wp (lease i) (cas_any froms j ''starting'')
    (\<lambda>r s. s = (case r of Inr (Some _) \<Rightarrow> owner_of i j | _ \<Rightarrow> Idle)) Idle" by simp
  show ?case
    unfolding cas_any.simps wp_check
    by (rule Transition_lease) (use Cons.prems [of src] IH in \<open>auto simp: owner_of_def\<close>)
qed

lemma decide_lease: "wp (lease i) (WithEndpointLock j (decide j)) (\<lambda>a s'. s' = s) s"
proof (rule emits_wp)
  show "emits (\<lambda>ev. looks ev \<or> waits (\<lambda>_. False) ev \<or> (\<exists>r. ev = ESql [] r)) (WithEndpointLock j (decide j))"
    by (auto simp: emits_def WithEndpointLock_def decide_def split: sum.split)
qed (auto simp only: lease_simps wrote.simps lease_guar.simps list.case list.pred_inject option.case
      dest: looks_lease [unfolded lease_simps] waits_lease [unfolded lease_simps])

lemma Wake_loop_lease:
  assumes rt: "wk_runtime w = rt" and spec: "emits looks (wk_spec w j)"
  shows "wp (lease i) (Wake_loop n w j d) (\<lambda>_ _. True) Idle"
proof (induction n)
  case 0
  show ?case by simp
next
  case (Suc n)
  note start = startCompute_lease [OF rt spec, of i n]
  have revert: "wp (lease i) (TransitionEndpoint j ''running'' ''suspended'')
      (\<lambda>r. case r of Inl e \<Rightarrow> wp (lease i) (fails e) (\<lambda>_ _. True)
           | Inr _ \<Rightarrow> wp (lease i) (Wake_loop n w j d) (\<lambda>_ _. True)) Idle"
  proof (rule Transition_lease, goal_cases)
    case (3 k)
    have "role_after i Idle (UpdateState j ''running'' ''suspended'', k) = Idle" by simp
    with Suc show ?case by (simp only: sum.case)
  qed simp_all
  have verify: "wp (lease i) (check (rt_Status (wk_runtime w) j) fails (\<lambda>st.
      if ps_exists st \<and> ps_phase st = ''Running'' \<and> addr \<noteq> [] \<and> HasPrefix addr (ps_ip st @ '':'')
      then returns addr
      else check (TransitionEndpoint j ''running'' ''suspended'') fails
             (\<lambda>_. Wake_loop n w j d))) (\<lambda>_ _. True) Idle" for addr
    unfolding wp_check rt
    by (rule wp_mono [OF Status_lease]) (auto simp: revert [simplified] split: sum.split)
  have win: "wp (lease i) (check (cas_any [''suspended'', ''failed''] j ''starting'') fails (\<lambda>won.
      case won of None \<Rightarrow> Wake_loop n w j d | Some _ \<Rightarrow> startCompute n w j)) (\<lambda>_ _. True) Idle"
    unfolding wp_check
    by (rule wp_mono [OF cas_any_lease]) (auto simp: start Suc split: sum.split option.split)
  have stop_start: "wp (lease i) (rt_Stop rt j)
      (\<lambda>_. wp (lease i) (startCompute n w j) (\<lambda>_ _. True)) (owner_of i j)"
    by (rule wp_mono [OF Stop_lease]) (auto simp: start, simp add: owner_of_def)
  have take_over: "wp (lease i) (check (cas_any [''starting'', ''suspending''] j ''starting'') fails (\<lambda>won.
      case won of None \<Rightarrow> Wake_loop n w j d
      | Some _ \<Rightarrow> bind (rt_Stop (wk_runtime w) j) (\<lambda>_. startCompute n w j))) (\<lambda>_ _. True) Idle"
    unfolding wp_check rt
    by (rule wp_mono [OF cas_any_lease]) (auto simp: Suc stop_start split: sum.split option.split)
  have act: "wp (lease i) (case action of
      VerifyRunning addr \<Rightarrow>
        check (rt_Status (wk_runtime w) j) fails (\<lambda>st.
          if ps_exists st \<and> ps_phase st = ''Running'' \<and> addr \<noteq> [] \<and> HasPrefix addr (ps_ip st @ '':'')
          then returns addr
          else check (TransitionEndpoint j ''running'' ''suspended'') fails (\<lambda>_. Wake_loop n w j d))
    | Take_over \<Rightarrow> check (cas_any [''starting'', ''suspending''] j ''starting'') fails (\<lambda>won.
        case won of None \<Rightarrow> Wake_loop n w j d
        | Some _ \<Rightarrow> bind (rt_Stop (wk_runtime w) j) (\<lambda>_. startCompute n w j))
    | Wait \<Rightarrow> Sleep (pollInterval w) (\<lambda>c. case c of None \<Rightarrow> Wake_loop n w j d | Some e \<Rightarrow> fails e)
    | Start_it \<Rightarrow> check (cas_any [''suspended'', ''failed''] j ''starting'') fails (\<lambda>won.
        case won of None \<Rightarrow> Wake_loop n w j d | Some _ \<Rightarrow> startCompute n w j))
    (\<lambda>_ _. True) Idle" for action
    by (cases action) (simp_all only: wake_action.case verify win take_over,
        simp add: after_def Suc split: option.split)
  have body: "wp (lease i) (Now (\<lambda>now. if now < d then
      check (WithEndpointLock j (decide j)) fails (f now) else fails e)) (\<lambda>_ _. True) Idle"
    if "\<And>now action. wp (lease i) (f now action) (\<lambda>_ _. True) Idle" for f e
    using that
    by (auto simp: after_def split: sum.split intro!: wp_mono [OF decide_lease])
  show ?case unfolding Wake_loop.simps by (rule body) (rule act)
qed

lemma Wake_lease:
  "wk_runtime w = rt \<Longrightarrow> emits looks (wk_spec w j) \<Longrightarrow>
     wp (lease i) (Wake n w j) (\<lambda>_ _. True) Idle"
  by (simp add: Wake_def after_def Wake_loop_lease)

end

end
