(* ===== verification/Rfc3339.thy ===== *)
theory Rfc3339
  imports Prelude
begin

text \<open>
  \<^verbatim>\<open>time.Parse(time.RFC3339, s)\<close> as the standard library's RFC 3339 parser does it: a date, a
  time, an optional fraction of a second and a zone. The general layout parser, which the
  library tries on what this one refuses, accepts a few more spellings (a one-digit hour,
  a comma before the fraction); they are errors here.
\<close>

definition leap :: "int \<Rightarrow> bool" where
  "leap y \<longleftrightarrow> y mod 4 = 0 \<and> (y mod 100 \<noteq> 0 \<or> y mod 400 = 0)"

definition daysIn :: "int \<Rightarrow> int \<Rightarrow> int" where
  "daysIn m y =
     (if m = 2 then (if leap y then 29 else 28)
      else if m = 4 \<or> m = 6 \<or> m = 9 \<or> m = 11 then 30 else 31)"

text \<open>Days since 1970-01-01 in the proleptic Gregorian calendar.\<close>

definition unix_days :: "int \<Rightarrow> int \<Rightarrow> int \<Rightarrow> int" where
  "unix_days y m d =
     (let y' = (if m \<le> 2 then y - 1 else y);
          era = y' div 400;
          yoe = y' - era * 400;
          doy = (153 * ((m + 9) mod 12) + 2) div 5 + d - 1;
          doe = yoe * 365 + yoe div 4 - yoe div 100 + doy
      in era * 146097 + doe - 719468)"

definition digit_value :: "char \<Rightarrow> int option" where
  "digit_value c =
     (let n = (of_char c :: int) in if 48 \<le> n \<and> n \<le> 57 then Some (n - 48) else None)"

fun decimal :: "int \<Rightarrow> string \<Rightarrow> int option" where
  "decimal acc [] = Some acc"
| "decimal acc (c # s) =
     (case digit_value c of None \<Rightarrow> None | Some d \<Rightarrow> decimal (acc * 10 + d) s)"

definition within :: "int \<Rightarrow> int \<Rightarrow> string \<Rightarrow> int option" where
  "within lo hi s =
     (case decimal 0 s of None \<Rightarrow> None | Some x \<Rightarrow> if lo \<le> x \<and> x \<le> hi then Some x else None)"

text \<open>The bytes \<open>i .. j - 1\<close> of a string, and whether byte \<open>i\<close> is \<open>c\<close>.\<close>

definition slice :: "nat \<Rightarrow> nat \<Rightarrow> string \<Rightarrow> string" where
  "slice i j s = take (j - i) (drop i s)"

definition at :: "string \<Rightarrow> nat \<Rightarrow> char \<Rightarrow> bool" where
  "at s i c \<longleftrightarrow> slice i (i + 1) s = [c]"

text \<open>The fraction: digits beyond the ninth are dropped.\<close>

definition nanoseconds :: "string \<Rightarrow> int" where
  "nanoseconds ds =
     (let kept = take 9 ds in
      case decimal 0 kept of None \<Rightarrow> 0 | Some x \<Rightarrow> x * 10 ^ (9 - length kept))"

definition split_fraction :: "string \<Rightarrow> int \<times> string" where
  "split_fraction s =
     (let ds = takeWhile (\<lambda>c. digit_value c \<noteq> None) (drop 1 s) in
      if at s 0 CHR ''.'' \<and> ds \<noteq> [] then (nanoseconds ds, drop (1 + length ds) s) else (0, s))"

definition zone_offset :: "string \<Rightarrow> int option" where
  "zone_offset s =
     (if s = ''Z'' then Some 0
      else if length s \<noteq> 6 then None
      else (case (within 0 23 (slice 1 3 s), within 0 59 (slice 4 6 s)) of
              (Some h, Some m) \<Rightarrow>
                if at s 3 CHR '':'' \<and> at s 0 CHR ''+'' then Some ((h * 60 + m) * 60)
                else if at s 3 CHR '':'' \<and> at s 0 CHR ''-'' then Some (- ((h * 60 + m) * 60))
                else None
            | _ \<Rightarrow> None))"

definition parse_date :: "string \<Rightarrow> int option" where
  "parse_date s =
     (case (within 0 9999 (slice 0 4 s), within 1 12 (slice 5 7 s)) of
        (Some y, Some m) \<Rightarrow>
          (case within 1 (daysIn m y) (slice 8 10 s) of
             Some d \<Rightarrow> if at s 4 CHR ''-'' \<and> at s 7 CHR ''-'' then Some (unix_days y m d) else None
           | None \<Rightarrow> None)
      | _ \<Rightarrow> None)"

definition parse_clock :: "string \<Rightarrow> int option" where
  "parse_clock s =
     (case (within 0 23 (slice 11 13 s), within 0 59 (slice 14 16 s), within 0 59 (slice 17 19 s)) of
        (Some h, Some mi, Some se) \<Rightarrow>
          if at s 10 CHR ''T'' \<and> at s 13 CHR '':'' \<and> at s 16 CHR '':''
          then Some (h * 3600 + mi * 60 + se) else None
      | _ \<Rightarrow> None)"

definition parse_rfc3339 :: "string \<Rightarrow> err + time" where
  "parse_rfc3339 s =
     (if length s < 19 then Inl (Errorf ''parsing time %q'' [Str s])
      else (case (parse_date s, parse_clock s, split_fraction (drop 19 s)) of
              (Some days, Some secs, (nanos, zone)) \<Rightarrow>
                (case zone_offset zone of
                   None \<Rightarrow> Inl (Errorf ''parsing time %q'' [Str s])
                 | Some off \<Rightarrow> Inr ((days * 86400 + secs - off) * second + nanos))
            | _ \<Rightarrow> Inl (Errorf ''parsing time %q'' [Str s])))"

lemmas rfc3339_defs =
  parse_rfc3339_def parse_date_def parse_clock_def split_fraction_def zone_offset_def
  nanoseconds_def at_def slice_def within_def digit_value_def unix_days_def daysIn_def leap_def

text \<open>The first instant of the year 1 is Go's zero time; the epoch is 0.\<close>

lemma parse_zero_time: "parse_rfc3339 ''0001-01-01T00:00:00Z'' = Inr time_zero"
  by code_simp

lemma parse_epoch: "parse_rfc3339 ''1970-01-01T01:00:00.5+01:00'' = Inr 500000000"
  by code_simp

lemma parse_leap_day: "parse_rfc3339 ''2024-02-29T12:00:00Z'' = Inr 1709208000000000000"
  by code_simp

lemma parse_no_leap_day: "isl (parse_rfc3339 ''2023-02-29T12:00:00Z'')"
  by code_simp

end
