(* ===== verification/Suspend.thy ===== *)
theory Suspend
  imports Store Compute_K8s Rfc3339
begin

text \<open>
  \<^verbatim>\<open>internal/suspend/suspend.go\<close>: the sweep over running endpoints that suspends the idle
  ones and repairs a running endpoint whose pod is gone.
\<close>

record suspender =
  su_runtime :: runtime
  su_status_url :: "(string \<Rightarrow> string) option"
  su_terminate_url :: "(string \<Rightarrow> string) option"

definition ipOf :: "string \<Rightarrow> string" where
  "ipOf addr = (case before_last addr CHR '':'' of Some ip \<Rightarrow> ip | None \<Rightarrow> addr)"

definition su_statusURL :: "suspender \<Rightarrow> string \<Rightarrow> string" where
  "su_statusURL s addr =
     (case su_status_url s of Some f \<Rightarrow> f addr
      | None \<Rightarrow> sprintf ''http://%s:3080/status'' [Str (ipOf addr)])"

definition su_terminateURL :: "suspender \<Rightarrow> string \<Rightarrow> string" where
  "su_terminateURL s addr =
     (case su_terminate_url s of Some f \<Rightarrow> f addr
      | None \<Rightarrow> sprintf ''http://%s:3080/terminate'' [Str (ipOf addr)])"

definition last_active_of :: "payload \<Rightarrow> err + time" where
  "last_active_of p =
     (case struct_members (pl_value p) of (kvs, bad) \<Rightarrow>
        (let la = dec_string_ptr ''last_active'' None kvs in
         if bad \<or> snd (dec_string ''status'' [] kvs) \<or> snd la then Inl (ExtErr ''json: cannot unmarshal'')
         else (case fst la of
                 None \<Rightarrow> Inr time_zero
               | Some str \<Rightarrow> if str = [] then Inr time_zero else parse_rfc3339 str)))"

definition fetchLastActive :: "suspender \<Rightarrow> string \<Rightarrow> (err + time) prog" where
  "fetchLastActive s addr =
     Http \<lparr>rq_method = ''GET'', rq_url = su_statusURL s addr, rq_body = None\<rparr> (\<lambda>resp.
       case resp of
         Inl e \<Rightarrow> fails e
       | Inr rs \<Rightarrow>
           if rs_code rs \<noteq> 200
           then fails (Errorf ''compute_ctl /status: unexpected status %d'' [Num (rs_code rs)])
           else Return (last_active_of (rs_body rs)))"

definition terminate :: "suspender \<Rightarrow> string \<Rightarrow> (err + unit) prog" where
  "terminate s addr =
     Http \<lparr>rq_method = ''POST'', rq_url = su_terminateURL s addr @ ''?mode=fast'', rq_body = None\<rparr> (\<lambda>resp.
       case resp of
         Inl e \<Rightarrow> fails e
       | Inr rs \<Rightarrow>
           if rs_code rs \<ge> 300 then fails (Errorf ''terminate: status %d'' [Num (rs_code rs)])
           else returns ())"

text \<open>The part of \<^verbatim>\<open>sweepOne\<close> from the moment the last activity is known.\<close>

definition suspend_if_idle :: "suspender \<Rightarrow> endpoint \<Rightarrow> string \<Rightarrow> time \<Rightarrow> (err + unit) prog" where
  "suspend_if_idle s ep addr lastActive =
     Now (\<lambda>now.
       if since now lastActive < seconds (e_suspend_after ep) then returns ()
       else
         check (TransitionEndpoint (e_id ep) ''running'' ''suspending'') fails (\<lambda>ok.
           if \<not> ok then returns ()
           else bind (terminate s addr) (\<lambda>_.
             check (rt_Stop (su_runtime s) (e_id ep)) fails (\<lambda>_.
               SetEndpointSuspended (e_id ep)))))"

definition sweepOne :: "suspender \<Rightarrow> endpoint \<Rightarrow> (err + unit) prog" where
  "sweepOne s ep =
     check (rt_Status (su_runtime s) (e_id ep)) fails (\<lambda>st.
       if \<not> ps_exists st then SetEndpointSuspended (e_id ep)
       else (case e_addr ep of
         None \<Rightarrow> fails (Errorf ''running endpoint %s has no compute_addr'' [Str (e_id ep)])
       | Some addr \<Rightarrow>
           check (fetchLastActive s addr)
             (\<lambda>e. fails (Wrapf ''fetch last_active: %w'' [] e))
             (\<lambda>lastActive.
                if IsZero lastActive then
                  (case e_last_started ep of
                     None \<Rightarrow> returns ()
                   | Some started \<Rightarrow> suspend_if_idle s ep addr started)
                else suspend_if_idle s ep addr lastActive)))"

fun sweep_all :: "suspender \<Rightarrow> endpoint list \<Rightarrow> (err + unit) prog" where
  "sweep_all s [] = returns ()"
| "sweep_all s (ep # eps) = bind (sweepOne s ep) (\<lambda>_. sweep_all s eps)"

definition Sweep :: "suspender \<Rightarrow> (err + unit) prog" where
  "Sweep s = check (ListEndpointsByState ''running'') fails (sweep_all s)"

section \<open>Addresses\<close>

text \<open>The address \<^verbatim>\<open>wake\<close> stores for a pod leads back to the pod's IP, an IPv6 one included.\<close>

lemma ipOf_port: "CHR '':'' \<notin> set port \<Longrightarrow> ipOf (ip @ CHR '':'' # port) = ip"
  by (simp add: ipOf_def before_last_append)

section \<open>The suspender and the lease\<close>

lemma terminate_emits: "emits (waits (\<lambda>_. False)) (terminate s addr)"
  by (auto simp: emits_def terminate_def split: sum.split)

lemma fetch_emits: "emits (waits (\<lambda>_. False)) (fetchLastActive s addr)"
  by (auto simp: emits_def fetchLastActive_def split: sum.split)

lemma waits_only_lease:
  "emits (waits (\<lambda>_. False)) p \<Longrightarrow> wp (lease i) p (\<lambda>a s'. s' = s) s"
  by (erule emits_wp, erule waits_lease) simp

context compute_runtime
begin

lemma suspend_if_idle_lease:
  assumes rt: "su_runtime su = rt" and "s \<noteq> Owner"
  shows "wp (lease i) (suspend_if_idle su ep addr t) (\<lambda>_ s'. s' \<noteq> Owner) s"
proof -
  have suspended: "wp (lease i) (SetEndpointSuspended j) (\<lambda>_ s'. s' \<noteq> Owner) s'"
    if "s' \<noteq> Owner" for s' j
    using that by (intro SetSuspended_lease) simp_all
  have finish: "wp (lease i) (bind (terminate su addr) (\<lambda>_.
      check (rt_Stop rt (e_id ep)) fails (\<lambda>_. SetEndpointSuspended (e_id ep)))) (\<lambda>_ s'. s' \<noteq> Owner) s'"
    if "s' \<noteq> Owner" "e_id ep = i \<Longrightarrow> s' \<noteq> Idle" for s'
    unfolding wp_bind wp_check
  proof (rule wp_mono [OF waits_only_lease [OF terminate_emits]], clarify)
    show "wp (lease i) (rt_Stop rt (e_id ep))
      (\<lambda>r. case r of Inl e \<Rightarrow> wp (lease i) (fails e) (\<lambda>_ s'. s' \<noteq> Owner)
           | Inr _ \<Rightarrow> wp (lease i) (SetEndpointSuspended (e_id ep)) (\<lambda>_ s'. s' \<noteq> Owner)) s'"
      by (rule wp_mono [OF Stop_lease]) (use that suspended in \<open>auto split: sum.split\<close>)
  qed
  have "wp (lease i) (check (TransitionEndpoint (e_id ep) ''running'' ''suspending'') fails (\<lambda>ok.
      if \<not> ok then returns () else bind (terminate su addr) (\<lambda>_.
          check (rt_Stop rt (e_id ep)) fails (\<lambda>_. SetEndpointSuspended (e_id ep)))))
      (\<lambda>_ s'. s' \<noteq> Owner) s"
    unfolding wp_check
  proof (rule Transition_lease, goal_cases)
    case (3 n)
    have roles: "n = 1 \<Longrightarrow> role_after i s (UpdateState (e_id ep) ''running'' ''suspending'', n) =
        (if e_id ep = i then Suspender else s)"
      "n \<noteq> 1 \<Longrightarrow> role_after i s (UpdateState (e_id ep) ''running'' ''suspending'', n) = s" by simp_all
    show ?case
    proof (cases "n = 1")
      case True
      with roles(1) \<open>s \<noteq> Owner\<close> show ?thesis
        using finish [of "if e_id ep = i then Suspender else s"] by (simp only: sum.case) simp
    next
      case False
      with roles(2) \<open>s \<noteq> Owner\<close> show ?thesis by (simp only: sum.case) simp
    qed
  qed (simp_all add: \<open>s \<noteq> Owner\<close>)
  then show ?thesis
    using \<open>s \<noteq> Owner\<close> unfolding suspend_if_idle_def rt
    by (auto simp: after_def simp del: wp_check)
qed

lemma sweepOne_lease:
  assumes rt: "su_runtime su = rt" and "s \<noteq> Owner"
  shows "wp (lease i) (sweepOne su ep) (\<lambda>_ s'. s' \<noteq> Owner) s"
proof -
  note idle = suspend_if_idle_lease [OF rt \<open>s \<noteq> Owner\<close>, of i ep]
  have repair: "wp (lease i) (SetEndpointSuspended (e_id ep)) (\<lambda>_ s'. s' \<noteq> Owner) s"
    using \<open>s \<noteq> Owner\<close> by (intro SetSuspended_lease) simp_all
  have fetch: "wp (lease i) (check (fetchLastActive su addr)
      (\<lambda>e. fails (Wrapf ''fetch last_active: %w'' [] e))
      (\<lambda>t. if IsZero t then
          (case e_last_started ep of None \<Rightarrow> returns () | Some st \<Rightarrow> suspend_if_idle su ep addr st)
        else suspend_if_idle su ep addr t)) (\<lambda>_ s'. s' \<noteq> Owner) s" for addr
    unfolding wp_check
    by (rule wp_mono [OF waits_only_lease [OF fetch_emits]])
      (use idle \<open>s \<noteq> Owner\<close> in \<open>auto split: sum.split option.split\<close>)
  show ?thesis
    unfolding sweepOne_def wp_check rt
  proof (rule wp_mono [OF Status_lease], clarify)
    fix r :: "err + pod_status"
    show "(case r of Inl e \<Rightarrow> wp (lease i) (fails e) (\<lambda>_ s'. s' \<noteq> Owner)
      | Inr st \<Rightarrow> wp (lease i) (if \<not> ps_exists st then SetEndpointSuspended (e_id ep)
          else (case e_addr ep of
              None \<Rightarrow> fails (Errorf ''running endpoint %s has no compute_addr'' [Str (e_id ep)])
            | Some addr \<Rightarrow> check (fetchLastActive su addr)
                (\<lambda>e. fails (Wrapf ''fetch last_active: %w'' [] e))
                (\<lambda>t. if IsZero t then
                    (case e_last_started ep of None \<Rightarrow> returns () | Some st \<Rightarrow> suspend_if_idle su ep addr st)
                  else suspend_if_idle su ep addr t))) (\<lambda>_ s'. s' \<noteq> Owner)) s"
      using \<open>s \<noteq> Owner\<close> repair fetch
      by (cases "e_addr ep") (auto simp del: wp_check split: sum.split)
  qed
qed

lemma Sweep_lease:
  assumes rt: "su_runtime su = rt" and "s \<noteq> Owner"
  shows "wp (lease i) (Sweep su) (\<lambda>_ s'. s' \<noteq> Owner) s"
proof -
  have all: "s \<noteq> Owner \<Longrightarrow> wp (lease i) (sweep_all su eps) (\<lambda>_ s'. s' \<noteq> Owner) s" for eps s
  proof (induction eps arbitrary: s)
    case (Cons ep eps)
    show ?case
      unfolding sweep_all.simps wp_bind
      by (rule wp_mono [OF sweepOne_lease [OF rt Cons.prems]]) (rule Cons.IH)
  qed simp
  have "emits looks (ListEndpointsByState st)" for st
    by (simp add: emits_def ListEndpointsByState_def)
  from emits_wp [OF this looks_lease] show ?thesis
    unfolding Sweep_def wp_check by (rule wp_mono) (auto simp: all \<open>s \<noteq> Owner\<close> split: sum.split)
qed

end

end
