(* ===== verification/Concurrency.thy ===== *)
theory Concurrency
  imports Wake Suspend
begin

text \<open>
  The control plane's goroutines over one state database: any number of programs, each
  making one effect at a time. A transaction is atomic (or fails and changes nothing);
  every other reply is arbitrary, and so is the order. For a system whose programs keep to the
  lease of every endpoint, the start of an endpoint has one owner at a time, as long as no waker
  takes a stale start over and no sweep or debugging stop repairs an endpoint it did not suspend. The last section
  is an executable scheduler.
\<close>

section \<open>The interleaving\<close>

record system =
  sys_db :: database
  sys_progs :: "nat \<Rightarrow> unit prog"

inductive sys_step :: "system \<Rightarrow> nat \<times> event \<Rightarrow> system \<Rightarrow> bool" where
  transaction:
    "prog_step (sys_progs S k) (ESql qs r) p \<Longrightarrow> exec_tx t qs (sys_db S) = (r, db') \<Longrightarrow>
     sys_step S (k, ESql qs r) \<lparr>sys_db = db', sys_progs = (sys_progs S)(k := p)\<rparr>"
| fault:
    "prog_step (sys_progs S k) (ESql qs (Inl e)) p \<Longrightarrow>
     sys_step S (k, ESql qs (Inl e)) \<lparr>sys_db = sys_db S, sys_progs = (sys_progs S)(k := p)\<rparr>"
| outside:
    "prog_step (sys_progs S k) ev p \<Longrightarrow> \<not> is_sql ev \<Longrightarrow>
     sys_step S (k, ev) \<lparr>sys_db = sys_db S, sys_progs = (sys_progs S)(k := p)\<rparr>"

inductive sys_steps :: "system \<Rightarrow> (nat \<times> event) list \<Rightarrow> system \<Rightarrow> bool" where
  none: "sys_steps S [] S"
| more: "sys_step S l S' \<Longrightarrow> sys_steps S' tr S'' \<Longrightarrow> sys_steps S (l # tr) S''"

inductive_cases sys_steps_Cons: "sys_steps S (l # tr) S'"

text \<open>The roles for endpoint \<open>i\<close> after a trace, and the traces without a takeover of \<open>i\<close>,
  without a repair of \<open>i\<close> by a program that is not its suspender, and without a new endpoint that
  gets the identifier \<open>i\<close> of a deleted one some program still works on.\<close>

definition track :: "string \<Rightarrow> (nat \<Rightarrow> role) \<Rightarrow> nat \<times> event \<Rightarrow> nat \<Rightarrow> role" where
  "track i \<rho> l = \<rho>(fst l := mon_next (lease i) (\<rho> (fst l)) (snd l))"

fun roles_from :: "string \<Rightarrow> (nat \<Rightarrow> role) \<Rightarrow> (nat \<times> event) list \<Rightarrow> nat \<Rightarrow> role" where
  "roles_from i \<rho> [] = \<rho>"
| "roles_from i \<rho> (l # tr) = roles_from i (track i \<rho> l) tr"

definition roles :: "string \<Rightarrow> (nat \<times> event) list \<Rightarrow> nat \<Rightarrow> role" where
  "roles i tr = roles_from i (\<lambda>_. Idle) tr"

fun undisturbed_from :: "string \<Rightarrow> (nat \<Rightarrow> role) \<Rightarrow> (nat \<times> event) list \<Rightarrow> bool" where
  "undisturbed_from i \<rho> [] = True"
| "undisturbed_from i \<rho> (l # tr) =
     (mon_rely (lease i) (\<rho> (fst l)) (snd l) \<and> (creates_row i (snd l) \<longrightarrow> (\<forall>k. \<rho> k = Idle)) \<and>
      undisturbed_from i (track i \<rho> l) tr)"

definition undisturbed :: "string \<Rightarrow> (nat \<times> event) list \<Rightarrow> bool" where
  "undisturbed i tr = undisturbed_from i (\<lambda>_. Idle) tr"

text \<open>A task of the system; its answer goes to a client that is not part of it.\<close>

definition spawn :: "'a prog \<Rightarrow> unit prog" where
  "spawn p = bind p (\<lambda>_. Return ())"

section \<open>One owner\<close>

text \<open>A system whose programs keep to the lease of every endpoint; \<open>adm\<close> says which of them are
  an administrator's.\<close>

definition disciplined :: "(nat \<Rightarrow> bool) \<Rightarrow> system \<Rightarrow> bool" where
  "disciplined adm S \<longleftrightarrow>
     schema_ok (sys_db S) \<and> (\<forall>i k. wp (lease_as (adm k) i) (sys_progs S k) (\<lambda>_ _. True) Idle)"

definition fleet_inv :: "(nat \<Rightarrow> bool) \<Rightarrow> string \<Rightarrow> system \<Rightarrow> (nat \<Rightarrow> role) \<Rightarrow> bool" where
  "fleet_inv adm i S \<rho> \<longleftrightarrow>
     schema_ok (sys_db S) \<and> lease_inv (ep_state (sys_db S) i) \<rho> \<and>
     (\<forall>k. wp (lease_as (adm k) i) (sys_progs S k) (\<lambda>_ _. True) (\<rho> k))"

lemma fleet_init: "disciplined adm S \<Longrightarrow> fleet_inv adm i S (\<lambda>_. Idle)"
  by (simp add: disciplined_def fleet_inv_def lease_inv_idle)

lemma fleet_step:
  assumes step: "sys_step S (k, ev) S'" and inv: "fleet_inv adm i S \<rho>"
    and rely: "mon_rely (lease i) (\<rho> k) ev" and unused: "creates_row i ev \<longrightarrow> (\<forall>u. \<rho> u = Idle)"
  shows "mon_guar (lease_as (adm k) i) (\<rho> k) ev \<and> fleet_inv adm i S' (track i \<rho> (k, ev))"
proof -
  let ?M = "lease_as (adm k) i"
  have ok: "schema_ok (sys_db S)" and li: "lease_inv (ep_state (sys_db S) i) \<rho>"
    and all: "\<And>k. wp (lease_as (adm k) i) (sys_progs S k) (\<lambda>_ _. True) (\<rho> k)"
    using inv by (auto simp: fleet_inv_def)
  have rely': "mon_rely ?M (\<rho> k) ev" using rely by simp
  have next_eq: "mon_next (lease i) (\<rho> k) ev = mon_next ?M (\<rho> k) ev" by simp
  have own: "mon_guar ?M (\<rho> k) ev \<and> wp ?M p (\<lambda>_ _. True) (mon_next ?M (\<rho> k) ev)"
    if "prog_step (sys_progs S k) ev p" for p
    using wp_step [OF that all rely'] .
  from step show ?thesis
  proof (cases rule: sys_step.cases)
    case (transaction qs r p t db')
    then have ev: "ev = ESql qs r" and g: "prog_step (sys_progs S k) ev p" by auto
    have "lease_inv (ep_state db' i) (\<rho>(k := mon_next ?M (\<rho> k) (ESql qs r)))"
      by (rule cell.step_keeps_lease [OF li ok transaction(4)])
        (use own [OF g] rely' unused in \<open>simp_all only: ev simp_thms\<close>)
    moreover have "schema_ok db'" using cell.keeps [OF ok, of t qs] transaction(4) by simp
    ultimately show ?thesis
      using own [OF g] all transaction(2) unfolding fleet_inv_def track_def fst_conv snd_conv next_eq
      unfolding ev by simp
  next
    case (fault qs e p)
    then have ev: "ev = ESql qs (Inl e)" and g: "prog_step (sys_progs S k) ev p" by auto
    have "mon_next ?M (\<rho> k) ev = \<rho> k" unfolding ev by (cases qs) simp_all
    with own [OF g] ok li all fault(2) show ?thesis
      unfolding fleet_inv_def track_def fst_conv snd_conv next_eq by (simp del: lease_simps)
  next
    case (outside p)
    then have "wrote ev = None" by (cases ev) simp_all
    then have "mon_next ?M (\<rho> k) ev = \<rho> k" by simp
    with own [of p] ok li all outside show ?thesis
      unfolding fleet_inv_def track_def fst_conv snd_conv next_eq by (simp del: lease_simps)
  qed
qed

lemma fleet_steps:
  "sys_steps S tr S' \<Longrightarrow> fleet_inv adm i S \<rho> \<Longrightarrow> undisturbed_from i \<rho> tr \<Longrightarrow>
     fleet_inv adm i S' (roles_from i \<rho> tr)"
proof (induction arbitrary: \<rho> rule: sys_steps.induct)
  case (more S l S' tr S'')
  obtain k ev where l: "l = (k, ev)" by (cases l)
  with more.prems have "fleet_inv adm i S' (track i \<rho> l)"
    using fleet_step [of S k ev S' adm i \<rho>] more.hyps(1) by (simp del: lease_simps)
  with more.IH [of "track i \<rho> l"] more.prems(2) show ?case by (simp del: lease_simps)
qed simp

lemma sys_steps_split:
  "sys_steps S (tr1 @ tr2) S' \<Longrightarrow> \<exists>M. sys_steps S tr1 M \<and> sys_steps M tr2 S'"
proof (induction tr1 arbitrary: S)
  case Nil
  then show ?case by (auto intro: sys_steps.none)
next
  case (Cons l tr1)
  then obtain S1 where "sys_step S l S1" "sys_steps S1 (tr1 @ tr2) S'"
    by (auto elim: sys_steps_Cons)
  with Cons.IH [of S1] show ?case by (auto intro: sys_steps.more)
qed

lemma undisturbed_append:
  "undisturbed_from i \<rho> (tr1 @ tr2) \<longleftrightarrow>
     undisturbed_from i \<rho> tr1 \<and> undisturbed_from i (roles_from i \<rho> tr1) tr2"
  by (induction tr1 arbitrary: \<rho>) (auto simp del: lease_simps)

text \<open>The situation at any point of an undisturbed trace: the roles agree with the database, and
  a call that follows is permitted to the role of the program that makes it.\<close>

lemma fleet_reaches:
  "disciplined adm S0 \<Longrightarrow> sys_steps S0 tr S \<Longrightarrow> undisturbed i tr \<Longrightarrow> fleet_inv adm i S (roles i tr)"
  using fleet_steps [OF _ fleet_init] by (simp add: roles_def undisturbed_def)

lemma fleet_at_call:
  assumes "disciplined adm S0" and "sys_steps S0 (tr1 @ (k, EK8s c r) # tr2) S'" and "undisturbed i tr1"
  obtains S where "fleet_inv adm i S (roles i tr1)" and "lease_guar (adm k) i (roles i tr1 k) (EK8s c r)"
proof -
  from sys_steps_split [OF assms(2)] obtain M M' where M: "sys_steps S0 tr1 M" "sys_step M (k, EK8s c r) M'"
    by (auto elim: sys_steps_Cons)
  have inv: "fleet_inv adm i M (roles i tr1)" by (rule fleet_reaches [OF assms(1) M(1) assms(3)])
  from fleet_step [OF M(2) this] have "lease_guar (adm k) i (roles i tr1 k) (EK8s c r)" by simp
  with inv show thesis by (rule that)
qed

lemma fleet_inv_exclusive:
  "fleet_inv adm i S \<rho> \<Longrightarrow> \<rho> k \<noteq> Idle \<Longrightarrow> \<forall>u. u \<noteq> k \<longrightarrow> \<rho> u = Idle"
  using lease_inv_exclusive by (fastforce simp: fleet_inv_def)

text \<open>How a role is won and lost.\<close>

definition wins :: "string \<Rightarrow> event \<Rightarrow> bool" where
  "wins i ev \<longleftrightarrow> (\<exists>src. wrote ev = Some (UpdateState i src ''starting'', 1))"

definition ends :: "string \<Rightarrow> event \<Rightarrow> bool" where
  "ends i ev \<longleftrightarrow>
     (\<exists>a n. wrote ev = Some (UpdateRunning i a, n)) \<or>
     (\<exists>src dst. dst \<noteq> ''starting'' \<and> wrote ev = Some (UpdateState i src dst, 1))"

lemma roles_from_append: "roles_from i \<rho> (tr1 @ tr2) = roles_from i (roles_from i \<rho> tr1) tr2"
  by (induction tr1 arbitrary: \<rho>) auto

lemma role_after_wins:
  "role_after i s (q, n) = Owner \<Longrightarrow> s \<noteq> Owner \<Longrightarrow> \<exists>src. q = UpdateState i src ''starting'' \<and> n = 1"
  by (cases q) (auto split: if_splits)

lemma role_after_ends:
  assumes "role_after i Owner (q, n) \<noteq> Owner" and "\<not> repairs i Owner (q, n)"
  shows "(\<exists>a. q = UpdateRunning i a) \<or> (\<exists>src dst. q = UpdateState i src dst \<and> dst \<noteq> ''starting'' \<and> n = 1)"
  using assms by (cases q) (auto split: if_splits)

lemma track_other [simp]: "fst l \<noteq> k \<Longrightarrow> track i \<rho> l k = \<rho> k"
  by (simp add: track_def del: lease_simps)

lemma Owner_won:
  "roles_from i \<rho> tr k = Owner \<Longrightarrow> \<rho> k = Owner \<or> (\<exists>ev. (k, ev) \<in> set tr \<and> wins i ev)"
proof (induction tr arbitrary: \<rho>)
  case (Cons l tr)
  have "track i \<rho> l k = Owner \<Longrightarrow> \<rho> k = Owner \<or> (fst l = k \<and> wins i (snd l))"
    by (cases "fst l = k") (auto simp: track_def wins_def split: option.splits dest!: role_after_wins)
  with Cons.IH [of "track i \<rho> l"] Cons.prems show ?case
    by (cases l) (auto simp del: lease_simps)
qed simp

lemma Owner_ended:
  "undisturbed_from i \<rho> tr \<Longrightarrow> \<rho> k = Owner \<Longrightarrow> roles_from i \<rho> tr k \<noteq> Owner \<Longrightarrow>
     \<exists>ev. (k, ev) \<in> set tr \<and> ends i ev"
proof (induction tr arbitrary: \<rho>)
  case (Cons l tr)
  have "track i \<rho> l k \<noteq> Owner \<Longrightarrow> fst l = k \<and> ends i (snd l)"
    using Cons.prems(1,2)
    by (cases "fst l = k") (auto simp: track_def ends_def split: option.splits dest!: role_after_ends)
  with Cons.IH [of "track i \<rho> l"] Cons.prems show ?case
    by (cases l) (auto simp del: lease_simps)
qed simp

section \<open>Playing a schedule\<close>

text \<open>An executable scheduler: whose turn it is and the reply it gets.\<close>

datatype choice =
    RNow time
  | RSleep "err option"
  | RRand "err + byte list"
  | RHttp "err + http_response"
  | RK8s "k8s_error + k8s_object"
  | Commit time
  | Abort err

fun answer :: "choice \<Rightarrow> 'a prog \<Rightarrow> database \<Rightarrow> (event \<times> 'a prog \<times> database) option" where
  "answer c (Now f) db = (case c of RNow r \<Rightarrow> Some (ENow r, f r, db) | _ \<Rightarrow> None)"
| "answer c (Sleep d f) db = (case c of RSleep r \<Rightarrow> Some (ESleep d r, f r, db) | _ \<Rightarrow> None)"
| "answer c (Rand n f) db = (case c of RRand r \<Rightarrow> Some (ERand n r, f r, db) | _ \<Rightarrow> None)"
| "answer c (Http q f) db = (case c of RHttp r \<Rightarrow> Some (EHttp q r, f r, db) | _ \<Rightarrow> None)"
| "answer c (K8s q f) db = (case c of RK8s r \<Rightarrow> Some (EK8s q r, f r, db) | _ \<Rightarrow> None)"
| "answer c (Sql qs f) db =
     (case c of Commit t \<Rightarrow> (case exec_tx t qs db of (r, db') \<Rightarrow> Some (ESql qs r, f r, db'))
      | Abort e \<Rightarrow> Some (ESql qs (Inl e), f (Inl e), db) | _ \<Rightarrow> None)"
| "answer c _ db = None"

fun play :: "(nat \<times> choice) list \<Rightarrow> system \<Rightarrow> ((nat \<times> event) list \<times> system) option" where
  "play [] S = Some ([], S)"
| "play ((k, c) # sch) S =
     (case answer c (sys_progs S k) (sys_db S) of
        None \<Rightarrow> None
      | Some (ev, p, db) \<Rightarrow>
          (case play sch \<lparr>sys_db = db, sys_progs = (sys_progs S)(k := p)\<rparr> of
             None \<Rightarrow> None
           | Some (tr, S') \<Rightarrow> Some ((k, ev) # tr, S')))"

lemma answer_step:
  assumes "answer c (sys_progs S k) (sys_db S) = Some (ev, p, db)"
  shows "sys_step S (k, ev) \<lparr>sys_db = db, sys_progs = (sys_progs S)(k := p)\<rparr>"
proof (cases "sys_progs S k")
  case (Sql qs f)
  then have P: "prog_step (sys_progs S k) (ESql qs r) (f r)" for r by simp
  with assms Sql show ?thesis
    by (auto split: choice.splits prod.splits intro: sys_step.transaction sys_step.fault)
qed (use assms sys_step.outside [of S k ev p] in \<open>auto split: choice.splits\<close>)

lemma play_steps: "play sch S = Some (tr, S') \<Longrightarrow> sys_steps S tr S'"
proof (induction sch arbitrary: S tr)
  case (Cons kc sch)
  obtain k c where kc: "kc = (k, c)" by (cases kc)
  with Cons show ?case
    by (fastforce split: option.splits prod.splits dest: answer_step intro: sys_steps.more)
qed (auto intro: sys_steps.none)

lemma play_step: "play [(k, c)] S = Some (tr, S') \<Longrightarrow> \<exists>ev. tr = [(k, ev)] \<and> sys_step S (k, ev) S'"
  by (auto split: option.splits prod.splits dest: answer_step)

lemma play_append:
  "play (sch1 @ sch2) S =
     (case play sch1 S of None \<Rightarrow> None
      | Some (tr1, M) \<Rightarrow> (case play sch2 M of None \<Rightarrow> None | Some (tr2, S') \<Rightarrow> Some (tr1 @ tr2, S')))"
proof (induction sch1 arbitrary: S)
  case (Cons kc sch1)
  obtain k c where "kc = (k, c)" by (cases kc)
  with Cons show ?case by (auto split: option.splits)
qed (auto split: option.splits)

end
