(* ===== verification/Ids.thy ===== *)
theory Ids
  imports Effects
begin

text \<open>
  \<^verbatim>\<open>internal/ids/ids.go\<close>: identifiers from random bytes. A failure of the random source is a
  panic. The lemmas give the identifiers' alphabet and length, and that they determine the
  bytes they were made from.
\<close>

text \<open>\<^verbatim>\<open>hex.EncodeToString\<close>.\<close>

definition EncodeToString :: "byte list \<Rightarrow> string" where
  "EncodeToString bs = concat (map (\<lambda>b. [digit (unat b div 16), digit (unat b mod 16)]) bs)"

definition randHex :: "nat \<Rightarrow> string prog" where
  "randHex n = Rand n (\<lambda>r. case r of Inl e \<Rightarrow> Panic e | Inr b \<Rightarrow> Return (EncodeToString b))"

definition NewHex32 :: "string prog" where
  "NewHex32 = randHex 16"

definition NewProjectID :: "string prog" where
  "NewProjectID = bind (randHex 6) (\<lambda>h. Return (''prj'' @ h))"

definition NewBranchID :: "string prog" where
  "NewBranchID = bind (randHex 6) (\<lambda>h. Return (''br-'' @ h))"

definition NewEndpointID :: "string prog" where
  "NewEndpointID = bind (randHex 6) (\<lambda>h. Return (''ep-'' @ h))"

lemmas ids_defs [prog_defs] =
  NewHex32_def NewProjectID_def NewBranchID_def NewEndpointID_def randHex_def

lemma byte_nibbles: "unat (b :: byte) div 16 < 16" "unat b mod 16 < 16"
  using unsigned_less [of b, where ?'a = nat] by auto

lemma EncodeToString_Cons:
  "EncodeToString (b # bs) = digit (unat b div 16) # digit (unat b mod 16) # EncodeToString bs"
  by (simp add: EncodeToString_def)

lemma EncodeToString_Nil [simp]: "EncodeToString [] = []"
  by (simp add: EncodeToString_def)

lemma length_EncodeToString [simp]: "length (EncodeToString bs) = 2 * length bs"
  by (induction bs) (simp_all add: EncodeToString_Cons)

lemma EncodeToString_set: "set (EncodeToString bs) \<subseteq> set ''0123456789abcdef''"
proof (induction bs)
  case (Cons b bs)
  show ?case
    using Cons digit_set [OF byte_nibbles(1)] digit_set [OF byte_nibbles(2)]
    unfolding EncodeToString_Cons by simp
qed simp

lemma EncodeToString_inj: "EncodeToString bs = EncodeToString cs \<Longrightarrow> bs = cs"
proof (induction bs arbitrary: cs)
  case Nil
  then show ?case by (cases cs) (simp_all add: EncodeToString_Cons)
next
  case (Cons b bs)
  then obtain c cs' where cs: "cs = c # cs'" by (cases cs) (auto simp: EncodeToString_Cons)
  with Cons.prems have "unat b div 16 = unat c div 16" "unat b mod 16 = unat c mod 16"
    and rest: "EncodeToString bs = EncodeToString cs'"
    by (auto simp: EncodeToString_Cons intro: digit_inj [OF byte_nibbles(1) byte_nibbles(1)]
        digit_inj [OF byte_nibbles(2) byte_nibbles(2)])
  then have "unat b = unat c" by (metis div_mult_mod_eq)
  then have "b = c" by (rule word_unat_eq_iff [THEN iffD2])
  with Cons.IH [OF rest] cs show ?case by simp
qed

text \<open>A random source that fills what it is asked for, or fails.\<close>

definition fills :: "'x env \<Rightarrow> bool" where
  "fills E \<longleftrightarrow> (\<forall>n x bs x'. env_rand E n x = (Inr bs, x') \<longrightarrow> length bs = n)"

lemma run_Rand:
  "run E (Rand n k) x =
     (case env_rand E n x of (r, x1) \<Rightarrow> case run E (k r) x1 of (out, tr, x2) \<Rightarrow> (out, ERand n r # tr, x2))"
  by (simp add: Let_def split_beta)

lemma randHex_result:
  assumes "fills E" and "result E (randHex n) x = Returned s"
  shows "length s = 2 * n \<and> set s \<subseteq> set ''0123456789abcdef''"
proof -
  obtain r x1 where r: "env_rand E n x = (r, x1)" by (cases "env_rand E n x")
  show ?thesis
  proof (cases r)
    case (Inl e)
    with r assms(2) show ?thesis by (simp add: result_def randHex_def run_Rand)
  next
    case (Inr bs)
    with r assms(2) have "s = EncodeToString bs" by (simp add: result_def randHex_def run_Rand)
    moreover have "length bs = n" using r Inr assms(1) by (auto simp: fills_def)
    ultimately show ?thesis using EncodeToString_set [of bs] by simp
  qed
qed

lemma result_bind_Return:
  assumes "result E (bind p (\<lambda>a. Return (f a))) x = Returned b"
  obtains a where "result E p x = Returned a" "b = f a"
proof -
  obtain out tr x' where "run E p x = (out, tr, x')"
    by (cases "run E p x")
  note r = this
  show thesis
  proof (cases out)
    case (Returned a)
    with r assms have "b = f a" by (simp add: result_def run_bind)
    moreover have "result E p x = Returned a" using r Returned by (simp add: result_def)
    ultimately show thesis by (rule that [rotated])
  qed (use r assms in \<open>simp_all add: result_def run_bind\<close>)
qed

section \<open>Properties\<close>

text \<open>Whatever the random source answers, as long as it fills what it is asked for, the
  identifiers have the promised prefix, length and alphabet: tenant and timeline ids are 32
  hexadecimal digits, and an endpoint id is \<^verbatim>\<open>ep-\<close> and 12 hexadecimal digits, so it has only
  characters the proxy accepts.\<close>

lemma ids_alphabet:
  assumes "fills E"
  shows "(\<forall>t. result E NewHex32 x = Returned t \<longrightarrow>
      length t = 32 \<and> set t \<subseteq> set ''0123456789abcdef'') \<and>
    (\<forall>i. result E NewEndpointID x = Returned i \<longrightarrow>
      HasPrefix i ''ep-'' \<and> length i = 15 \<and> set (drop 3 i) \<subseteq> set ''0123456789abcdef'')"
proof (intro conjI allI impI)
  fix t assume "result E NewHex32 x = Returned t"
  then have "result E (randHex 16) x = Returned t" by (simp add: NewHex32_def)
  from randHex_result [OF assms this]
  show "length t = 32" "set t \<subseteq> set ''0123456789abcdef''" by simp_all
next
  fix i assume "result E NewEndpointID x = Returned i"
  then obtain h where h: "result E (randHex 6) x = Returned h" "i = ''ep-'' @ h"
    unfolding NewEndpointID_def by (rule result_bind_Return)
  from randHex_result [OF assms h(1)] h(2)
  show "HasPrefix i ''ep-''" "length i = 15" "set (drop 3 i) \<subseteq> set ''0123456789abcdef''"
    by (simp_all add: HasPrefix_def)
qed

text \<open>Two identifiers made from different random bytes are different: the encoding loses
  nothing.\<close>

lemma ids_injective: "EncodeToString bs = EncodeToString cs \<longleftrightarrow> bs = cs"
  using EncodeToString_inj by blast

end
