(* ===== verification/Scram.thy ===== *)
theory Scram
  imports Effects Sha256
begin

text \<open>
  \<^verbatim>\<open>internal/scram/scram.go\<close>: SCRAM-SHA-256 verifiers and random passwords, with the
  encodings of \<^verbatim>\<open>encoding/base64\<close>. The key derivation \<^verbatim>\<open>pbkdf2.Key\<close> of \<^verbatim>\<open>golang.org/x/crypto\<close>
  is a parameter \<open>pbkdf2\<close>, which takes the password, the salt, the number of iterations and
  the length of the key.
\<close>

section \<open>Base64\<close>

definition std_alphabet :: string where
  "std_alphabet = ''ABCDEFGHIJKLMNOPQRSTUVWXYZabcdefghijklmnopqrstuvwxyz0123456789+/''"

definition url_alphabet :: string where
  "url_alphabet = ''ABCDEFGHIJKLMNOPQRSTUVWXYZabcdefghijklmnopqrstuvwxyz0123456789-_''"

text \<open>Three bytes become four characters; \<open>pad\<close> is the padding, empty for a raw encoding.\<close>

fun encode64 :: "string \<Rightarrow> string \<Rightarrow> byte list \<Rightarrow> string" where
  "encode64 A pad (a # b # c # bs) =
     (let v = unat a * 65536 + unat b * 256 + unat c in
      [A ! (v div 262144 mod 64), A ! (v div 4096 mod 64), A ! (v div 64 mod 64), A ! (v mod 64)]
        @ encode64 A pad bs)"
| "encode64 A pad [a, b] =
     (let v = unat a * 65536 + unat b * 256 in
      [A ! (v div 262144 mod 64), A ! (v div 4096 mod 64), A ! (v div 64 mod 64)] @ pad)"
| "encode64 A pad [a] =
     (let v = unat a * 65536 in
      [A ! (v div 262144 mod 64), A ! (v div 4096 mod 64)] @ pad @ pad)"
| "encode64 A pad [] = []"

definition StdEncoding :: "byte list \<Rightarrow> string" where
  "StdEncoding = encode64 std_alphabet ''=''"

definition RawURLEncoding :: "byte list \<Rightarrow> string" where
  "RawURLEncoding = encode64 url_alphabet []"

section \<open>Verifiers\<close>

definition Iterations :: nat where
  "Iterations = 4096"

text \<open>\<^verbatim>\<open>[]byte(s)\<close>\<close>

definition bytes :: "string \<Rightarrow> byte list" where
  "bytes s = map (\<lambda>c. of_nat (of_char c)) s"

definition hmacSHA256 :: "byte list \<Rightarrow> string \<Rightarrow> byte list" where
  "hmacSHA256 key msg = hmac key (bytes msg)"

definition buildVerifier ::
  "(byte list \<Rightarrow> byte list \<Rightarrow> nat \<Rightarrow> nat \<Rightarrow> byte list) \<Rightarrow> string \<Rightarrow> byte list \<Rightarrow> nat \<Rightarrow> string" where
  "buildVerifier pbkdf2 password salt iter =
     (let salted = pbkdf2 (bytes password) salt iter 32;
          clientKey = hmacSHA256 salted ''Client Key'';
          storedKey = Sum256 clientKey;
          serverKey = hmacSHA256 salted ''Server Key''
      in sprintf ''SCRAM-SHA-256$%d:%s$%s:%s''
           [Num (int iter), Str (StdEncoding salt), Str (StdEncoding storedKey), Str (StdEncoding serverKey)])"

definition BuildVerifier ::
  "(byte list \<Rightarrow> byte list \<Rightarrow> nat \<Rightarrow> nat \<Rightarrow> byte list) \<Rightarrow> string \<Rightarrow> (err + string) prog" where
  "BuildVerifier pbkdf2 password =
     Rand 16 (\<lambda>r. case r of Inl e \<Rightarrow> fails e
       | Inr salt \<Rightarrow> returns (buildVerifier pbkdf2 password salt Iterations))"

definition RandomPassword :: "(err + string) prog" where
  "RandomPassword =
     Rand 24 (\<lambda>r. case r of Inl e \<Rightarrow> fails e | Inr raw \<Rightarrow> returns (RawURLEncoding raw))"

section \<open>Decoding\<close>

text \<open>The inverse, for the statements about the encodings: the position of a character in the
  alphabet, and the bytes of the groups of four.\<close>

fun position :: "string \<Rightarrow> char \<Rightarrow> nat option" where
  "position [] c = None"
| "position (d # A) c = (if c = d then Some 0 else map_option Suc (position A c))"

definition value64 :: "string \<Rightarrow> char \<Rightarrow> nat" where
  "value64 A c = (case position A c of Some n \<Rightarrow> n | None \<Rightarrow> 0)"

fun decode64 :: "string \<Rightarrow> string \<Rightarrow> byte list" where
  "decode64 A (a # b # c # d # s) =
     (let v = value64 A a * 262144 + value64 A b * 4096 + value64 A c * 64 + value64 A d in
      if c = CHR ''='' then [of_nat (v div 65536)]
      else if d = CHR ''='' then [of_nat (v div 65536), of_nat (v div 256)]
      else [of_nat (v div 65536), of_nat (v div 256), of_nat v] @ decode64 A s)"
| "decode64 A [a, b, c] =
     (let v = value64 A a * 262144 + value64 A b * 4096 + value64 A c * 64 in
      [of_nat (v div 65536), of_nat (v div 256)])"
| "decode64 A [a, b] =
     (let v = value64 A a * 262144 + value64 A b * 4096 in [of_nat (v div 65536)])"
| "decode64 A _ = []"

lemma position_nth: "distinct A \<Longrightarrow> n < length A \<Longrightarrow> position A (A ! n) = Some n"
  by (induction A arbitrary: n) (auto simp: nth_Cons split: nat.splits)

lemma value64_nth: "distinct A \<Longrightarrow> length A = 64 \<Longrightarrow> value64 A (A ! (n mod 64)) = n mod 64"
  by (simp add: value64_def position_nth)

lemma std_alphabet_ok: "distinct std_alphabet" "length std_alphabet = 64"
  by (simp_all add: std_alphabet_def)

lemma url_alphabet_ok: "distinct url_alphabet" "length url_alphabet = 64"
  by (simp_all add: url_alphabet_def)

lemma digits64: "v < 16777216 \<Longrightarrow>
   v div 262144 mod 64 * 262144 + v div 4096 mod 64 * 4096 + v div 64 mod 64 * 64 + v mod 64 = (v :: nat)"
proof -
  assume "v < 16777216"
  have "v div 64 div 64 = v div 4096" "v div 4096 div 64 = v div 262144"
    by (simp_all flip: div_mult2_eq)
  moreover have "v div 262144 mod 64 = v div 262144" using \<open>v < 16777216\<close> by simp
  moreover have "v = v div 64 * 64 + v mod 64" "v div 64 = v div 64 div 64 * 64 + v div 64 mod 64"
    "v div 4096 = v div 4096 div 64 * 64 + v div 4096 mod 64" by (simp_all only: div_mult_mod_eq)
  ultimately show ?thesis by linarith
qed

lemma byte_lt: "unat (b :: byte) < 256"
  using unsigned_less [of b, where ?'a = nat] by simp

lemma of_nat_byte_iff: "of_nat n = (b :: byte) \<longleftrightarrow> n mod 256 = unat b"
  by (simp add: word_unat_eq_iff unat_of_nat)

lemma group_bytes:
  assumes "v = unat (a :: byte) * 65536 + unat (b :: byte) * 256 + unat (c :: byte)"
  shows "of_nat (v div 65536) = a" "of_nat (v div 256) = b" "of_nat v = c" "v < 16777216"
proof -
  note lt = byte_lt [of a] byte_lt [of b] byte_lt [of c]
  have "v = (unat a * 256 + unat b) * 256 + unat c" using assms by simp
  then have "v mod 256 = unat c" "v div 256 = unat a * 256 + unat b"
    using lt by (simp_all only: mod_mult_self3 div_mult_self3) simp_all
  moreover have "v div 65536 = unat a" using assms lt by simp
  ultimately show "of_nat (v div 65536) = a" "of_nat (v div 256) = b" "of_nat v = c"
    using lt by (simp_all only: of_nat_byte_iff) simp_all
  show "v < 16777216" using assms lt by simp
qed

text \<open>An alphabet without the padding character.\<close>

definition alphabet_ok :: "string \<Rightarrow> bool" where
  "alphabet_ok A \<longleftrightarrow> distinct A \<and> length A = 64 \<and> CHR ''='' \<notin> set A"

lemma alphabets_ok: "alphabet_ok std_alphabet" "alphabet_ok url_alphabet"
  by (simp_all add: alphabet_ok_def std_alphabet_ok url_alphabet_ok) (simp_all add: std_alphabet_def url_alphabet_def)

lemma nth_alphabet:
  assumes "alphabet_ok A"
  shows "A ! (n mod 64) \<in> set A" "A ! (n mod 64) \<noteq> CHR ''=''" "value64 A (A ! (n mod 64)) = n mod 64"
proof -
  show "A ! (n mod 64) \<in> set A" using assms by (intro nth_mem) (simp add: alphabet_ok_def)
  moreover have "CHR ''='' \<notin> set A" using assms by (simp add: alphabet_ok_def)
  ultimately show "A ! (n mod 64) \<noteq> CHR ''=''" by metis
qed (use assms in \<open>simp add: alphabet_ok_def value64_nth\<close>)

lemma value64_pad: "alphabet_ok A \<Longrightarrow> value64 A CHR ''='' = 0"
proof -
  have "c \<notin> set A \<Longrightarrow> position A c = None" for c by (induction A) auto
  then show "alphabet_ok A \<Longrightarrow> ?thesis" by (simp add: alphabet_ok_def value64_def)
qed

text \<open>Decoding inverts both encodings.\<close>

lemma group_value:
  assumes "alphabet_ok A" and "v < 16777216"
  shows "value64 A (A ! (v div 262144 mod 64)) * 262144 + value64 A (A ! (v div 4096 mod 64)) * 4096
    + value64 A (A ! (v div 64 mod 64)) * 64 + value64 A (A ! (v mod 64)) = v"
  unfolding nth_alphabet(3) [OF assms(1)] by (rule digits64 [OF assms(2)])

lemma group_value_two:
  assumes "alphabet_ok A" and "v < 16777216" and "v mod 64 = 0"
  shows "value64 A (A ! (v div 262144 mod 64)) * 262144 + value64 A (A ! (v div 4096 mod 64)) * 4096
    + value64 A (A ! (v div 64 mod 64)) * 64 = v"
  using digits64 [OF assms(2)] unfolding nth_alphabet(3) [OF assms(1)] assms(3) by (simp only: add_0_right)

lemma group_value_one:
  assumes "alphabet_ok A" and "v < 16777216" and "v mod 64 = 0" and "v div 64 mod 64 = 0"
  shows "value64 A (A ! (v div 262144 mod 64)) * 262144 + value64 A (A ! (v div 4096 mod 64)) * 4096 = v"
  using digits64 [OF assms(2)] unfolding nth_alphabet(3) [OF assms(1)] assms(3,4)
  by (simp only: add_0_right mult_0)

lemma decode_encode:
  assumes "alphabet_ok A" and "pad \<in> {[], ''=''}"
  shows "decode64 A (encode64 A pad bs) = bs"
  using assms
proof (induction A pad bs rule: encode64.induct)
  case (1 A pad a b c bs)
  define v where "v = unat a * 65536 + unat b * 256 + unat c"
  note g = group_bytes [OF v_def]
  show ?case
    unfolding encode64.simps v_def [symmetric] Let_def append.simps decode64.simps
      group_value [OF 1(2) g(4)]
    using 1 g by (simp only: nth_alphabet if_False)
next
  case (2 A pad a b)
  define v where "v = unat a * 65536 + unat b * 256"
  then have "v = unat a * 65536 + unat b * 256 + unat (0 :: byte)" by simp
  note g = group_bytes [OF this]
  have "v mod 64 = 0" unfolding v_def by presburger
  note v = group_value_two [OF 2(1) g(4) this]
  from 2 show ?case
    unfolding encode64.simps v_def [symmetric] Let_def
    by (auto simp only: append.simps decode64.simps value64_pad Let_def v g nth_alphabet(2) if_False
        if_True add_0_right simp_thms)
next
  case (3 A pad a)
  define v where "v = unat a * 65536"
  then have "v = unat a * 65536 + unat (0 :: byte) * 256 + unat (0 :: byte)" by simp
  note g = group_bytes [OF this]
  have "v = unat a * 1024 * 64" "unat a * 1024 = unat a * 16 * 64" unfolding v_def by simp_all
  then have rem: "v mod 64 = 0" "v div 64 mod 64 = 0"
    by (simp_all only: mod_mult_self2_is_0 nonzero_mult_div_cancel_right)
  note v = group_value_one [OF 3(1) g(4) rem]
  have zero: "value64 A CHR ''='' = 0" by (rule value64_pad [OF 3(1)])
  from 3(2) consider "pad = []" | "pad = ''=''" by auto
  then show ?case
    unfolding encode64.simps v_def [symmetric] Let_def
  proof cases
    case 1
    then show "decode64 A ([A ! (v div 262144 mod 64), A ! (v div 4096 mod 64)] @ pad @ pad) = [a]"
      by (simp only: append.simps decode64.simps Let_def v g(1))
  next
    case 2
    then show "decode64 A ([A ! (v div 262144 mod 64), A ! (v div 4096 mod 64)] @ pad @ pad) = [a]"
      by (simp only: append.simps decode64.simps Let_def zero mult_0 add_0_right v g(1) simp_thms if_True)
  qed
qed simp

lemma encode64_set:
  assumes "alphabet_ok A"
  shows "set (encode64 A pad bs) \<subseteq> set A \<union> set pad"
  using assms
  by (induction A pad bs rule: encode64.induct) (auto simp: Let_def nth_alphabet)

lemma length_encode64_raw: "length (encode64 A [] bs) = (4 * length bs + 2) div 3"
  by (induction A "[] :: string" bs rule: encode64.induct) (simp_all add: Let_def)

section \<open>Reading a verifier back\<close>

text \<open>The fields of a stored verifier, as PostgreSQL and the proxy take it apart: the scheme
  up to the dollar sign, the iterations up to the colon, the salt up to the dollar sign, the
  stored key up to the colon, the server key.\<close>

definition parse_verifier :: "string \<Rightarrow> (string \<times> byte list \<times> byte list \<times> byte list) option" where
  "parse_verifier s =
     (case Cut s CHR ''$'' of (scheme, rest, _) \<Rightarrow>
      case Cut rest CHR '':'' of (iter, rest, _) \<Rightarrow>
      case Cut rest CHR ''$'' of (salt, rest, _) \<Rightarrow>
      case Cut rest CHR '':'' of (stored, server, found) \<Rightarrow>
        if scheme = ''SCRAM-SHA-256'' \<and> found
        then Some (iter, decode64 std_alphabet salt, decode64 std_alphabet stored, decode64 std_alphabet server)
        else None)"

text \<open>What RFC 5802 has the server check, and the proof a client sends.\<close>

definition xor_bytes :: "byte list \<Rightarrow> byte list \<Rightarrow> byte list" where
  "xor_bytes xs ys = map2 xor xs ys"

definition server_accepts :: "string \<Rightarrow> byte list \<Rightarrow> byte list \<Rightarrow> bool" where
  "server_accepts verifier auth proof =
     (case parse_verifier verifier of None \<Rightarrow> False
      | Some (_, _, stored, _) \<Rightarrow> Sum256 (xor_bytes proof (hmac stored auth)) = stored)"

definition client_proof :: "byte list \<Rightarrow> byte list \<Rightarrow> byte list" where
  "client_proof salted auth =
     (let clientKey = hmacSHA256 salted ''Client Key'' in xor_bytes clientKey (hmac (Sum256 clientKey) auth))"

lemma std_text: "CHR ''$'' \<notin> set (StdEncoding bs)" "CHR '':'' \<notin> set (StdEncoding bs)"
  using encode64_set [OF alphabets_ok(1), of "''=''" bs]
  by (auto simp: StdEncoding_def std_alphabet_def)

lemma decode_std: "decode64 std_alphabet (StdEncoding bs) = bs"
  unfolding StdEncoding_def by (rule decode_encode [OF alphabets_ok(1)]) simp

lemma dec_text: "0 \<le> i \<Longrightarrow> set (dec i) \<subseteq> set ''0123456789''"
  using dec_nat_set by (simp add: dec_def)

lemma buildVerifier_eq:
  "buildVerifier pbkdf2 password salt iter =
     (let salted = pbkdf2 (bytes password) salt iter 32;
          clientKey = hmacSHA256 salted ''Client Key''
      in ''SCRAM-SHA-256'' @ CHR ''$'' # dec (int iter) @ CHR '':'' # StdEncoding salt @ CHR ''$'' #
           StdEncoding (Sum256 clientKey) @ CHR '':'' # StdEncoding (hmacSHA256 salted ''Server Key''))"
  by (simp add: buildVerifier_def Let_def verb_def)

lemma parse_fields:
  assumes "CHR '':'' \<notin> set it"
  shows "parse_verifier (''SCRAM-SHA-256'' @ CHR ''$'' # it @ CHR '':'' # StdEncoding salt @ CHR ''$'' #
           StdEncoding stored @ CHR '':'' # StdEncoding server) = Some (it, salt, stored, server)"
proof -
  have scheme: "CHR ''$'' \<notin> set ''SCRAM-SHA-256''" by simp
  show ?thesis
    unfolding parse_verifier_def
    by (simp only: Cut_append [OF scheme] Cut_append [OF assms] Cut_append [OF std_text(1)]
        Cut_append [OF std_text(2)] prod.case decode_std) simp
qed

lemma parse_buildVerifier:
  "parse_verifier (buildVerifier pbkdf2 password salt iter) =
     (let salted = pbkdf2 (bytes password) salt iter 32
      in Some (dec (int iter), salt, Sum256 (hmacSHA256 salted ''Client Key''),
               hmacSHA256 salted ''Server Key''))"
proof -
  have "CHR '':'' \<notin> set (dec (int iter))" using dec_text [of "int iter"] by auto
  from parse_fields [OF this] show ?thesis unfolding buildVerifier_eq Let_def .
qed

lemma xor_bytes_cancel: "length xs = length ys \<Longrightarrow> xor_bytes (xor_bytes xs ys) ys = xs"
  unfolding xor_bytes_def by (induction xs ys rule: list_induct2) (simp_all add: xor.assoc)

lemma accepts_own_proof:
  "server_accepts (buildVerifier pbkdf2 password salt iter) auth
     (client_proof (pbkdf2 (bytes password) salt iter 32) auth)"
  by (simp add: server_accepts_def parse_buildVerifier Let_def client_proof_def xor_bytes_cancel hmacSHA256_def)

section \<open>Properties\<close>

text \<open>C39. Whatever the random source answers, a client that derives the salted password from the
  password and the salt and iterations the verifier publishes passes the server's check
  against the verifier.\<close>

theorem verifier_authenticates:
  "yields (BuildVerifier pbkdf2 password) (\<lambda>r.
     case r of Inl e \<Rightarrow> True
     | Inr v \<Rightarrow> (\<exists>salt stored server.
         parse_verifier v = Some (''4096'', salt, stored, server) \<and>
         server_accepts v auth (client_proof (pbkdf2 (bytes password) salt Iterations 32) auth)))"
proof -
  have "dec (int Iterations) = ''4096''"
    by (simp add: dec_def Iterations_def dec_nat.simps digit_def)
  then show ?thesis
    using accepts_own_proof [of pbkdf2 password _ Iterations auth]
      parse_buildVerifier [of pbkdf2 password _ Iterations]
    by (auto simp: yields_def BuildVerifier_def Let_def split: sum.split)
qed

text \<open>A random password consists of characters that need no escaping in a URI, and it carries
  all the random bytes: they can be read back from it.\<close>

lemma password_safe:
  "yields RandomPassword (\<lambda>r. case r of Inl e \<Rightarrow> True | Inr pw \<Rightarrow> set pw \<subseteq> set url_alphabet) \<and>
   set (RawURLEncoding raw) \<inter> set '':/@?#%'' = {} \<and>
   decode64 url_alphabet (RawURLEncoding raw) = raw \<and>
   length (RawURLEncoding raw) = (4 * length raw + 2) div 3"
proof -
  have sub: "set (RawURLEncoding bs) \<subseteq> set url_alphabet" for bs
    using encode64_set [OF alphabets_ok(2), of "[]" bs] by (simp add: RawURLEncoding_def)
  have "set url_alphabet \<inter> set '':/@?#%'' = {}" by (simp add: url_alphabet_def)
  with sub have "set (RawURLEncoding raw) \<inter> set '':/@?#%'' = {}" by blast
  moreover have "decode64 url_alphabet (RawURLEncoding raw) = raw"
    unfolding RawURLEncoding_def by (rule decode_encode [OF alphabets_ok(2)]) simp
  ultimately show ?thesis
    using sub length_encode64_raw
    by (auto simp: yields_def RandomPassword_def RawURLEncoding_def split: sum.split)
qed

end
