(* ===== verification/Clock.thy ===== *)
theory Clock
  imports Effects
begin

text \<open>
  Environments in which time passes, for the statements that a polling loop ends: the clock
  never runs backwards, a reading lies between the clock before and after it, and a sleep
  that is not cut short takes its time. In a ticking environment a reading also takes at
  least a nanosecond. \<open>halts\<close> marks the programs without a loop that can run out of fuel.
\<close>

definition clocked :: "('x \<Rightarrow> time) \<Rightarrow> 'x env \<Rightarrow> bool" where
  "clocked clock E \<longleftrightarrow>
     (\<forall>x. clock x \<le> fst (env_now E x) \<and> fst (env_now E x) \<le> clock (snd (env_now E x))) \<and>
     (\<forall>d x. clock x \<le> clock (snd (env_sleep E d x)) \<and>
        (fst (env_sleep E d x) = None \<longrightarrow> clock x + d \<le> clock (snd (env_sleep E d x)))) \<and>
     (\<forall>n x. clock x \<le> clock (snd (env_rand E n x))) \<and>
     (\<forall>q x. clock x \<le> clock (snd (env_http E q x))) \<and>
     (\<forall>c x. clock x \<le> clock (snd (env_k8s E c x))) \<and>
     (\<forall>qs x. clock x \<le> clock (snd (env_sql E qs x)))"

definition ticking :: "('x \<Rightarrow> time) \<Rightarrow> 'x env \<Rightarrow> bool" where
  "ticking clock E \<longleftrightarrow> clocked clock E \<and> (\<forall>x. clock x < clock (snd (env_now E x)))"

lemma clocked_now:
  "clocked clock E \<Longrightarrow> env_now E x = (t, x') \<Longrightarrow> clock x \<le> t \<and> t \<le> clock x'"
  by (metis clocked_def fst_conv snd_conv)

lemma clocked_sleep:
  "clocked clock E \<Longrightarrow> env_sleep E d x = (r, x') \<Longrightarrow>
     clock x \<le> clock x' \<and> (r = None \<longrightarrow> clock x + d \<le> clock x')"
  by (metis clocked_def fst_conv snd_conv)

lemma ticking_now: "ticking clock E \<Longrightarrow> env_now E x = (t, x') \<Longrightarrow> clock x < clock x'"
  by (metis ticking_def snd_conv)

text \<open>No program turns the clock back.\<close>

lemma final_simps [simp]:
  "final E (Return a) x = x" "final E (Panic e) x = x" "final E Diverge x = x"
  "final E (Now k) x = (case env_now E x of (r, x1) \<Rightarrow> final E (k r) x1)"
  "final E (Sleep d k2) x = (case env_sleep E d x of (s, x1) \<Rightarrow> final E (k2 s) x1)"
  "final E (Rand n k3) x = (case env_rand E n x of (b, x1) \<Rightarrow> final E (k3 b) x1)"
  "final E (Http q k4) x = (case env_http E q x of (h, x1) \<Rightarrow> final E (k4 h) x1)"
  "final E (K8s c k5) x = (case env_k8s E c x of (o1, x1) \<Rightarrow> final E (k5 o1) x1)"
  "final E (Sql qs k6) x = (case env_sql E qs x of (v, x1) \<Rightarrow> final E (k6 v) x1)"
  by (simp_all add: final_def split_beta Let_def)

lemma result_simps [simp]:
  "result E (Return a) x = Returned a" "result E (Panic e) x = Panicked e" "result E Diverge x = OutOfFuel"
  "result E (Now k) x = (case env_now E x of (r, x1) \<Rightarrow> result E (k r) x1)"
  "result E (Sleep d k2) x = (case env_sleep E d x of (s, x1) \<Rightarrow> result E (k2 s) x1)"
  "result E (Rand n k3) x = (case env_rand E n x of (b, x1) \<Rightarrow> result E (k3 b) x1)"
  "result E (Http q k4) x = (case env_http E q x of (h, x1) \<Rightarrow> result E (k4 h) x1)"
  "result E (K8s c k5) x = (case env_k8s E c x of (o1, x1) \<Rightarrow> result E (k5 o1) x1)"
  "result E (Sql qs k6) x = (case env_sql E qs x of (v, x1) \<Rightarrow> result E (k6 v) x1)"
  by (simp_all add: result_def split_beta Let_def)

lemma result_bind:
  "result E (bind p f) x =
     (case result E p x of Returned a \<Rightarrow> result E (f a) (final E p x)
      | Panicked e \<Rightarrow> Panicked e | OutOfFuel \<Rightarrow> OutOfFuel)"
  by (simp add: result_def final_def run_bind split_beta split: outcome.split)

lemma check_result:
  "result E p x = Returned r \<Longrightarrow> result E (check p h k) x =
     (case r of Inl e \<Rightarrow> result E (h e) (final E p x) | Inr a \<Rightarrow> result E (k a) (final E p x))"
  by (simp add: check_def result_bind split: sum.split)

lemma final_bind:
  "final E (bind p f) x =
     (case result E p x of Returned a \<Rightarrow> final E (f a) (final E p x) | _ \<Rightarrow> final E p x)"
  by (simp add: result_def final_def run_bind split_beta split: outcome.split)

lemma clocked_le:
  assumes "clocked clock E"
  shows "clock x \<le> clock (snd (env_now E x))" "clock x \<le> clock (snd (env_sleep E d x))"
    "clock x \<le> clock (snd (env_rand E n x))" "clock x \<le> clock (snd (env_http E q x))"
    "clock x \<le> clock (snd (env_k8s E c x))" "clock x \<le> clock (snd (env_sql E qs x))"
  using assms unfolding clocked_def by (auto intro: order_trans [of _ "fst (env_now E x)"])

lemma clock_mono:
  assumes "clocked clock E"
  shows "clock x \<le> clock (final E p x)"
proof (induction p arbitrary: x)
  case (Now k)
  show ?case unfolding final_simps split_beta
    by (rule order_trans [OF clocked_le(1) [OF assms] Now.IH [OF rangeI]])
next
  case (Sleep d k)
  show ?case unfolding final_simps split_beta
    by (rule order_trans [OF clocked_le(2) [OF assms] Sleep.IH [OF rangeI]])
next
  case (Rand n k)
  show ?case unfolding final_simps split_beta
    by (rule order_trans [OF clocked_le(3) [OF assms] Rand.IH [OF rangeI]])
next
  case (Http q k)
  show ?case unfolding final_simps split_beta
    by (rule order_trans [OF clocked_le(4) [OF assms] Http.IH [OF rangeI]])
next
  case (K8s c k)
  show ?case unfolding final_simps split_beta
    by (rule order_trans [OF clocked_le(5) [OF assms] K8s.IH [OF rangeI]])
next
  case (Sql qs k)
  show ?case unfolding final_simps split_beta
    by (rule order_trans [OF clocked_le(6) [OF assms] Sql.IH [OF rangeI]])
qed simp_all

section \<open>Programs that halt\<close>

primrec halts :: "'a prog \<Rightarrow> bool" where
  "halts (Return a) = True"
| "halts (Panic e) = True"
| "halts Diverge = False"
| "halts (Now k) = (\<forall>r. halts (k r))"
| "halts (Sleep d k) = (\<forall>r. halts (k r))"
| "halts (Rand n k) = (\<forall>r. halts (k r))"
| "halts (Http q k) = (\<forall>r. halts (k r))"
| "halts (K8s c k) = (\<forall>r. halts (k r))"
| "halts (Sql qs k) = (\<forall>r. halts (k r))"

lemma halts_bind: "halts p \<Longrightarrow> (\<And>a. halts (f a)) \<Longrightarrow> halts (bind p f)"
  by (induction p) auto

lemma halts_check: "halts p \<Longrightarrow> (\<And>e. halts (h e)) \<Longrightarrow> (\<And>x. halts (k x)) \<Longrightarrow> halts (check p h k)"
  unfolding check_def by (rule halts_bind) (auto split: sum.split)

lemma halts_result: "halts p \<Longrightarrow> result E p x \<noteq> OutOfFuel"
  by (induction p arbitrary: x) (auto simp: split_beta)

text \<open>Programs that return, whatever the replies: no panic and no loop without an end.\<close>

primrec returning :: "'a prog \<Rightarrow> bool" where
  "returning (Return a) = True"
| "returning (Panic e) = False"
| "returning Diverge = False"
| "returning (Now k) = (\<forall>r. returning (k r))"
| "returning (Sleep d k) = (\<forall>r. returning (k r))"
| "returning (Rand n k) = (\<forall>r. returning (k r))"
| "returning (Http q k) = (\<forall>r. returning (k r))"
| "returning (K8s c k) = (\<forall>r. returning (k r))"
| "returning (Sql qs k) = (\<forall>r. returning (k r))"

lemma returning_bind: "returning p \<Longrightarrow> (\<And>a. returning (f a)) \<Longrightarrow> returning (bind p f)"
  by (induction p) auto

lemma returning_check:
  "returning p \<Longrightarrow> (\<And>e. returning (h e)) \<Longrightarrow> (\<And>a. returning (k a)) \<Longrightarrow> returning (check p h k)"
  unfolding check_def by (rule returning_bind) (auto split: sum.split)

lemma returning_result: "returning p \<Longrightarrow> \<exists>a. result E p x = Returned a"
  by (induction p arbitrary: x) (auto split: prod.split)

text \<open>Programs that do not panic, or, where \<open>b\<close> says so, only when the random source fails.\<close>

primrec steady :: "bool \<Rightarrow> 'a prog \<Rightarrow> bool" where
  "steady b (Return a) = True"
| "steady b (Panic e) = False"
| "steady b Diverge = True"
| "steady b (Now k) = (\<forall>r. steady b (k r))"
| "steady b (Sleep d k) = (\<forall>r. steady b (k r))"
| "steady b (Rand n k) = (\<forall>r. b \<and> isl r \<or> steady b (k r))"
| "steady b (Http q k) = (\<forall>r. steady b (k r))"
| "steady b (K8s c k) = (\<forall>r. steady b (k r))"
| "steady b (Sql qs k) = (\<forall>r. steady b (k r))"

lemma steady_bind: "steady b p \<Longrightarrow> (\<And>a. steady b (f a)) \<Longrightarrow> steady b (bind p f)"
  by (induction p) auto

lemma steady_check: "steady b p \<Longrightarrow> (\<And>e. steady b (h e)) \<Longrightarrow> (\<And>a. steady b (k a)) \<Longrightarrow> steady b (check p h k)"
  unfolding check_def by (rule steady_bind) (auto split: sum.split)

lemma returning_steady: "returning p \<Longrightarrow> steady b p"
  by (induction p) auto

lemma steady_mono: "steady False p \<Longrightarrow> steady b p"
  by (induction p) auto

lemma steady_panic:
  "steady b p \<Longrightarrow> result E p x = Panicked e \<Longrightarrow> b \<and> (\<exists>n err. ERand n (Inl err) \<in> set (trace E p x))"
proof (induction p arbitrary: x)
  case (Rand n k)
  obtain r x1 where r: "env_rand E n x = (r, x1)" by (cases "env_rand E n x")
  have tr: "trace E (Rand n k) x = ERand n r # trace E (k r) x1" by (simp add: trace_def r split_beta Let_def)
  show ?case
  proof (cases "b \<and> isl r")
    case True
    then show ?thesis unfolding tr by (cases r) auto
  next
    case False
    then have "steady b (k r)" "result E (k r) x1 = Panicked e" using Rand.prems r by auto
    from Rand.IH [OF _ this] show ?thesis unfolding tr by auto
  qed
qed (fastforce simp: trace_def split_beta Let_def)+

text \<open>In a sequence, the second program may use that time has passed.\<close>

lemma bind_in_time:
  assumes "clocked clock E" and "result E p x \<noteq> OutOfFuel"
    and "\<And>a x'. clock x \<le> clock x' \<Longrightarrow> result E (f a) x' \<noteq> OutOfFuel"
  shows "result E (bind p f) x \<noteq> OutOfFuel"
  using assms(2,3) clock_mono [OF assms(1), of x p] by (auto simp: result_bind split: outcome.split)

lemma check_in_time:
  assumes "clocked clock E" and "result E p x \<noteq> OutOfFuel"
    and "\<And>e x'. clock x \<le> clock x' \<Longrightarrow> result E (h e) x' \<noteq> OutOfFuel"
    and "\<And>a x'. clock x \<le> clock x' \<Longrightarrow> result E (k a) x' \<noteq> OutOfFuel"
  shows "result E (check p h k) x \<noteq> OutOfFuel"
  unfolding check_def
  by (rule bind_in_time [OF assms(1,2)]) (auto simp: assms(3,4) split: sum.split)

text \<open>A concrete clock, for evaluations: reading it takes a nanosecond and a sleep its time.\<close>

definition clock_env :: "time env" where
  "clock_env = quiet_env \<lparr>env_now := (\<lambda>t. (t, t + 1)), env_sleep := (\<lambda>d t. (None, t + max d 0))\<rparr>"

lemma clock_env_ticking: "ticking id clock_env"
  by (simp add: ticking_def clocked_def clock_env_def quiet_env_def)

end
