(* ===== verification/Pageserver.thy ===== *)
theory Pageserver
  imports Clock
begin

text \<open>
  \<^verbatim>\<open>internal/neonclient/pageserver.go\<close>: the client of the pageserver's HTTP API. A request
  is one \<open>Http\<close> effect; an error building it, sending it or receiving the headers is the
  error reply. \<open>DeleteTimeline\<close> polls with fuel, one unit a look.
\<close>

record pageserver_client =
  ps_base_url :: string

definition StatusOK :: int where "StatusOK = 200"
definition StatusAccepted :: int where "StatusAccepted = 202"
definition StatusNotFound :: int where "StatusNotFound = 404"

text \<open>\<^verbatim>\<open>do\<close> returns the status and the body.\<close>

definition do_request ::
  "pageserver_client \<Rightarrow> string \<Rightarrow> string \<Rightarrow> json option \<Rightarrow> (err + int \<times> payload) prog" where
  "do_request c method path body =
     Http \<lparr>rq_method = method, rq_url = ps_base_url c @ path, rq_body = body\<rparr> (\<lambda>resp.
       case resp of Inl e \<Rightarrow> fails e | Inr rs \<Rightarrow> returns (rs_code rs, rs_body rs))"

definition expect2xx :: "pageserver_client \<Rightarrow> string \<Rightarrow> string \<Rightarrow> json option \<Rightarrow> (err + unit) prog" where
  "expect2xx c method path body =
     check (do_request c method path body) fails (\<lambda>(code, respBody).
       if code < 200 \<or> code > 299
       then fails (Errorf ''pageserver %s %s: %d: %s''
              [Str method, Str path, Num code, Str (pl_text respBody)])
       else returns ())"

definition AttachTenant :: "pageserver_client \<Rightarrow> string \<Rightarrow> (err + unit) prog" where
  "AttachTenant c tenantID =
     expect2xx c ''PUT'' (''/v1/tenant/'' @ tenantID @ ''/location_config'')
       (Some (JObj [(''generation'', JInt 1), (''mode'', JStr ''AttachedSingle''), (''tenant_conf'', JObj [])]))"

definition CreateTimeline :: "pageserver_client \<Rightarrow> string \<Rightarrow> string \<Rightarrow> int \<Rightarrow> (err + unit) prog" where
  "CreateTimeline c tenantID timelineID pgVersion =
     expect2xx c ''POST'' (''/v1/tenant/'' @ tenantID @ ''/timeline/'')
       (Some (JObj [(''new_timeline_id'', JStr timelineID), (''pg_version'', JInt pgVersion)]))"

definition pageserver_CreateBranch ::
  "pageserver_client \<Rightarrow> string \<Rightarrow> string \<Rightarrow> string \<Rightarrow> (err + unit) prog" where
  "pageserver_CreateBranch c tenantID newTimelineID ancestorTimelineID =
     expect2xx c ''POST'' (''/v1/tenant/'' @ tenantID @ ''/timeline/'')
       (Some (JObj [(''ancestor_timeline_id'', JStr ancestorTimelineID),
                    (''new_timeline_id'', JStr newTimelineID)]))"

definition CreateBranchAtLSN ::
  "pageserver_client \<Rightarrow> string \<Rightarrow> string \<Rightarrow> string \<Rightarrow> string \<Rightarrow> (err + unit) prog" where
  "CreateBranchAtLSN c tenantID newTimelineID ancestorTimelineID ancestorStartLSN =
     expect2xx c ''POST'' (''/v1/tenant/'' @ tenantID @ ''/timeline/'')
       (Some (JObj [(''ancestor_start_lsn'', JStr ancestorStartLSN),
                    (''ancestor_timeline_id'', JStr ancestorTimelineID),
                    (''new_timeline_id'', JStr newTimelineID)]))"

record timeline_detail =
  td_timeline :: string
  td_last_record_lsn :: string
  td_logical_size :: "64 word"

text \<open>\<^verbatim>\<open>json.Unmarshal\<close> refuses text after the value.\<close>

definition decode_detail :: "payload \<Rightarrow> err + timeline_detail" where
  "decode_detail p =
     (case struct_members (pl_value p) of (kvs, bad) \<Rightarrow>
        (let i = dec_string ''timeline_id'' [] kvs;
             l = dec_string ''last_record_lsn'' [] kvs;
             s = dec_int 0 (2 ^ 64 - 1) ''current_logical_size'' 0 kvs
         in if pl_trailing p \<or> bad \<or> snd i \<or> snd l \<or> snd s then Inl (ExtErr ''json: cannot unmarshal'')
            else Inr \<lparr>td_timeline = fst i, td_last_record_lsn = fst l,
                      td_logical_size = word_of_int (fst s)\<rparr>))"

definition GetTimeline :: "pageserver_client \<Rightarrow> string \<Rightarrow> string \<Rightarrow> (err + timeline_detail) prog" where
  "GetTimeline c tenantID timelineID =
     check (do_request c ''GET'' (''/v1/tenant/'' @ tenantID @ ''/timeline/'' @ timelineID) None) fails
       (\<lambda>(code, body).
          if code = StatusNotFound then fails (Errorf ''timeline %s not found'' [Str timelineID])
          else if code \<noteq> StatusOK
          then fails (Errorf ''pageserver GET timeline: %d: %s'' [Num code, Str (pl_text body)])
          else Return (decode_detail body))"

fun await_gone ::
  "nat \<Rightarrow> pageserver_client \<Rightarrow> string \<Rightarrow> string \<Rightarrow> time \<Rightarrow> (err + unit) prog" where
  "await_gone 0 c path timelineID deadline = Diverge"
| "await_gone (Suc n) c path timelineID deadline =
     Now (\<lambda>now.
       if now < deadline then
         check (do_request c ''GET'' path None) fails (\<lambda>(code, _).
           if code = StatusNotFound then returns ()
           else Sleep (500 * millisecond) (\<lambda>r.
             case r of Some e \<Rightarrow> fails e | None \<Rightarrow> await_gone n c path timelineID deadline))
       else fails (Errorf ''timeline %s still present after delete timeout'' [Str timelineID]))"

definition DeleteTimeline :: "nat \<Rightarrow> pageserver_client \<Rightarrow> string \<Rightarrow> string \<Rightarrow> (err + unit) prog" where
  "DeleteTimeline n c tenantID timelineID =
     (let path = ''/v1/tenant/'' @ tenantID @ ''/timeline/'' @ timelineID in
      check (do_request c ''DELETE'' path None) fails (\<lambda>(code, body).
        if code = StatusNotFound then returns ()
        else if code \<noteq> StatusAccepted \<and> (code < 200 \<or> code > 299)
        then fails (Errorf ''pageserver DELETE timeline: %d: %s'' [Num code, Str (pl_text body)])
        else Now (\<lambda>now. await_gone n c path timelineID (now + 60 * second))))"

definition DeleteTenant :: "pageserver_client \<Rightarrow> string \<Rightarrow> (err + unit) prog" where
  "DeleteTenant c tenantID = expect2xx c ''DELETE'' (''/v1/tenant/'' @ tenantID) None"

lemmas pageserver_defs [prog_defs] =
  expect2xx_def AttachTenant_def CreateTimeline_def pageserver_CreateBranch_def CreateBranchAtLSN_def
  GetTimeline_def DeleteTenant_def do_request_def StatusOK_def StatusAccepted_def StatusNotFound_def

section \<open>What the client does and returns\<close>

text \<open>Every call goes to the client's own server and, but for the clock of the polling loop, is
  all the client does.\<close>

fun talks_to :: "string \<Rightarrow> event \<Rightarrow> bool" where
  "talks_to base (EHttp q r) = HasPrefix (rq_url q) base"
| "talks_to base (ENow t) = True"
| "talks_to base (ESleep d r) = True"
| "talks_to base _ = False"

lemma do_request_emits: "emits (talks_to (ps_base_url c)) (do_request c method path body)"
  by (auto simp: emits_def do_request_def split: sum.split)

lemma expect2xx_emits: "emits (talks_to (ps_base_url c)) (expect2xx c method path body)"
  unfolding expect2xx_def
  by (rule emits_checkI [OF do_request_emits]) (auto simp: emits_def split: prod.split)

lemma GetTimeline_emits: "emits (talks_to (ps_base_url c)) (GetTimeline c tenantID timelineID)"
  unfolding GetTimeline_def
  by (rule emits_checkI [OF do_request_emits]) (auto simp: emits_def split: prod.split)

lemma await_gone_emits: "emits (talks_to (ps_base_url c)) (await_gone n c path timelineID d)"
proof (induction n)
  case (Suc n)
  have "emits (talks_to (ps_base_url c)) (check (do_request c ''GET'' path None) fails (\<lambda>(code, _).
           if code = StatusNotFound then returns ()
           else Sleep (500 * millisecond) (\<lambda>r.
             case r of Some e \<Rightarrow> fails e | None \<Rightarrow> await_gone n c path timelineID d)))"
    by (rule emits_checkI [OF do_request_emits])
      (use Suc in \<open>auto simp: emits_def split: prod.split option.split\<close>)
  then show ?case by (simp add: emits_def)
qed (simp add: emits_def)

lemma DeleteTimeline_emits: "emits (talks_to (ps_base_url c)) (DeleteTimeline n c tenantID timelineID)"
  unfolding DeleteTimeline_def Let_def
  by (rule emits_checkI [OF do_request_emits])
    (use await_gone_emits in \<open>auto simp: emits_def split: prod.split\<close>)

section \<open>The polling loop ends\<close>

lemma do_request_halts: "halts (do_request c method path body)"
  by (auto simp: do_request_def split: sum.split)

lemma expect2xx_halts: "halts (expect2xx c method path body)"
  unfolding expect2xx_def by (rule halts_check [OF do_request_halts]) (auto split: prod.split)

lemma GetTimeline_halts: "halts (GetTimeline c tenantID timelineID)"
  unfolding GetTimeline_def by (rule halts_check [OF do_request_halts]) (auto split: prod.split)

lemma await_gone_in_time:
  assumes cl: "clocked clock E"
  shows "0 < n \<Longrightarrow> deadline \<le> clock x + int (n - 1) * (500 * millisecond) \<Longrightarrow>
    result E (await_gone n c path timelineID deadline) x \<noteq> OutOfFuel"
proof (induction n arbitrary: x)
  case (Suc n)
  obtain now x1 where now: "env_now E x = (now, x1)" by (cases "env_now E x")
  from clocked_now [OF cl now] have le: "clock x \<le> now" "now \<le> clock x1" by auto
  show ?case
  proof (cases "now < deadline")
    case False
    with now show ?thesis by simp
  next
    case True
    with le Suc.prems have pos: "0 < n" by (cases n) auto
    have turn: "result E (if code = StatusNotFound then returns ()
        else Sleep (500 * millisecond) (\<lambda>r. case r of Some e \<Rightarrow> fails e
          | None \<Rightarrow> await_gone n c path timelineID deadline)) y \<noteq> OutOfFuel"
      if "clock x1 \<le> clock y" for code y
    proof -
      obtain r y1 where r: "env_sleep E (500 * millisecond) y = (r, y1)" by (cases "env_sleep E (500 * millisecond) y")
      have "result E (await_gone n c path timelineID deadline) y1 \<noteq> OutOfFuel" if "r = None"
      proof (rule Suc.IH [OF pos])
        have "clock x + 500 * millisecond \<le> clock y1"
          using clocked_sleep [OF cl r] that \<open>clock x1 \<le> clock y\<close> le by simp
        moreover have "int (Suc n - 1) * (500 * millisecond) = int (n - 1) * (500 * millisecond) + 500 * millisecond"
          using pos by (cases n) (simp_all add: algebra_simps)
        ultimately show "deadline \<le> clock y1 + int (n - 1) * (500 * millisecond)"
          using Suc.prems(2) by linarith
      qed
      with r show ?thesis by (cases r) (auto simp del: await_gone.simps)
    qed
    have "result E (check (do_request c ''GET'' path None) fails (\<lambda>(code, _).
           if code = StatusNotFound then returns ()
           else Sleep (500 * millisecond) (\<lambda>r.
             case r of Some e \<Rightarrow> fails e | None \<Rightarrow> await_gone n c path timelineID deadline))) x1 \<noteq> OutOfFuel"
      by (rule check_in_time [OF cl halts_result [OF do_request_halts]]) (use turn in \<open>auto split: prod.split\<close>)
    with now True show ?thesis by simp
  qed
qed simp

text \<open>121 looks are enough: 60 seconds of 500 milliseconds and one more.\<close>

lemma DeleteTimeline_in_time:
  assumes cl: "clocked clock E" and "121 \<le> n"
  shows "result E (DeleteTimeline n c tenantID timelineID) x \<noteq> OutOfFuel"
proof -
  have loop: "result E (await_gone n c path timelineID (now + 60 * second)) y \<noteq> OutOfFuel"
    if "now \<le> clock y" for now path y
  proof (rule await_gone_in_time [OF cl])
    have "120 \<le> int (n - 1)" using assms(2) by simp
    then have "120 * (500 * millisecond) \<le> int (n - 1) * (500 * millisecond)" by simp
    with that show "now + 60 * second \<le> clock y + int (n - 1) * (500 * millisecond)" by simp
  qed (use assms(2) in simp)
  show ?thesis
    unfolding DeleteTimeline_def Let_def
  proof (rule check_in_time [OF cl halts_result [OF do_request_halts]])
    fix a :: "int \<times> payload" and y
    obtain now y1 where now: "env_now E y = (now, y1)" by (cases "env_now E y")
    from loop clocked_now [OF cl now] now
    show "result E (case a of (code, body) \<Rightarrow>
        if code = StatusNotFound then returns ()
        else if code \<noteq> StatusAccepted \<and> (code < 200 \<or> code > 299)
        then fails (Errorf ''pageserver DELETE timeline: %d: %s'' [Num code, Str (pl_text body)])
        else Now (\<lambda>now. await_gone n c (''/v1/tenant/'' @ tenantID @ ''/timeline/'' @ timelineID)
               timelineID (now + 60 * second))) y \<noteq> OutOfFuel"
      by (auto split: prod.split)
  qed simp
qed

end
