(* ===== verification/Lsn.thy ===== *)
theory Lsn
  imports Prelude
begin

text \<open>
  \<^verbatim>\<open>internal/lsn/lsn.go\<close>: log sequence numbers, written as two hexadecimal halves
  \<^verbatim>\<open>X/Y\<close>. \<open>ParseUint\<close> is the loop of \<^verbatim>\<open>strconv.ParseUint\<close> on 64-bit words with the base
  and size the package passes. The lemmas relate \<open>Parse\<close> to the value of the two halves
  and to the text PostgreSQL prints.
\<close>

section \<open>strconv.ParseUint(s, 16, 32)\<close>

definition digit_value :: "char \<Rightarrow> nat option" where
  "digit_value c =
     (let n = (of_char c :: nat); m = or n 32 in
      if 48 \<le> n \<and> n \<le> 57 then Some (n - 48)
      else if 97 \<le> m \<and> m \<le> 122 then Some (m - 97 + 10)
      else None)"

abbreviation max_half :: "64 word" where "max_half \<equiv> 0xFFFFFFFF"

abbreviation cutoff :: "64 word" where "cutoff \<equiv> 0x1000000000000000"

definition NumError :: "string \<Rightarrow> string \<Rightarrow> err" where
  "NumError s reason = ExtErr (sprintf ''strconv.ParseUint: parsing %q: %s'' [Str s, Str reason])"

fun ParseUint_loop :: "string \<Rightarrow> string \<Rightarrow> 64 word \<Rightarrow> err + 64 word" where
  "ParseUint_loop s0 [] n = Inr n"
| "ParseUint_loop s0 (c # s) n =
     (case digit_value c of
        None \<Rightarrow> Inl (NumError s0 ''invalid syntax'')
      | Some d \<Rightarrow>
          if d \<ge> 16 then Inl (NumError s0 ''invalid syntax'')
          else if n \<ge> cutoff then Inl (NumError s0 ''value out of range'')
          else (let n' = n * 16; n1 = n' + of_nat d in
            if n1 < n' \<or> n1 > max_half then Inl (NumError s0 ''value out of range'')
            else ParseUint_loop s0 s n1))"

definition ParseUint :: "string \<Rightarrow> err + 64 word" where
  "ParseUint s = (if s = [] then Inl (NumError s ''invalid syntax'') else ParseUint_loop s s 0)"

section \<open>Parse and AtLeast\<close>

definition Parse :: "string \<Rightarrow> err + 64 word" where
  "Parse s =
     (case Cut s CHR ''/'' of (hi, lo, found) \<Rightarrow>
        if \<not> found \<or> hi = [] \<or> lo = [] then Inl (Errorf ''invalid lsn %q'' [Str s])
        else (case ParseUint hi of
            Inl e \<Rightarrow> Inl (Wrapf ''invalid lsn %q: %w'' [Str s] e)
          | Inr h \<Rightarrow> (case ParseUint lo of
              Inl e \<Rightarrow> Inl (Wrapf ''invalid lsn %q: %w'' [Str s] e)
            | Inr l \<Rightarrow> Inr (or (push_bit 32 h) l))))"

definition AtLeast :: "string \<Rightarrow> string \<Rightarrow> err + bool" where
  "AtLeast a b =
     (case Parse a of Inl e \<Rightarrow> Inl e
      | Inr av \<Rightarrow> (case Parse b of Inl e \<Rightarrow> Inl e | Inr bv \<Rightarrow> Inr (av \<ge> bv)))"

section \<open>The value of a half\<close>

text \<open>A half as a numeral: its digits' value in base 16, when all are hexadecimal.\<close>

definition is_hex :: "char \<Rightarrow> bool" where
  "is_hex c \<longleftrightarrow>
     (let n = (of_char c :: nat) in 48 \<le> n \<and> n \<le> 57 \<or> 65 \<le> n \<and> n \<le> 70 \<or> 97 \<le> n \<and> n \<le> 102)"

definition hex_digit :: "char \<Rightarrow> nat" where
  "hex_digit c = (case digit_value c of Some d \<Rightarrow> d | None \<Rightarrow> 0)"

definition hex_from :: "nat \<Rightarrow> string \<Rightarrow> nat" where
  "hex_from n s = foldl (\<lambda>v c. v * 16 + hex_digit c) n s"

lemma or_32: "or n (32 :: nat) = (if odd (n div 32) then n else n + 32)"
proof -
  have b: "bit n 5 = odd (n div 32)" by (simp add: bit_iff_odd)
  have e: "bit (32 :: nat) k = (k = 5)" for k
    using bit_exp_iff [of 5 k, where 'a = nat] by auto
  show ?thesis
  proof (cases "bit n 5")
    case True
    then have "or n 32 = n"
      by (intro bit_eqI) (auto simp: bit_or_iff e)
    with True b show ?thesis by simp
  next
    case False
    then have "or n 32 = n + 32"
      by (intro disjunctive_add [symmetric]) (auto simp: e)
    with False b show ?thesis by simp
  qed
qed

lemma digit_value_code:
  "digit_value c =
     (let n = (of_char c :: nat) in
      if 48 \<le> n \<and> n \<le> 57 then Some (n - 48)
      else if 65 \<le> n \<and> n \<le> 90 then Some (n - 55)
      else if 97 \<le> n \<and> n \<le> 122 then Some (n - 87) else None)"
proof -
  have folded: "97 \<le> or n 32 \<and> or n 32 \<le> 122 \<longleftrightarrow> 65 \<le> n \<and> n \<le> 90 \<or> 97 \<le> n \<and> n \<le> 122"
    "65 \<le> n \<and> n \<le> 90 \<Longrightarrow> or n 32 = n + 32" "97 \<le> n \<and> n \<le> 122 \<Longrightarrow> or n 32 = n"
    if n: "n < 256" "\<not> (48 \<le> n \<and> n \<le> 57)" for n :: nat
  proof -
    obtain q r where qr: "n = 32 * q + r" "r < 32"
      by (metis div_mult_mod_eq mult.commute mod_less_divisor zero_less_numeral)
    have "or n 32 = (if odd q then n else n + 32)" using qr by (simp add: or_32)
    have two: "q = 2" if "65 \<le> n \<and> n \<le> 90" using that qr by arith
    have three: "q = 3" if "97 \<le> n \<and> n \<le> 122" using that qr by arith
    show "65 \<le> n \<and> n \<le> 90 \<Longrightarrow> or n 32 = n + 32" using two \<open>or n 32 = _\<close> by simp
    show "97 \<le> n \<and> n \<le> 122 \<Longrightarrow> or n 32 = n" using three \<open>or n 32 = _\<close> by simp
    show "97 \<le> or n 32 \<and> or n 32 \<le> 122 \<longleftrightarrow> 65 \<le> n \<and> n \<le> 90 \<or> 97 \<le> n \<and> n \<le> 122"
    proof (cases "odd q")
      case True
      then have "q \<noteq> 2" by auto
      with two have "\<not> (65 \<le> n \<and> n \<le> 90)" by blast
      with True \<open>or n 32 = _\<close> show ?thesis by auto
    next
      case False
      then have "q \<noteq> 3" by auto
      with three have "\<not> (97 \<le> n \<and> n \<le> 122)" by blast
      moreover have "or n 32 = n + 32" using False \<open>or n 32 = _\<close> by simp
      ultimately show ?thesis by auto
    qed
  qed
  show ?thesis
    using folded [of "of_char c"] unfolding digit_value_def Let_def by auto
qed

lemma digit_value_hex: "is_hex c \<longleftrightarrow> (\<exists>d < 16. digit_value c = Some d)"
  unfolding is_hex_def digit_value_code Let_def by auto

lemma hex_from_Cons [simp]: "hex_from n (c # s) = hex_from (n * 16 + hex_digit c) s"
  by (simp add: hex_from_def)

lemma hex_from_Nil [simp]: "hex_from n [] = n"
  by (simp add: hex_from_def)

lemma hex_from_ge: "n \<le> hex_from n s"
proof (induction s arbitrary: n)
  case (Cons c s)
  have "n \<le> n * 16 + hex_digit c" by simp
  also have "\<dots> \<le> hex_from (n * 16 + hex_digit c) s" by (rule Cons)
  finally show ?case by simp
qed simp

lemma step_word:
  assumes "unat (n :: 64 word) < 2 ^ 32" and "d < 16"
  shows "\<not> n \<ge> cutoff" and "unat (n * 16 + of_nat d) = unat n * 16 + d"
    and "\<not> n * 16 + of_nat d < n * 16"
    and "n * 16 + of_nat d > max_half \<longleftrightarrow> \<not> unat n * 16 + d < 2 ^ 32"
proof -
  show "\<not> n \<ge> cutoff" using assms by (simp add: word_le_nat_alt)
  have m: "unat (n * 16) = unat n * 16"
    using assms by (simp add: unat_word_ariths)
  have d: "unat (of_nat d :: 64 word) = d" using assms by (simp add: unat_of_nat)
  show u: "unat (n * 16 + of_nat d) = unat n * 16 + d"
    using assms m d by (simp add: unat_word_ariths)
  show "\<not> n * 16 + of_nat d < n * 16" unfolding word_less_nat_alt u m by simp
  show "n * 16 + of_nat d > max_half \<longleftrightarrow> \<not> unat n * 16 + d < 2 ^ 32"
    unfolding word_less_nat_alt u by auto
qed

lemma ParseUint_loop_iff:
  assumes "unat n < 2 ^ 32"
  shows "ParseUint_loop s0 s n = Inr v \<longleftrightarrow>
    list_all is_hex s \<and> hex_from (unat n) s < 2 ^ 32 \<and> v = of_nat (hex_from (unat n) s)"
  using assms
proof (induction s arbitrary: n)
  case Nil
  then show ?case by auto
next
  case (Cons c s)
  show ?case
  proof (cases "is_hex c")
    case False
    then have "digit_value c = None \<or> (\<exists>d. digit_value c = Some d \<and> d \<ge> 16)"
      by (cases "digit_value c") (auto simp: digit_value_hex)
    with False show ?thesis by auto
  next
    case True
    then obtain d where d: "digit_value c = Some d" "d < 16" by (auto simp: digit_value_hex)
    then have hd: "hex_digit c = d" by (simp add: hex_digit_def)
    note w = step_word [OF Cons.prems d(2)]
    show ?thesis
    proof (cases "unat n * 16 + d < 2 ^ 32")
      case False
      then have "\<not> hex_from (unat n * 16 + d) s < 2 ^ 32"
        using hex_from_ge [of "unat n * 16 + d" s] by simp
      with False d w hd show ?thesis by (simp add: Let_def)
    next
      case small: True
      then have "unat (n * 16 + of_nat d) < 2 ^ 32" using w(2) by simp
      from Cons.IH [OF this] small d w hd True show ?thesis by (simp add: Let_def)
    qed
  qed
qed

definition hex_half :: "string \<Rightarrow> bool" where
  "hex_half s \<longleftrightarrow> s \<noteq> [] \<and> list_all is_hex s \<and> hex_from 0 s < 2 ^ 32"

lemma ParseUint_iff: "ParseUint s = Inr v \<longleftrightarrow> hex_half s \<and> v = of_nat (hex_from 0 s)"
  using ParseUint_loop_iff [of 0 s s v] by (auto simp: ParseUint_def hex_half_def)

text \<open>\<open>Parse\<close> accepts exactly two non-empty hexadecimal halves below \<open>2 ^ 32\<close> and returns the
  number they write.\<close>

lemma halves_or:
  assumes "h < 2 ^ 32" and "l < 2 ^ 32"
  shows "or (push_bit 32 (of_nat h)) (of_nat l) = (of_nat (h * 2 ^ 32 + l) :: 64 word)"
proof -
  have "take_bit 32 l = l" using assms(2) by (simp add: take_bit_nat_eq_self_iff)
  then have "bit l k \<Longrightarrow> k < 32" for k by (metis bit_take_bit_iff)
  then have "or (push_bit 32 h) l = push_bit 32 h + l"
    by (intro disjunctive_add [symmetric]) (fastforce simp: bit_push_bit_iff)
  then have "(of_nat (or (push_bit 32 h) l) :: 64 word) = of_nat (h * 2 ^ 32 + l)"
    by (simp add: push_bit_eq_mult)
  then show ?thesis by (simp add: of_nat_or_eq push_bit_of_nat)
qed

lemma Parse_iff:
  "Parse s = Inr v \<longleftrightarrow>
     (\<exists>hi lo. s = hi @ CHR ''/'' # lo \<and> hex_half hi \<and> hex_half lo \<and>
        v = of_nat (hex_from 0 hi * 2 ^ 32 + hex_from 0 lo))"
proof
  assume "Parse s = Inr v"
  then obtain hi lo h l where c: "Cut s CHR ''/'' = (hi, lo, True)"
    and "ParseUint hi = Inr h" "ParseUint lo = Inr l" "v = or (push_bit 32 h) l"
    by (auto simp: Parse_def split: prod.splits if_splits sum.splits)
  with Cut_found [OF c] show "\<exists>hi lo. s = hi @ CHR ''/'' # lo \<and> hex_half hi \<and> hex_half lo \<and>
      v = of_nat (hex_from 0 hi * 2 ^ 32 + hex_from 0 lo)"
    by (auto simp: ParseUint_iff halves_or hex_half_def simp del: of_nat_add of_nat_mult)
next
  assume "\<exists>hi lo. s = hi @ CHR ''/'' # lo \<and> hex_half hi \<and> hex_half lo \<and>
      v = of_nat (hex_from 0 hi * 2 ^ 32 + hex_from 0 lo)"
  then obtain hi lo where s: "s = hi @ CHR ''/'' # lo" and half: "hex_half hi" "hex_half lo"
    and v: "v = of_nat (hex_from 0 hi * 2 ^ 32 + hex_from 0 lo)" by blast
  have "\<not> is_hex CHR ''/''" by (simp add: is_hex_def)
  with half have "CHR ''/'' \<notin> set hi" by (auto simp: hex_half_def list_all_iff)
  then have "Cut s CHR ''/'' = (hi, lo, True)" unfolding s by (rule Cut_append)
  moreover have "ParseUint hi = Inr (of_nat (hex_from 0 hi))" "ParseUint lo = Inr (of_nat (hex_from 0 lo))"
    using half by (simp_all add: ParseUint_iff)
  moreover have "hi \<noteq> []" "lo \<noteq> []" using half by (auto simp: hex_half_def)
  ultimately show "Parse s = Inr v"
    using half by (simp add: Parse_def v halves_or hex_half_def del: of_nat_add of_nat_mult)
qed

section \<open>The text of a log sequence number\<close>

text \<open>PostgreSQL's \<^verbatim>\<open>%X/%X\<close>.\<close>

definition upper_digit :: "nat \<Rightarrow> char" where
  "upper_digit n = ''0123456789ABCDEF'' ! n"

fun hex_text :: "nat \<Rightarrow> string" where
  "hex_text n = (if n < 16 then [upper_digit n] else hex_text (n div 16) @ [upper_digit (n mod 16)])"

declare hex_text.simps [simp del]

definition lsn_text :: "64 word \<Rightarrow> string" where
  "lsn_text v = hex_text (unat (drop_bit 32 v)) @ CHR ''/'' # hex_text (unat (take_bit 32 v))"

lemma upper_digit_value: "n < 16 \<Longrightarrow> is_hex (upper_digit n) \<and> hex_digit (upper_digit n) = n"
proof -
  assume "n < 16"
  then have "n \<in> {0, 1, 2, 3, 4, 5, 6, 7, 8, 9, 10, 11, 12, 13, 14, 15}" by simp arith
  then show ?thesis
    by (auto simp: upper_digit_def is_hex_def hex_digit_def digit_value_code)
qed

lemma hex_from_snoc: "hex_from m (s @ [c]) = hex_from m s * 16 + hex_digit c"
  by (simp add: hex_from_def)

lemma hex_text_value: "list_all is_hex (hex_text n) \<and> hex_from 0 (hex_text n) = n \<and> hex_text n \<noteq> []"
proof (induction n rule: hex_text.induct)
  case (1 n)
  then show ?case
    using upper_digit_value [of n] upper_digit_value [of "n mod 16"]
    by (subst (1 2 3) hex_text.simps) (auto simp: hex_from_snoc)
qed

lemma hex_half_text: "n < 2 ^ 32 \<Longrightarrow> hex_half (hex_text n)"
  by (simp add: hex_half_def hex_text_value)

lemma Parse_text: "Parse (lsn_text v) = Inr v"
proof -
  let ?h = "unat (drop_bit 32 v)" and ?l = "unat (take_bit 32 v)"
  have parts: "?h = unat v div 2 ^ 32" "?l = unat v mod 2 ^ 32"
    by (simp_all only: unat_drop_bit_eq unsigned_take_bit_eq drop_bit_eq_div [where 'a = nat]
        take_bit_eq_mod [where 'a = nat])
  have lt: "?h < 2 ^ 32" "?l < 2 ^ 32"
    using unsigned_less [of v, where ?'a = nat] unfolding parts by (simp_all add: less_mult_imp_div_less)
  have "?h * 2 ^ 32 + ?l = unat v"
    unfolding parts by (rule div_mult_mod_eq)
  then show ?thesis
    unfolding Parse_iff lsn_text_def using lt hex_half_text hex_text_value
    by (intro exI [of _ "hex_text ?h"] exI [of _ "hex_text ?l"]) (simp del: of_nat_add of_nat_mult)
qed

section \<open>Properties\<close>

text \<open>C37. \<open>Parse\<close> accepts exactly the strings of two non-empty hexadecimal halves around the
  first slash, each below \<open>2 ^ 32\<close>, and returns the number they write; every other string is
  an error.\<close>

theorem lsn_parse_exact:
  "Parse s = Inr v \<longleftrightarrow>
     (\<exists>hi lo. s = hi @ CHR ''/'' # lo \<and> hex_half hi \<and> hex_half lo \<and>
        v = of_nat (hex_from 0 hi * 2 ^ 32 + hex_from 0 lo))"
  by (rule Parse_iff)

text \<open>C38. On the text PostgreSQL prints for a log sequence number, \<open>Parse\<close> returns the number
  and \<open>AtLeast\<close> compares the numbers, without an error: the comparison is numeric, not of
  the texts.\<close>

theorem lsn_roundtrip_order:
  "Parse (lsn_text a) = Inr a \<and> AtLeast (lsn_text a) (lsn_text b) = Inr (a \<ge> b)"
  by (simp add: AtLeast_def Parse_text)

end
