(* ===== verification/Safekeeper.thy ===== *)
theory Safekeeper
  imports Clock Lsn
begin

text \<open>
  \<^verbatim>\<open>internal/neonclient/safekeeper.go\<close>: the commit position of a timeline, the highest one
  any safekeeper reports. The interface \<^verbatim>\<open>SafekeeperLSN\<close> that the API consumes is the locale
  \<open>safekeeper_lsn\<close>, interpreted on the client.
\<close>

record safekeeper_client =
  sk_base_urls :: "string list"

definition decode_commit :: "payload \<Rightarrow> err + string" where
  "decode_commit p =
     (case struct_members (pl_value p) of (kvs, bad) \<Rightarrow>
        (let c = dec_string ''commit_lsn'' [] kvs
         in if bad \<or> snd c then Inl (ExtErr ''json: cannot unmarshal'') else Inr (fst c)))"

definition commitLSN :: "string \<Rightarrow> string \<Rightarrow> string \<Rightarrow> (err + string) prog" where
  "commitLSN base tenantID timelineID =
     Http \<lparr>rq_method = ''GET'', rq_url = base @ ''/v1/tenant/'' @ tenantID @ ''/timeline/'' @ timelineID,
           rq_body = None\<rparr> (\<lambda>resp.
       case resp of
         Inl e \<Rightarrow> fails e
       | Inr rs \<Rightarrow>
           if rs_code rs \<noteq> 200
           then fails (Errorf ''safekeeper %s: status %d'' [Str base, Num (rs_code rs)])
           else (case decode_commit (rs_body rs) of
               Inl e \<Rightarrow> fails e
             | Inr commit \<Rightarrow>
                 if commit = [] then fails (Errorf ''safekeeper %s: empty commit_lsn'' [Str base])
                 else returns commit))"

text \<open>The loop's variables \<^verbatim>\<open>best\<close>, \<^verbatim>\<open>bestVal\<close>, \<^verbatim>\<open>lastErr\<close> and \<^verbatim>\<open>seen\<close>.\<close>

record best_so_far =
  bs_best :: string
  bs_val :: "64 word"
  bs_last_err :: "err option"
  bs_seen :: bool

definition take_reply :: "err + string \<Rightarrow> best_so_far \<Rightarrow> best_so_far" where
  "take_reply r b =
     (case r of
        Inl e \<Rightarrow> b\<lparr>bs_last_err := Some e\<rparr>
      | Inr cl \<Rightarrow>
          (case Parse cl of
             Inl e \<Rightarrow> b\<lparr>bs_last_err := Some e\<rparr>
           | Inr v \<Rightarrow>
               if \<not> bs_seen b \<or> v > bs_val b then b\<lparr>bs_best := cl, bs_val := v, bs_seen := True\<rparr> else b))"

fun max_loop :: "string list \<Rightarrow> string \<Rightarrow> string \<Rightarrow> best_so_far \<Rightarrow> best_so_far prog" where
  "max_loop [] tenantID timelineID b = Return b"
| "max_loop (base # bases) tenantID timelineID b =
     bind (commitLSN base tenantID timelineID) (\<lambda>r. max_loop bases tenantID timelineID (take_reply r b))"

definition MaxCommitLSN :: "safekeeper_client \<Rightarrow> string \<Rightarrow> string \<Rightarrow> (err + string) prog" where
  "MaxCommitLSN c tenantID timelineID =
     bind (max_loop (sk_base_urls c) tenantID timelineID
             \<lparr>bs_best = [], bs_val = 0, bs_last_err = None, bs_seen = False\<rparr>) (\<lambda>b.
       if \<not> bs_seen b then fails (Valf ''no safekeeper returned commit_lsn: %v'' (bs_last_err b))
       else returns (bs_best b))"

section \<open>The maximum\<close>

text \<open>What the replies of a list of safekeepers amount to.\<close>

definition no_best :: best_so_far where
  "no_best = \<lparr>bs_best = [], bs_val = 0, bs_last_err = None, bs_seen = False\<rparr>"

definition positions :: "(err + string) list \<Rightarrow> 64 word set" where
  "positions rs = {v. \<exists>s. Inr s \<in> set rs \<and> Parse s = Inr v}"

definition best_of :: "best_so_far \<Rightarrow> (err + string) list \<Rightarrow> bool" where
  "best_of b rs \<longleftrightarrow>
     (if positions rs = {} then \<not> bs_seen b
      else bs_seen b \<and> Inr (bs_best b) \<in> set rs \<and> Parse (bs_best b) = Inr (bs_val b) \<and>
        (\<forall>v \<in> positions rs. v \<le> bs_val b))"

lemma positions_simps [simp]:
  "positions [] = {}" "positions (rs @ [Inl e]) = positions rs"
  "Parse s = Inl e \<Longrightarrow> positions (rs @ [Inr s]) = positions rs"
  "Parse s = Inr v \<Longrightarrow> positions (rs @ [Inr s]) = insert v (positions rs)"
  by (auto simp: positions_def)

lemma take_reply_best: "best_of b rs \<Longrightarrow> best_of (take_reply r b) (rs @ [r])"
proof (cases r)
  case (Inl e)
  assume "best_of b rs"
  with Inl show ?thesis by (auto simp: best_of_def take_reply_def)
next
  case (Inr s)
  assume b: "best_of b rs"
  show ?thesis
  proof (cases "Parse s")
    case (Inl e)
    with Inr b show ?thesis by (auto simp: best_of_def take_reply_def)
  next
    case P: (Inr v)
    show ?thesis
    proof (cases "positions rs = {}")
      case True
      with Inr P b show ?thesis by (simp add: best_of_def take_reply_def)
    next
      case False
      with b have "bs_seen b" "Inr (bs_best b) \<in> set rs" "Parse (bs_best b) = Inr (bs_val b)"
        "\<forall>v \<in> positions rs. v \<le> bs_val b" by (simp_all add: best_of_def)
      with Inr P show ?thesis
        by (cases "v > bs_val b") (auto simp: best_of_def take_reply_def)
    qed
  qed
qed

text \<open>The replies the safekeepers gave in a trace.\<close>

definition reply_of :: "err + http_response \<Rightarrow> err + string" where
  "reply_of resp =
     (case resp of Inl e \<Rightarrow> Inl e
      | Inr rs \<Rightarrow> if rs_code rs \<noteq> 200 then Inl (ExtErr ''status'')
          else (case decode_commit (rs_body rs) of Inl e \<Rightarrow> Inl e
                | Inr commit \<Rightarrow> if commit = [] then Inl (ExtErr ''empty'') else Inr commit))"

definition replies :: "(err + string) list monitor" where
  "replies =
     \<lparr>mon_rely = \<lambda>s ev. True,
      mon_guar = \<lambda>s ev. True,
      mon_next = \<lambda>s ev. case ev of EHttp q r \<Rightarrow> s @ [reply_of r] | _ \<Rightarrow> s\<rparr>"

lemma after_replies [simp]:
  "after replies (EHttp q r) Q s = Q (s @ [reply_of r])"
  by (simp add: after_def replies_def)

text \<open>An error counts the same whatever it says.\<close>

lemma best_of_error: "best_of b (rs @ [Inl e]) \<longleftrightarrow> best_of b (rs @ [Inl e'])"
  by (auto simp: best_of_def)

lemma commitLSN_replies:
  "wp replies (commitLSN base tn tm) (\<lambda>r s'. s' = s @ [r] \<or> (\<exists>e e'. r = Inl e \<and> s' = s @ [Inl e'])) s"
  by (auto simp: commitLSN_def reply_of_def split: sum.split)

lemma max_loop_best:
  "best_of b s \<Longrightarrow> wp replies (max_loop bases tn tm b) (\<lambda>b' s'. best_of b' s' \<and> length s' = length s + length bases) s"
proof (induction bases arbitrary: b s)
  case (Cons base bases)
  have step: "best_of (take_reply r b) s'" if "s' = s @ [r] \<or> (\<exists>e e'. r = Inl e \<and> s' = s @ [Inl e'])" for r s'
    using take_reply_best [OF Cons.prems, of r] that best_of_error by blast
  have len: "length s' = length s + 1" if "s' = s @ [r] \<or> (\<exists>e e'. r = Inl e \<and> s' = s @ [Inl e'])" for r s'
    using that by auto
  show ?case
    unfolding max_loop.simps wp_bind
  proof (rule wp_mono [OF commitLSN_replies [of base tn tm s]])
    fix r s'
    assume h: "s' = s @ [r] \<or> (\<exists>e e'. r = Inl e \<and> s' = s @ [Inl e'])"
    from Cons.IH [OF step [OF h]] len [OF h]
    show "wp replies (max_loop bases tn tm (take_reply r b))
        (\<lambda>b' s'. best_of b' s' \<and> length s' = length s + length (base # bases)) s'" by simp
  qed
qed simp

lemma MaxCommitLSN_best:
  "wp replies (MaxCommitLSN c tn tm)
     (\<lambda>r s. length s = length (sk_base_urls c) \<and>
        (case r of Inl e \<Rightarrow> positions s = {}
         | Inr l \<Rightarrow> \<exists>v. Inr l \<in> set s \<and> Parse l = Inr v \<and> (\<forall>u \<in> positions s. u \<le> v))) []"
proof -
  have "best_of no_best []" by (simp add: best_of_def no_best_def)
  from max_loop_best [OF this, of "sk_base_urls c" tn tm] show ?thesis
    unfolding MaxCommitLSN_def wp_bind no_best_def
    by (rule wp_mono) (auto simp: best_of_def split: if_splits)
qed

section \<open>The interface\<close>

text \<open>\<^verbatim>\<open>SafekeeperLSN\<close>: what its client relies on is a position that parses, and that asking for
  it only reads.\<close>

locale safekeeper_lsn =
  fixes max_commit :: "string \<Rightarrow> string \<Rightarrow> (err + string) prog"
  assumes parses: "yields (max_commit tn tm) (\<lambda>r. \<forall>l. r = Inr l \<longrightarrow> (\<exists>v. Parse l = Inr v))"
    and reads: "emits (is_http (\<lambda>q. rq_method q = ''GET'')) (max_commit tn tm)"
    and halts: "halts (max_commit tn tm)"

lemma max_loop_class:
  "emits (is_http (\<lambda>q. rq_method q = ''GET'')) (max_loop bases tn tm b) \<and> halts (max_loop bases tn tm b)"
  by (induction bases arbitrary: b)
    (auto simp: emits_def commitLSN_def split: sum.split)

interpretation safekeeper: safekeeper_lsn "MaxCommitLSN c" for c
proof (unfold_locales, goal_cases)
  case (1 tn tm)
  show ?case
    by (rule wp_yields [OF _ MaxCommitLSN_best]) (auto simp: replies_def)
next
  case (2 tn tm)
  then show ?case
    unfolding MaxCommitLSN_def using max_loop_class
    by (intro emits_bindI) (auto simp: emits_def)
next
  case (3 tn tm)
  then show ?case
    unfolding MaxCommitLSN_def using max_loop_class by (intro halts_bind) auto
qed

end
