(* ===== verification/Api.thy ===== *)
theory Api
  imports Store Compute_K8s Ids Scram Pageserver Safekeeper
begin

text \<open>
  \<^verbatim>\<open>internal/api/api.go\<close>: the REST API. The record \<open>server\<close> has the fields of \<^verbatim>\<open>Server\<close>: the
  store is the database of the effects, the interfaces \<^verbatim>\<open>Waker\<close> and \<^verbatim>\<open>SafekeeperLSN\<close> are
  the functions they consist of, and \<open>sv_pbkdf2\<close> is the key derivation of \<open>Scram\<close>. A handler
  maps a request to the program that answers it. The first argument of a handler with a
  polling loop is its fuel. Bodies that are not JSON are given as \<open>JStr\<close> of their text.
\<close>

record api_config =
  cf_domain :: string
  cf_proxy_port :: int
  cf_pageserver :: string
  cf_safekeepers :: "string list"
  cf_auth_token :: string
  cf_enable_debug :: bool

record server =
  sv_pageserver :: pageserver_client
  sv_safekeeper :: "string \<Rightarrow> string \<Rightarrow> (err + string) prog"
  sv_runtime :: runtime
  sv_waker :: "string \<Rightarrow> (err + string) prog"
  sv_pbkdf2 :: "byte list \<Rightarrow> byte list \<Rightarrow> nat \<Rightarrow> nat \<Rightarrow> byte list"
  sv_cfg :: api_config

text \<open>A request as a handler sees it: the \<^verbatim>\<open>Authorization\<close> header and query parameters (empty
  when absent), the path's wildcards and the body.\<close>

record request =
  in_auth :: string
  in_query :: "string \<Rightarrow> string"
  in_id :: string
  in_bid :: string
  in_body :: payload

type_synonym handler = "request \<Rightarrow> response prog"

definition writeJSON :: "int \<Rightarrow> json \<Rightarrow> response prog" where
  "writeJSON code v = Return \<lparr>resp_status = code, resp_body = v\<rparr>"

definition writeErr :: "int \<Rightarrow> string \<Rightarrow> response prog" where
  "writeErr code msg = writeJSON code (JObj [(''error'', JStr msg)])"

definition requireAuth :: "server \<Rightarrow> handler \<Rightarrow> handler" where
  "requireAuth s h =
     (if cf_auth_token (sv_cfg s) = [] then h
      else (let want = ''Bearer '' @ cf_auth_token (sv_cfg s) in
        (\<lambda>r. if in_auth r \<noteq> want then writeErr 401 ''unauthorized'' else h r)))"

definition connectionURI :: "server \<Rightarrow> string \<Rightarrow> string \<Rightarrow> string \<Rightarrow> string \<Rightarrow> string \<times> string" where
  "connectionURI s endpointID role password database =
     (let host = sprintf ''%s.%s'' [Str endpointID, Str (cf_domain (sv_cfg s))] in
      (host, sprintf ''postgresql://%s:%s@%s:%d/%s?sslmode=require''
         [Str role, Str password, Str host, Num (cf_proxy_port (sv_cfg s)), Str database]))"

section \<open>Projects\<close>

text \<open>The body of \<^verbatim>\<open>POST /v1/projects\<close>; None is the 400 answer.\<close>

definition decode_create_project :: "payload \<Rightarrow> (string \<times> int) option" where
  "decode_create_project p =
     (case struct_members (pl_value p) of (kvs, bad) \<Rightarrow>
        (let nm = dec_string ''name'' [] kvs;
             sa = dec_int (- (2 ^ 63)) (2 ^ 63 - 1) ''suspend_after_seconds'' 0 kvs
         in if bad \<or> snd nm \<or> snd sa \<or> fst nm = [] then None else Some (fst nm, fst sa)))"

definition new_endpoint :: "string \<Rightarrow> string \<Rightarrow> int \<Rightarrow> endpoint" where
  "new_endpoint endpointID branchID secs =
     \<lparr>e_id = endpointID, e_branch = branchID, e_state = ''suspended'', e_addr = None,
      e_suspend_after = secs, e_last_started = None, e_last_active = None, e_updated = time_zero\<rparr>"

text \<open>From the moment the identifiers, the password and the verifier are known.\<close>

definition provision_project ::
  "server \<Rightarrow> string \<Rightarrow> int \<Rightarrow> string \<times> string \<times> string \<times> string \<times> string \<Rightarrow> string \<Rightarrow> string \<Rightarrow> response prog" where
  "provision_project s name secs = (\<lambda>(tenantID, timelineID, projectID, branchID, endpointID) password verifier.
     check (AttachTenant (sv_pageserver s) tenantID)
       (\<lambda>e. writeErr 502 (''pageserver: '' @ Error e)) (\<lambda>_.
     check (CreateTimeline (sv_pageserver s) tenantID timelineID 17)
       (\<lambda>e. writeErr 502 (''pageserver: '' @ Error e)) (\<lambda>_.
     check (CreateProject
         \<lparr>p_id = projectID, p_name = name, p_tenant = tenantID, p_pg_version = 17,
          p_role = ''firth'', p_verifier = verifier\<rparr>
         \<lparr>b_id = branchID, b_project = projectID, b_name = ''main'', b_timeline = timelineID,
          b_parent = None, b_default = True\<rparr>
         (new_endpoint endpointID branchID (if secs > 0 then secs else 0)))
       (\<lambda>e. bind (DeleteTenant (sv_pageserver s) tenantID) (\<lambda>_. writeErr 500 (Error e)))
       (\<lambda>_. case connectionURI s endpointID ''firth'' password ''appdb'' of (host, uri) \<Rightarrow>
          writeJSON 201 (JObj
            [(''branch_id'', JStr branchID),
             (''connection_uri'', JStr uri),
             (''database'', JStr ''appdb''),
             (''endpoint_id'', JStr endpointID),
             (''host'', JStr host),
             (''password'', JStr password),
             (''port'', JInt (cf_proxy_port (sv_cfg s))),
             (''project_id'', JStr projectID),
             (''role'', JStr ''firth'')])))))"

definition createProject :: "server \<Rightarrow> handler" where
  "createProject s r =
     (case decode_create_project (in_body r) of
        None \<Rightarrow> writeErr 400 ''name required''
      | Some (name, secs) \<Rightarrow>
          bind NewHex32 (\<lambda>tenantID. bind NewHex32 (\<lambda>timelineID. bind NewProjectID (\<lambda>projectID.
          bind NewBranchID (\<lambda>branchID. bind NewEndpointID (\<lambda>endpointID.
          check RandomPassword (\<lambda>e. writeErr 500 (Error e)) (\<lambda>password.
          check (BuildVerifier (sv_pbkdf2 s) password) (\<lambda>e. writeErr 500 (Error e)) (\<lambda>verifier.
            provision_project s name secs (tenantID, timelineID, projectID, branchID, endpointID)
              password verifier))))))))"

text \<open>The store's lookup of the project named in the path, with its 404 and 500 answers.\<close>

definition with_project :: "string \<Rightarrow> (project \<Rightarrow> response prog) \<Rightarrow> response prog" where
  "with_project i k =
     check (GetProjectByID i)
       (\<lambda>e. if is_NotFound e then writeErr 404 ''project not found'' else writeErr 500 (Error e)) k"

fun describe_branches :: "server \<Rightarrow> branch list \<Rightarrow> json list \<Rightarrow> (err + json list) prog" where
  "describe_branches s [] out = returns out"
| "describe_branches s (b # bs) out =
     check (GetEndpointByBranch (b_id b)) fails (\<lambda>ep.
       describe_branches s bs (out @ [JObj
         [(''branch_id'', JStr (b_id b)),
          (''endpoint_id'', JStr (e_id ep)),
          (''host'', JStr (sprintf ''%s.%s'' [Str (e_id ep), Str (cf_domain (sv_cfg s))])),
          (''is_default'', JBool (b_default b)),
          (''name'', JStr (b_name b)),
          (''state'', JStr (e_state ep)),
          (''timeline_id'', JStr (b_timeline b))]]))"

definition getProject :: "server \<Rightarrow> handler" where
  "getProject s r =
     with_project (in_id r) (\<lambda>p.
     check (ListBranchesByProject (p_id p)) (\<lambda>e. writeErr 500 (Error e)) (\<lambda>bs.
     check (describe_branches s bs []) (\<lambda>e. writeErr 500 (Error e)) (\<lambda>out.
       writeJSON 200 (JObj
         [(''branches'', JArr out),
          (''name'', JStr (p_name p)),
          (''project_id'', JStr (p_id p)),
          (''tenant_id'', JStr (p_tenant p))]))))"

section \<open>Branches\<close>

definition decode_create_branch :: "payload \<Rightarrow> (string \<times> string) option" where
  "decode_create_branch p =
     (case struct_members (pl_value p) of (kvs, bad) \<Rightarrow>
        (let nm = dec_string ''name'' [] kvs; pa = dec_string ''parent_branch_id'' [] kvs
         in if bad \<or> snd nm \<or> snd pa \<or> fst nm = [] then None else Some (fst nm, fst pa)))"

fun ingest_loop ::
  "nat \<Rightarrow> server \<Rightarrow> string \<Rightarrow> string \<Rightarrow> string \<Rightarrow> time \<Rightarrow> (err + string) prog" where
  "ingest_loop 0 s tenantID timelineID commit deadline = Diverge"
| "ingest_loop (Suc n) s tenantID timelineID commit deadline =
     check (GetTimeline (sv_pageserver s) tenantID timelineID) fails (\<lambda>detail.
       case AtLeast (td_last_record_lsn detail) commit of
         Inl e \<Rightarrow> fails e
       | Inr caught \<Rightarrow>
           if caught then returns commit
           else Now (\<lambda>now.
             if now > deadline
             then fails (Errorf ''pageserver did not reach lsn %s (at %s)''
                    [Str commit, Str (td_last_record_lsn detail)])
             else Sleep (200 * millisecond) (\<lambda>c.
               case c of Some e \<Rightarrow> fails e | None \<Rightarrow> ingest_loop n s tenantID timelineID commit deadline)))"

definition waitAncestorIngested :: "nat \<Rightarrow> server \<Rightarrow> string \<Rightarrow> string \<Rightarrow> (err + string) prog" where
  "waitAncestorIngested n s tenantID timelineID =
     check (sv_safekeeper s tenantID timelineID)
       (\<lambda>e. fails (Wrapf ''commit lsn: %w'' [] e))
       (\<lambda>commit. Now (\<lambda>now. ingest_loop n s tenantID timelineID commit (now + 30 * second)))"

text \<open>The ancestor: the explicit parent or the default branch; the answer when there is none.\<close>

definition resolve_parent :: "project \<Rightarrow> string \<Rightarrow> (branch \<Rightarrow> response prog) \<Rightarrow> response prog" where
  "resolve_parent p parentID k =
     (if parentID \<noteq> [] then
        check (GetBranchByID parentID)
          (\<lambda>e. if is_NotFound e then writeErr 400 ''parent branch not found in project''
               else writeErr 500 (Error e))
          (\<lambda>parent. if b_project parent \<noteq> p_id p
             then writeErr 400 ''parent branch not found in project'' else k parent)
      else
        check (ListBranchesByProject (p_id p)) (\<lambda>e. writeErr 500 (Error e)) (\<lambda>bs.
          case List.find b_default bs of
            None \<Rightarrow> writeErr 500 ''project has no default branch''
          | Some parent \<Rightarrow> k parent))"

text \<open>From the moment the identifiers are known.\<close>

definition provision_branch ::
  "nat \<Rightarrow> server \<Rightarrow> project \<Rightarrow> branch \<Rightarrow> string \<Rightarrow> string \<times> string \<times> string \<Rightarrow> response prog" where
  "provision_branch n s p parent name = (\<lambda>(branchID, endpointID, timelineID).
     check (waitAncestorIngested n s (p_tenant p) (b_timeline parent))
       (\<lambda>e. writeErr 502 (''branch point not ready: '' @ Error e)) (\<lambda>startLSN.
     check (CreateBranchAtLSN (sv_pageserver s) (p_tenant p) timelineID (b_timeline parent) startLSN)
       (\<lambda>e. writeErr 502 (''pageserver: '' @ Error e)) (\<lambda>_.
     check (CreateBranch
         \<lparr>b_id = branchID, b_project = p_id p, b_name = name, b_timeline = timelineID,
          b_parent = Some (b_id parent), b_default = False\<rparr>
         (new_endpoint endpointID branchID 0))
       (\<lambda>e. bind (DeleteTimeline n (sv_pageserver s) (p_tenant p) timelineID)
              (\<lambda>_. writeErr 500 (Error e)))
       (\<lambda>_. let host = sprintf ''%s.%s'' [Str endpointID, Str (cf_domain (sv_cfg s))] in
          writeJSON 201 (JObj
            [(''branch_id'', JStr branchID),
             (''connection_uri'', JStr (sprintf ''postgresql://%s@%s:%d/appdb?sslmode=require''
                [Str (p_role p), Str host, Num (cf_proxy_port (sv_cfg s))])),
             (''database'', JStr ''appdb''),
             (''endpoint_id'', JStr endpointID),
             (''host'', JStr host),
             (''password'', JNull),
             (''port'', JInt (cf_proxy_port (sv_cfg s))),
             (''role'', JStr (p_role p))])))))"

definition createBranch :: "nat \<Rightarrow> server \<Rightarrow> handler" where
  "createBranch n s r =
     (case decode_create_branch (in_body r) of
        None \<Rightarrow> writeErr 400 ''name required''
      | Some (name, parentID) \<Rightarrow>
          with_project (in_id r) (\<lambda>p.
          resolve_parent p parentID (\<lambda>parent.
          bind NewBranchID (\<lambda>branchID. bind NewEndpointID (\<lambda>endpointID. bind NewHex32 (\<lambda>timelineID.
            provision_branch n s p parent name (branchID, endpointID, timelineID)))))))"

text \<open>Stopping a branch's compute: best effort, and nothing when the branch has no endpoint.\<close>

definition stop_branch :: "server \<Rightarrow> string \<Rightarrow> unit prog" where
  "stop_branch s branchID =
     check (GetEndpointByBranch branchID) (\<lambda>_. Return ())
       (\<lambda>ep. bind (rt_Stop (sv_runtime s) (e_id ep)) (\<lambda>_. Return ()))"

definition deleteBranch :: "nat \<Rightarrow> server \<Rightarrow> handler" where
  "deleteBranch n s r =
     check (GetBranchByID (in_bid r))
       (\<lambda>e. if is_NotFound e then writeErr 404 ''branch not found'' else writeErr 500 (Error e))
       (\<lambda>b.
          if b_project b \<noteq> in_id r then writeErr 404 ''branch not found''
          else if b_default b
          then writeErr 400 ''cannot delete the default branch; delete the project instead''
          else
            check (GetProjectByID (b_project b)) (\<lambda>e. writeErr 500 (Error e)) (\<lambda>p.
            bind (stop_branch s (b_id b)) (\<lambda>_.
            check (DeleteTimeline n (sv_pageserver s) (p_tenant p) (b_timeline b))
              (\<lambda>e. writeErr 502 (''pageserver: '' @ Error e)) (\<lambda>_.
            check (DeleteBranch (b_id b)) (\<lambda>e. writeErr 500 (Error e)) (\<lambda>_.
              writeJSON 200 (JObj [(''deleted'', JStr (b_id b))]))))))"

fun stop_branches :: "server \<Rightarrow> branch list \<Rightarrow> unit prog" where
  "stop_branches s [] = Return ()"
| "stop_branches s (b # bs) = bind (stop_branch s (b_id b)) (\<lambda>_. stop_branches s bs)"

definition deleteProject :: "server \<Rightarrow> handler" where
  "deleteProject s r =
     with_project (in_id r) (\<lambda>p.
     check (ListBranchesByProject (p_id p)) (\<lambda>e. writeErr 500 (Error e)) (\<lambda>bs.
     bind (stop_branches s bs) (\<lambda>_.
     check (DeleteTenant (sv_pageserver s) (p_tenant p))
       (\<lambda>e. writeErr 502 (''pageserver: '' @ Error e)) (\<lambda>_.
     check (DeleteProject (p_id p)) (\<lambda>e. writeErr 500 (Error e)) (\<lambda>_.
       writeJSON 200 (JObj [(''deleted'', JStr (p_id p))]))))))"

section \<open>Usage and debugging\<close>

fun usage_loop ::
  "server \<Rightarrow> string \<Rightarrow> branch list \<Rightarrow> 64 word \<Rightarrow> json list \<Rightarrow> (err + 64 word \<times> json list) prog" where
  "usage_loop s tenantID [] tot out = returns (tot, out)"
| "usage_loop s tenantID (b # bs) tot out =
     check (GetTimeline (sv_pageserver s) tenantID (b_timeline b)) fails (\<lambda>detail.
       usage_loop s tenantID bs (tot + td_logical_size detail) (out @ [JObj
         [(''branch_id'', JStr (b_id b)),
          (''logical_size_bytes'', JInt (uint (td_logical_size detail))),
          (''name'', JStr (b_name b))]]))"

definition usage :: "server \<Rightarrow> handler" where
  "usage s r =
     with_project (in_id r) (\<lambda>p.
     check (ListBranchesByProject (p_id p)) (\<lambda>e. writeErr 500 (Error e)) (\<lambda>bs.
     check (usage_loop s (p_tenant p) bs 0 []) (\<lambda>e. writeErr 502 (''pageserver: '' @ Error e))
       (\<lambda>(tot, out).
          writeJSON 200 (JObj
            [(''branches'', JArr out), (''total_logical_size_bytes'', JInt (uint tot))]))))"

definition debugStart :: "server \<Rightarrow> handler" where
  "debugStart s r =
     check (sv_waker s (in_id r)) (\<lambda>e. writeErr 502 (Error e))
       (\<lambda>addr. writeJSON 200 (JObj [(''address'', JStr addr)]))"

definition debugStop :: "server \<Rightarrow> handler" where
  "debugStop s r =
     check (rt_Stop (sv_runtime s) (in_id r)) (\<lambda>e. writeErr 500 (Error e)) (\<lambda>_.
     check (SetEndpointSuspended (in_id r)) (\<lambda>e. writeErr 500 (Error e)) (\<lambda>_.
       writeJSON 200 (JObj [(''state'', JStr ''suspended'')])))"

section \<open>Routes\<close>

text \<open>
  \<^verbatim>\<open>http.ServeMux\<close> for the patterns in use. A path is the list of its segments, none
  empty (the mux redirects an unclean path to the clean one). A pattern is a method and a
  list of literals and wildcards; \<^verbatim>\<open>GET\<close> also answers \<^verbatim>\<open>HEAD\<close>. No two patterns in use match
  the same request, so the order of registration does not matter. A path that only other
  methods' patterns match is answered by 405, any other by 404.
\<close>

datatype segment = Lit string | Wild string

record route =
  rt_method :: string
  rt_path :: "segment list"
  rt_handler :: handler

fun match_path :: "segment list \<Rightarrow> string list \<Rightarrow> (string \<times> string) list option" where
  "match_path [] [] = Some []"
| "match_path (Lit l # ps) (x # xs) = (if x = l then match_path ps xs else None)"
| "match_path (Wild w # ps) (x # xs) =
     (if x = [] then None else map_option ((#) (w, x)) (match_path ps xs))"
| "match_path _ _ = None"

definition match_method :: "string \<Rightarrow> string \<Rightarrow> bool" where
  "match_method pat m \<longleftrightarrow> m = pat \<or> pat = ''GET'' \<and> m = ''HEAD''"

definition path_value :: "(string \<times> string) list \<Rightarrow> string \<Rightarrow> string" where
  "path_value vs w = (case map_of vs w of Some x \<Rightarrow> x | None \<Rightarrow> [])"

fun serve_routes :: "route list \<Rightarrow> bool \<Rightarrow> string \<Rightarrow> string list \<Rightarrow> request \<Rightarrow> response prog" where
  "serve_routes [] seen m path r =
     (if seen then writeJSON 405 (JStr ''Method Not Allowed'') else writeJSON 404 (JStr ''404 page not found''))"
| "serve_routes (rt # rts) seen m path r =
     (case match_path (rt_path rt) path of
        None \<Rightarrow> serve_routes rts seen m path r
      | Some vs \<Rightarrow>
          if match_method (rt_method rt) m
          then rt_handler rt (r\<lparr>in_id := path_value vs ''id'', in_bid := path_value vs ''bid''\<rparr>)
          else serve_routes rts True m path r)"

definition healthz :: handler where
  "healthz r = writeJSON 200 (JStr [])"

definition Routes :: "nat \<Rightarrow> server \<Rightarrow> route list" where
  "Routes n s =
     (let v1 = requireAuth s in
      [\<lparr>rt_method = ''POST'', rt_path = [Lit ''v1'', Lit ''projects''], rt_handler = v1 (createProject s)\<rparr>,
       \<lparr>rt_method = ''GET'', rt_path = [Lit ''v1'', Lit ''projects'', Wild ''id''], rt_handler = v1 (getProject s)\<rparr>,
       \<lparr>rt_method = ''DELETE'', rt_path = [Lit ''v1'', Lit ''projects'', Wild ''id''], rt_handler = v1 (deleteProject s)\<rparr>,
       \<lparr>rt_method = ''POST'', rt_path = [Lit ''v1'', Lit ''projects'', Wild ''id'', Lit ''branches''],
         rt_handler = v1 (createBranch n s)\<rparr>,
       \<lparr>rt_method = ''DELETE'', rt_path = [Lit ''v1'', Lit ''projects'', Wild ''id'', Lit ''branches'', Wild ''bid''],
         rt_handler = v1 (deleteBranch n s)\<rparr>,
       \<lparr>rt_method = ''GET'', rt_path = [Lit ''v1'', Lit ''projects'', Wild ''id'', Lit ''usage''],
         rt_handler = v1 (usage s)\<rparr>]
      @ (if cf_enable_debug (sv_cfg s) then
          [\<lparr>rt_method = ''POST'', rt_path = [Lit ''v1'', Lit ''debug'', Lit ''endpoints'', Wild ''id'', Lit ''start''],
             rt_handler = v1 (debugStart s)\<rparr>,
           \<lparr>rt_method = ''POST'', rt_path = [Lit ''v1'', Lit ''debug'', Lit ''endpoints'', Wild ''id'', Lit ''stop''],
             rt_handler = v1 (debugStop s)\<rparr>]
         else [])
      @ [\<lparr>rt_method = ''GET'', rt_path = [Lit ''healthz''], rt_handler = healthz\<rparr>])"

text \<open>The generators of identifiers and secrets only draw random bytes.\<close>

fun is_rand :: "event \<Rightarrow> bool" where
  "is_rand (ERand n r) = True"
| "is_rand _ = False"

lemma rand_emits:
  "emits is_rand NewHex32" "emits is_rand NewProjectID" "emits is_rand NewBranchID"
  "emits is_rand NewEndpointID" "emits is_rand RandomPassword" "emits is_rand (BuildVerifier f pw)"
  by (auto simp: emits_def NewHex32_def NewProjectID_def NewBranchID_def NewEndpointID_def randHex_def
      RandomPassword_def BuildVerifier_def split: sum.split)

end
