(* ===== verification/Proxycontract.thy ===== *)
theory Proxycontract
  imports Api
begin

text \<open>
  \<^verbatim>\<open>internal/proxycontract/handlers.go\<close>: the API the Neon proxy calls. The interface \<^verbatim>\<open>Waker\<close>
  is the function it consists of.
\<close>

text \<open>The wire format of \<^verbatim>\<open>controlPlaneError\<close>: \<^verbatim>\<open>error_info\<close> is omitted when there is no reason.\<close>

definition writeCPError :: "int \<Rightarrow> string \<Rightarrow> string \<Rightarrow> string \<Rightarrow> response prog" where
  "writeCPError httpCode msg code reason =
     writeJSON httpCode (JObj
       [(''error'', JStr msg),
        (''status'', JObj
          [(''code'', JStr code),
           (''message'', JStr msg),
           (''details'', JObj
             (if reason \<noteq> [] then [(''error_info'', JObj [(''reason'', JStr reason)])] else []))])])"

text \<open>The lookup of the endpoint both handlers begin with.\<close>

definition with_access :: "string \<Rightarrow> (access_control \<Rightarrow> response prog) \<Rightarrow> response prog" where
  "with_access endpoint k =
     check (GetAccessControl endpoint)
       (\<lambda>e. if is_NotFound e
            then writeCPError 404 ''endpoint not found'' ''NOT_FOUND'' ''ENDPOINT_NOT_FOUND''
            else writeCPError 500 ''internal error'' ''INTERNAL'' [])
       k"

definition accessControl :: handler where
  "accessControl r =
     (let role = in_query r ''role'' in
      with_access (in_query r ''endpointish'') (\<lambda>ac.
        let secret = (if role = ac_role ac then ac_verifier ac else []) in
        writeJSON 200 (JObj
          [(''allowed_ips'', JNull),
           (''project_id'', JStr (ac_project ac)),
           (''role_secret'', JStr secret)])))"

definition wakeCompute :: "(string \<Rightarrow> (err + string) prog) \<Rightarrow> handler" where
  "wakeCompute wake r =
     (let endpoint = in_query r ''endpointish'' in
      with_access endpoint (\<lambda>ac.
        check (wake endpoint)
          (\<lambda>e. writeCPError 500 (''failed to wake compute: '' @ Error e) ''INTERNAL'' [])
          (\<lambda>addr. writeJSON 200 (JObj
             [(''address'', JStr addr),
              (''aux'', JObj
                [(''branch_id'', JStr (ac_branch ac)),
                 (''cold_start_info'', JStr ''unknown''),
                 (''compute_id'', JStr (''compute-'' @ endpoint)),
                 (''endpoint_id'', JStr endpoint),
                 (''project_id'', JStr (ac_project ac))])]))))"

definition jwks :: handler where
  "jwks r = writeJSON 200 (JObj [(''jwks'', JArr [])])"

definition Register :: "(string \<Rightarrow> (err + string) prog) \<Rightarrow> route list" where
  "Register wake =
     [\<lparr>rt_method = ''GET'', rt_path = [Lit ''proxy'', Lit ''api'', Lit ''get_endpoint_access_control''],
        rt_handler = accessControl\<rparr>,
      \<lparr>rt_method = ''GET'', rt_path = [Lit ''proxy'', Lit ''api'', Lit ''proxy_get_role_secret''],
        rt_handler = accessControl\<rparr>,
      \<lparr>rt_method = ''GET'', rt_path = [Lit ''proxy'', Lit ''api'', Lit ''wake_compute''],
        rt_handler = wakeCompute wake\<rparr>,
      \<lparr>rt_method = ''GET'', rt_path = [Lit ''proxy'', Lit ''api'', Lit ''proxy_wake_compute''],
        rt_handler = wakeCompute wake\<rparr>,
      \<lparr>rt_method = ''GET'', rt_path = [Lit ''proxy'', Lit ''api'', Lit ''endpoints'', Wild ''endpoint'', Lit ''jwks''],
        rt_handler = jwks\<rparr>]"

end
