(* ===== verification/Duration.thy ===== *)
theory Duration
  imports Prelude
begin

text \<open>
  \<^verbatim>\<open>time.ParseDuration\<close> of the standard library, which reads \<^verbatim>\<open>SUSPEND_CHECK_INTERVAL\<close>: a sign
  and a sequence of decimal numbers, each with an optional fraction and a unit. The
  accumulators are 64-bit words that are kept at most \<open>2 ^ 63\<close>. A fraction is computed in
  double precision, which \<open>round53\<close> writes out: a positive rational to the nearest binary
  fraction of 53 significant bits, ties to even.
\<close>

section \<open>The loops of the parser\<close>

definition is_digit :: "char \<Rightarrow> bool" where
  "is_digit c \<longleftrightarrow> (let n = (of_char c :: nat) in 48 \<le> n \<and> n \<le> 57)"

definition digit_word :: "char \<Rightarrow> 64 word" where
  "digit_word c = word_of_nat (of_char c) - 48"

abbreviation two63 :: "64 word" where "two63 \<equiv> 0x8000000000000000"

text \<open>\<^verbatim>\<open>leadingInt\<close>: the leading digits as a number, None when it exceeds \<open>2 ^ 63\<close>.\<close>

fun leadingInt :: "64 word \<Rightarrow> string \<Rightarrow> (64 word \<times> string) option" where
  "leadingInt x [] = Some (x, [])"
| "leadingInt x (c # s) =
     (if \<not> is_digit c then Some (x, c # s)
      else if x > two63 div 10 then None
      else (let x' = x * 10 + digit_word c in if x' > two63 then None else leadingInt x' s))"

text \<open>\<^verbatim>\<open>leadingFraction\<close>: the digits that fit and their number; the others are skipped.\<close>

fun leadingFraction :: "64 word \<Rightarrow> nat \<Rightarrow> bool \<Rightarrow> string \<Rightarrow> 64 word \<times> nat \<times> string" where
  "leadingFraction x k overflow [] = (x, k, [])"
| "leadingFraction x k overflow (c # s) =
     (if \<not> is_digit c then (x, k, c # s)
      else if overflow \<or> x > (two63 - 1) div 10 then leadingFraction x k True s
      else (let y = x * 10 + digit_word c in
        if y > two63 then leadingFraction x k True s else leadingFraction y (k + 1) False s))"

definition unit_of :: "string \<Rightarrow> 64 word option" where
  "unit_of u =
     map_of [(''ns'', 1), (''us'', 1000),
       ([CHR 0xC2, CHR 0xB5, CHR ''s''], 1000), ([CHR 0xCE, CHR 0xBC, CHR ''s''], 1000),
       (''ms'', 1000000), (''s'', 1000000000), (''m'', 60000000000), (''h'', 3600000000000)] u"

section \<open>The fraction in double precision\<close>

text \<open>A double \<open>(m, e)\<close> is \<open>m * 2 powi e\<close>. \<open>round53 a b\<close> is the one nearest to \<open>a / b\<close>.\<close>

fun bit_length :: "nat \<Rightarrow> nat" where
  "bit_length n = (if n = 0 then 0 else Suc (bit_length (n div 2)))"

declare bit_length.simps [simp del]

definition round_div :: "nat \<Rightarrow> nat \<Rightarrow> nat" where
  "round_div a b =
     (let q = a div b; r = a mod b in if 2 * r < b \<or> 2 * r = b \<and> even q then q else q + 1)"

definition scaled :: "int \<Rightarrow> nat \<times> nat \<Rightarrow> nat \<times> nat" where
  "scaled e = (\<lambda>(a, b). if 0 \<le> e then (a, b * 2 ^ nat e) else (a * 2 ^ nat (- e), b))"

definition round53 :: "nat \<Rightarrow> nat \<Rightarrow> nat \<times> int" where
  "round53 a b =
     (if a = 0 then (0, 0)
      else (let e0 = int (bit_length a) - int (bit_length b) - 53;
                e = (case scaled e0 (a, b) of (a', b') \<Rightarrow> if a' div b' < 2 ^ 53 then e0 else e0 + 1)
            in (case scaled e (a, b) of (a', b') \<Rightarrow> (round_div a' b', e))))"

text \<open>The quotient and the product of two doubles, and \<^verbatim>\<open>uint64\<close> of one.\<close>

definition as_ratio :: "nat \<times> int \<Rightarrow> nat \<times> nat" where
  "as_ratio = (\<lambda>(m, e). if 0 \<le> e then (m * 2 ^ nat e, 1) else (m, 2 ^ nat (- e)))"

definition fdiv :: "nat \<times> int \<Rightarrow> nat \<times> int \<Rightarrow> nat \<times> int" where
  "fdiv x y = (case (as_ratio x, as_ratio y) of ((a, b), (c, d)) \<Rightarrow> round53 (a * d) (b * c))"

definition fmul :: "nat \<times> int \<Rightarrow> nat \<times> int \<Rightarrow> nat \<times> int" where
  "fmul x y = (case (as_ratio x, as_ratio y) of ((a, b), (c, d)) \<Rightarrow> round53 (a * c) (b * d))"

definition truncate :: "nat \<times> int \<Rightarrow> nat" where
  "truncate x = (case as_ratio x of (a, b) \<Rightarrow> a div b)"

text \<open>\<^verbatim>\<open>float64(f) * (float64(unit) / scale)\<close> with the scale \<open>10 ^ k\<close>.\<close>

definition fraction_of :: "64 word \<Rightarrow> nat \<Rightarrow> 64 word \<Rightarrow> 64 word" where
  "fraction_of f k u =
     word_of_nat (truncate (fmul (round53 (unat f) 1) (fdiv (round53 (unat u) 1) (round53 (10 ^ k) 1))))"

section \<open>ParseDuration\<close>

text \<open>The quotation of \<^verbatim>\<open>package time\<close>: control characters and bytes above 127 in hexadecimal.\<close>

definition time_quote :: "string \<Rightarrow> string" where
  "time_quote s =
     CHR 0x22 # concat (map (\<lambda>c. let n = (of_char c :: nat) in
        if n \<ge> 128 \<or> n < 32 then [CHR 0x5C, CHR ''x'', digit (n div 16), digit (n mod 16)]
        else if c = CHR 0x22 \<or> c = CHR 0x5C then [CHR 0x5C, c] else [c]) s) @ [CHR 0x22]"

definition bad_duration :: "string \<Rightarrow> err" where
  "bad_duration orig = ExtErr (''time: invalid duration '' @ time_quote orig)"

text \<open>One number with its unit: its value and the rest of the text.\<close>

definition parse_part :: "string \<Rightarrow> string \<Rightarrow> err + 64 word \<times> string" where
  "parse_part orig s =
     (if s = [] \<or> \<not> (hd s = CHR ''.'' \<or> is_digit (hd s)) then Inl (bad_duration orig)
      else (case leadingInt 0 s of
        None \<Rightarrow> Inl (bad_duration orig)
      | Some (v, s1) \<Rightarrow>
        (let pre = length s1 \<noteq> length s;
             (f, k, s2, post) =
               (if s1 \<noteq> [] \<and> hd s1 = CHR ''.''
                then (case leadingFraction 0 0 False (tl s1) of
                        (f, k, s2) \<Rightarrow> (f, k, s2, length s2 \<noteq> length (tl s1)))
                else (0, 0, s1, False));
             u = takeWhile (\<lambda>c. \<not> (c = CHR ''.'' \<or> is_digit c)) s2;
             s3 = drop (length u) s2
         in if \<not> pre \<and> \<not> post then Inl (bad_duration orig)
            else if u = [] then Inl (ExtErr (''time: missing unit in duration '' @ time_quote orig))
            else (case unit_of u of
                None \<Rightarrow> Inl (ExtErr (''time: unknown unit '' @ time_quote u @ '' in duration '' @ time_quote orig))
              | Some un \<Rightarrow>
                  if v > two63 div un then Inl (bad_duration orig)
                  else (let w = v * un; w' = (if f > 0 then w + fraction_of f k un else w) in
                    if f > 0 \<and> w' > two63 then Inl (bad_duration orig) else Inr (w', s3))))))"

lemma leadingInt_rest: "leadingInt x s = Some (v, r) \<Longrightarrow> length r \<le> length s"
  by (induction x s rule: leadingInt.induct) (auto simp: Let_def split: if_splits)

lemma leadingFraction_rest: "leadingFraction x k ov s = (f, k', r) \<Longrightarrow> length r \<le> length s"
  by (induction x k ov s rule: leadingFraction.induct) (fastforce simp: Let_def split: if_splits)+

lemma parse_part_shorter: "parse_part orig s = Inr (w, r) \<Longrightarrow> length r < length s"
  by (auto simp: parse_part_def Let_def split: list.splits if_splits option.splits prod.splits
      dest!: leadingInt_rest leadingFraction_rest)

function parse_parts :: "string \<Rightarrow> 64 word \<Rightarrow> string \<Rightarrow> err + 64 word" where
  "parse_parts orig d s =
     (if s = [] then Inr d
      else (case parse_part orig s of
          Inl e \<Rightarrow> Inl e
        | Inr (v, r) \<Rightarrow>
            (let d' = d + v in if d' > two63 then Inl (bad_duration orig) else parse_parts orig d' r)))"
  by pat_completeness auto
termination
  by (relation "measure (\<lambda>(_, _, s). length s)") (auto dest: parse_part_shorter)

declare parse_parts.simps [simp del]

text \<open>The result is a signed 64-bit number of nanoseconds.\<close>

definition ParseDuration :: "string \<Rightarrow> err + duration" where
  "ParseDuration orig =
     (let signed = orig \<noteq> [] \<and> (hd orig = CHR ''-'' \<or> hd orig = CHR ''+'');
          neg = (orig \<noteq> [] \<and> hd orig = CHR ''-'');
          s = (if signed then tl orig else orig)
      in if s = ''0'' then Inr 0
         else if s = [] then Inl (bad_duration orig)
         else (case parse_parts orig 0 s of
             Inl e \<Rightarrow> Inl e
           | Inr d \<Rightarrow>
               if neg then Inr (sint (- d))
               else if d > two63 - 1 then Inl (bad_duration orig) else Inr (sint d)))"

section \<open>The number a duration writes\<close>

text \<open>Whole numbers with units, such as \<^verbatim>\<open>1h30m\<close>, and their sum in nanoseconds.\<close>

definition write_parts :: "(nat \<times> string) list \<Rightarrow> string" where
  "write_parts ps = concat (map (\<lambda>(n, u). dec_nat n @ u) ps)"

definition part_value :: "nat \<times> string \<Rightarrow> nat" where
  "part_value = (\<lambda>(n, u). case unit_of u of None \<Rightarrow> 0 | Some w \<Rightarrow> n * unat w)"

definition is_part :: "nat \<times> string \<Rightarrow> bool" where
  "is_part p \<longleftrightarrow> unit_of (snd p) \<noteq> None \<and> part_value p < 2 ^ 63"

definition digits_from :: "nat \<Rightarrow> string \<Rightarrow> nat" where
  "digits_from x s = foldl (\<lambda>v c. v * 10 + (of_char c - 48)) x s"

lemma digits_from_simps [simp]:
  "digits_from x [] = x" "digits_from x (c # s) = digits_from (x * 10 + (of_char c - 48)) s"
  "digits_from x (s @ t) = digits_from (digits_from x s) t"
  by (simp_all add: digits_from_def)

lemma digits_from_ge: "x \<le> digits_from x s"
proof (induction s arbitrary: x)
  case (Cons c s)
  from Cons [of "x * 10 + (of_char c - 48)"] show ?case by simp
qed simp

lemma digit_code: "n < 10 \<Longrightarrow> (of_char (digit n) :: nat) = 48 + n"
proof -
  assume "n < 10"
  then have "n \<in> {0, 1, 2, 3, 4, 5, 6, 7, 8, 9}" by auto
  then show ?thesis by (auto simp: digit_def)
qed

lemma digits_from_dec: "digits_from 0 (dec_nat n) = n"
proof (induction n rule: dec_nat.induct)
  case (1 n)
  then show ?case by (subst dec_nat.simps) (auto simp: digit_code)
qed

lemma is_digit_digit: "n < 10 \<Longrightarrow> is_digit (digit n)"
  by (simp add: is_digit_def digit_code)

lemma dec_digits: "list_all is_digit (dec_nat n)"
proof (induction n rule: dec_nat.induct)
  case (1 n)
  then show ?case by (subst dec_nat.simps) (auto simp: is_digit_digit)
qed

abbreviation no_digit :: "string \<Rightarrow> bool" where
  "no_digit r \<equiv> r = [] \<or> \<not> is_digit (hd r)"

lemma word_below: "n \<le> 2 ^ 63 \<Longrightarrow> unat (word_of_nat n :: 64 word) = n"
  by (simp add: unat_of_nat)

lemma two63_less: "n \<le> 2 ^ 63 \<Longrightarrow> \<not> two63 < word_of_nat n"
  by (simp add: word_less_nat_alt unat_of_nat)

lemma two63_beyond: "2 ^ 63 < n \<Longrightarrow> n < 2 ^ 64 \<Longrightarrow> two63 < word_of_nat n"
  by (simp add: word_less_nat_alt unat_of_nat)

lemma leadingInt_digits:
  "list_all is_digit ds \<Longrightarrow> no_digit r \<Longrightarrow> digits_from x ds \<le> 2 ^ 63 \<Longrightarrow>
   leadingInt (word_of_nat x) (ds @ r) = Some (word_of_nat (digits_from x ds), r)"
proof (induction ds arbitrary: x)
  case Nil
  then show ?case by (cases r) auto
next
  case (Cons c ds)
  let ?y = "x * 10 + (of_char c - 48)"
  have y: "?y \<le> 2 ^ 63" using Cons.prems(3) digits_from_ge [of ?y ds] by simp
  have "\<not> two63 div 10 < word_of_nat x"
    using y by (simp add: word_less_nat_alt unat_div unat_of_nat)
  moreover have "word_of_nat x * 10 + digit_word c = (word_of_nat ?y :: 64 word)"
    using Cons.prems(1) by (simp add: digit_word_def is_digit_def Let_def of_nat_diff)
  moreover have "\<not> two63 < word_of_nat ?y"
    by (rule two63_less [OF y])
  moreover have "leadingInt (word_of_nat ?y) (ds @ r) = Some (word_of_nat (digits_from ?y ds), r)"
    using Cons.prems by (intro Cons.IH) simp_all
  ultimately show ?case using Cons.prems(1) by (simp del: of_nat_add of_nat_mult of_nat_diff)
qed

lemma unit_parts:
  assumes "unit_of u = Some w"
  shows "u \<noteq> []" "\<not> is_digit (hd u)" "hd u \<noteq> CHR ''.''" "0 < unat w"
    "list_all (\<lambda>c. \<not> (c = CHR ''.'' \<or> is_digit c)) u"
  using assms by (auto simp: unit_of_def is_digit_def split: if_splits)

lemma takeWhile_stops:
  "list_all P u \<Longrightarrow> r = [] \<or> \<not> P (hd r) \<Longrightarrow> takeWhile P (u @ r) = u"
  by (cases r) (auto simp: takeWhile_append list_all_iff)

lemma parse_part_whole:
  assumes u: "unit_of u = Some w" and n: "n * unat w < 2 ^ 63" and r: "r = [] \<or> is_digit (hd r)"
  shows "parse_part orig (dec_nat n @ u @ r) = Inr (word_of_nat (n * unat w), r)"
proof -
  note parts = unit_parts [OF u]
  have "n \<le> n * unat w" using parts(4) by simp
  then have n': "n \<le> 2 ^ 63" using n by linarith
  have v: "leadingInt 0 (dec_nat n @ u @ r) = Some (word_of_nat n, u @ r)"
    using leadingInt_digits [OF dec_digits, of "u @ r" 0 n] n' parts by (simp add: digits_from_dec)
  have "takeWhile (\<lambda>c. \<not> (c = CHR ''.'' \<or> is_digit c)) (u @ r) = u"
    using parts(5) r by (intro takeWhile_stops) auto
  moreover have "is_digit (hd (dec_nat n))"
    using dec_digits [of n] by (cases "dec_nat n") auto
  moreover have "n \<le> 2 ^ 63 div unat w" using n parts(4) by (simp add: less_eq_div_iff_mult_less_eq)
  then have "\<not> two63 div w < word_of_nat n"
    using n' by (simp add: word_less_nat_alt unat_div word_below)
  ultimately show ?thesis
    using v u parts by (simp add: parse_part_def Let_def)
qed

lemma parse_parts_whole:
  "list_all is_part ps \<Longrightarrow> d \<le> 2 ^ 63 \<Longrightarrow>
   parse_parts orig (word_of_nat d) (write_parts ps) =
     (if d + sum_list (map part_value ps) \<le> 2 ^ 63
      then Inr (word_of_nat (d + sum_list (map part_value ps))) else Inl (bad_duration orig))"
proof (induction ps arbitrary: d)
  case Nil
  then show ?case by (simp add: write_parts_def parse_parts.simps)
next
  case (Cons p ps)
  obtain n u where p: "p = (n, u)" by (cases p)
  with Cons.prems obtain w where w: "unit_of u = Some w" "n * unat w < 2 ^ 63" "part_value p = n * unat w"
    by (auto simp: is_part_def part_value_def)
  let ?r = "write_parts ps"
  have shape: "write_parts (p # ps) = dec_nat n @ u @ ?r" by (simp add: p write_parts_def)
  have "?r = [] \<or> is_digit (hd ?r)"
  proof (cases ps)
    case (Cons q qs)
    then show ?thesis using dec_digits [of "fst q"]
      by (cases "dec_nat (fst q)") (auto simp: write_parts_def split: prod.split)
  qed (simp add: write_parts_def)
  note part = parse_part_whole [OF w(1,2) this, of orig]
  have step: "parse_parts orig (word_of_nat d) (write_parts (p # ps)) =
      (if word_of_nat (d + n * unat w) > two63 then Inl (bad_duration orig)
       else parse_parts orig (word_of_nat (d + n * unat w)) ?r)"
    unfolding shape by (subst parse_parts.simps) (simp add: part Let_def)
  show ?case
  proof (cases "d + n * unat w \<le> 2 ^ 63")
    case True
    then show ?thesis
      unfolding step using Cons.IH [of "d + n * unat w"] Cons.prems w(3) two63_less [OF True]
      by (simp add: add.assoc)
  next
    case False
    then have "two63 < word_of_nat (d + n * unat w)"
      using Cons.prems(2) w(2) by (intro two63_beyond) simp_all
    with False show ?thesis unfolding step using w(3) by simp
  qed
qed

text \<open>A duration of whole numbers with units, such as \<^verbatim>\<open>1h30m\<close>, each below \<open>2 ^ 63\<close> nanoseconds,
  is read as the sum of its parts, and refused exactly when the sum does not fit into the signed
  64 bits of a duration.
\<close>

theorem duration_is_the_sum:
  assumes "ps \<noteq> []" and "list_all is_part ps"
  shows "ParseDuration (write_parts ps) =
    (let total = int (sum_list (map part_value ps)) in
     if total \<le> max_duration then Inr total else Inl (bad_duration (write_parts ps)))"
proof -
  let ?s = "write_parts ps" and ?n = "sum_list (map part_value ps)"
  obtain n u qs where ps: "ps = (n, u) # qs" using assms(1) by (cases ps) auto
  then have u: "u \<noteq> []" using assms(2) by (auto simp: is_part_def unit_of_def split: if_splits)
  have "is_digit (hd (dec_nat n))" using dec_digits [of n] by (cases "dec_nat n") auto
  then have hd: "?s \<noteq> []" "is_digit (hd ?s)" by (simp_all add: ps write_parts_def)
  then have sign: "hd ?s \<noteq> CHR ''-''" "hd ?s \<noteq> CHR ''+''" by (auto simp: is_digit_def)
  have "length ?s \<noteq> 1" using u by (cases "dec_nat n") (auto simp: ps write_parts_def)
  then have zero: "?s \<noteq> ''0''" by auto
  have parts: "parse_parts ?s 0 ?s =
      (if ?n \<le> 2 ^ 63 then Inr (word_of_nat ?n) else Inl (bad_duration ?s))"
    using parse_parts_whole [OF assms(2), of 0 ?s] by simp
  consider "?n < 2 ^ 63" | "?n = 2 ^ 63" | "?n > 2 ^ 63" by linarith
  then show ?thesis
  proof cases
    case 1
    then have "signed_take_bit 63 (int ?n) = int ?n" by (intro signed_take_bit_int_eq_self) simp_all
    then have "sint (word_of_nat ?n :: 64 word) = int ?n" by (simp add: signed_of_nat)
    moreover have "\<not> two63 - 1 < word_of_nat ?n" using 1 by (simp add: word_less_nat_alt unat_of_nat)
    ultimately show ?thesis using 1 hd sign zero parts by (simp add: ParseDuration_def Let_def)
  next
    case 2
    then show ?thesis using hd sign zero parts by (simp add: ParseDuration_def Let_def)
  next
    case 3
    then show ?thesis using hd sign zero parts by (simp add: ParseDuration_def Let_def)
  qed
qed

lemma duration_is_the_sum_witness:
  "ParseDuration ''1h30m'' = Inr (90 * minute)"
  using duration_is_the_sum [of "[(1, ''h''), (30, ''m'')]"]
  by (simp add: write_parts_def part_value_def is_part_def unit_of_def dec_nat.simps digit_def)

end
