(* ===== verification/Fleet.thy ===== *)
theory Fleet
  imports Concurrency Controlplane
begin

text \<open>
  Every program the control plane runs at once, as a task of one fleet: the requests to any
  route, the wakers they contain and the suspender's goroutine. Each task keeps to the lease of
  every endpoint. Deletions and the debugging stop are an administrator's: they stop a compute
  without a role for its endpoint.
\<close>

section \<open>Effects outside the lease\<close>

text \<open>\<open>harmless\<close> effects neither touch a pod nor change an endpoint that exists; a \<open>forceful\<close> one
  may also stop a compute, mark its endpoint suspended or delete rows.\<close>

fun harmless :: "event \<Rightarrow> bool" where
  "harmless (EK8s c r) = (pod_created c = None \<and> pod_deleted c = None)"
| "harmless (ESql qs r) = (case qs of [q] \<Rightarrow> reads_only q \<or> inserts q | _ \<Rightarrow> list_all inserts qs)"
| "harmless _ = True"

fun forceful :: "event \<Rightarrow> bool" where
  "forceful (EK8s c r) = (pod_created c = None)"
| "forceful (ESql qs r) =
     (case qs of [q] \<Rightarrow> reads_only q \<or> inserts q \<or> removes_rows q \<or> (\<exists>j. q = UpdateSuspended j)
      | _ \<Rightarrow> list_all inserts qs)"
| "forceful _ = True"

lemma harmless_forceful: "harmless ev \<Longrightarrow> forceful ev"
  by (cases ev) (auto split: list.splits)

lemma idle_after: "reads_only q \<or> inserts q \<or> removes_rows q \<or> (\<exists>j. q = UpdateSuspended j) \<Longrightarrow>
    role_after i Idle (q, n) = Idle"
  by (cases q) simp_all

lemma may_write_any: "reads_only q \<or> removes_rows q \<or> (\<exists>j. q = UpdateSuspended j) \<Longrightarrow> may_write i s q"
  by (cases q) simp_all

lemma wrote_cases: "wrote (ESql qs r) = Some (q, n) \<Longrightarrow> qs = [q]"
  by (cases qs; cases "tl qs"; cases r) auto

lemma forceful_lease:
  assumes "forceful ev"
  shows "mon_guar (lease_as True i) Idle ev \<and> mon_next (lease_as True i) Idle ev = Idle"
proof (cases ev)
  case (ESql qs r)
  with assms have "role_after i Idle w = Idle" if "wrote ev = Some w" for w
    using that wrote_cases [of qs r] by (cases w) (auto intro!: idle_after)
  then have "mon_next (lease_as True i) Idle ev = Idle" by (simp split: option.split)
  with ESql assms show ?thesis by (auto split: list.splits intro: may_write_any)
qed (use assms in auto)

lemma harmless_lease:
  assumes "harmless ev"
  shows "mon_guar (lease_as adm i) Idle ev \<and> mon_next (lease_as adm i) Idle ev = Idle"
proof
  show "mon_next (lease_as adm i) Idle ev = Idle"
    using forceful_lease [OF harmless_forceful [OF assms]] by simp
  show "mon_guar (lease_as adm i) Idle ev"
    using assms by (cases ev) (auto split: list.splits intro: may_write_any)
qed

lemma emits_harmless: "emits harmless p \<Longrightarrow> wp (lease_as adm i) p (\<lambda>_ s. s = Idle) Idle"
  by (erule emits_wp) (rule harmless_lease)

lemma emits_forceful: "emits forceful p \<Longrightarrow> wp (lease_as True i) p (\<lambda>_ s. s = Idle) Idle"
  by (erule emits_wp) (rule forceful_lease)

text \<open>What is permitted to everyone is permitted to an administrator.\<close>

lemma lease_admin: "wp (lease i) p Q s \<Longrightarrow> wp (lease_as True i) p Q s"
proof (induction p arbitrary: s)
  case (K8s c k)
  then show ?case by (auto simp: after_def)
next
  case (Sql qs k)
  then show ?case by (auto simp: after_def split: list.splits option.splits)
qed (auto simp: after_def)

section \<open>The calls the handlers make\<close>

lemma store_harmless:
  "emits harmless (CreateProject p b ep)" "emits harmless (CreateBranch b ep)"
  "emits harmless (GetProjectByID i)" "emits harmless (GetBranchByID i)" "emits harmless (ListBranchesByProject i)"
  "emits harmless (GetEndpointByBranch i)" "emits harmless (GetAccessControl i)"
  by (simp_all add: emits_def store_defs insertBranchAndEndpoint_def)

lemma pageserver_harmless:
  "emits harmless (AttachTenant ps tn)" "emits harmless (CreateTimeline ps tn tm v)"
  "emits harmless (DeleteTenant ps tn)" "emits harmless (CreateBranchAtLSN ps tn tm anc l)"
  "emits harmless (GetTimeline ps tn tm)" "emits harmless (DeleteTimeline n ps tn tm)"
proof -
  have talk: "emits harmless p" if "emits (talks_to b) p" for b and p :: "'a prog"
  proof (rule emits_mono [OF that])
    show "talks_to b ev \<Longrightarrow> harmless ev" for ev by (cases ev) simp_all
  qed
  show "emits harmless (AttachTenant ps tn)" "emits harmless (CreateTimeline ps tn tm v)"
    "emits harmless (DeleteTenant ps tn)" "emits harmless (CreateBranchAtLSN ps tn tm anc l)"
    "emits harmless (GetTimeline ps tn tm)" "emits harmless (DeleteTimeline n ps tn tm)"
    unfolding AttachTenant_def CreateTimeline_def DeleteTenant_def CreateBranchAtLSN_def
    by (rule talk, rule expect2xx_emits GetTimeline_emits DeleteTimeline_emits)+
qed

lemma other_harmless:
  "emits harmless (MaxCommitLSN c tn tm)"
  "emits harmless NewHex32" "emits harmless NewProjectID" "emits harmless NewBranchID"
  "emits harmless NewEndpointID" "emits harmless RandomPassword" "emits harmless (BuildVerifier f pw)"
  "emits harmless (writeErr code m)" "emits harmless (writeJSON code j)"
  "emits harmless (writeCPError code m co re)"
proof -
  have http: "is_http P ev \<Longrightarrow> harmless ev" and rand: "is_rand ev \<Longrightarrow> harmless ev" for P ev
    by (cases ev; simp)+
  show "emits harmless (MaxCommitLSN c tn tm)" by (rule emits_mono [OF safekeeper.reads http])
  show "emits harmless NewHex32" "emits harmless NewProjectID" "emits harmless NewBranchID"
    "emits harmless NewEndpointID" "emits harmless RandomPassword" "emits harmless (BuildVerifier f pw)"
    by (rule rand_emits [THEN emits_mono]; simp add: rand)+
  show "emits harmless (writeErr code m)" "emits harmless (writeJSON code j)" "emits harmless (writeCPError code m co re)"
    by (simp_all add: emits_def writeErr_def writeCPError_def writeJSON_def)
qed

lemmas calls_harmless = store_harmless pageserver_harmless other_harmless

lemma return_harmless: "emits G (Return a)"
  by (simp add: emits_def)

text \<open>The handlers that neither wake nor stop a compute, and those that stop one.\<close>

lemma with_project_emits:
  "(\<And>p. emits harmless (k p)) \<Longrightarrow> emits harmless (with_project i k)"
  unfolding with_project_def by (intro emits_checkI) (auto simp: calls_harmless)

lemma with_access_emits:
  "(\<And>ac. emits harmless (k ac)) \<Longrightarrow> emits harmless (with_access i k)"
  unfolding with_access_def by (intro emits_checkI) (auto simp: calls_harmless)

lemma handlers_harmless:
  "emits harmless (createProject (main_server m st f) r)" "emits harmless (getProject (main_server m st f) r)"
  "emits harmless (createBranch n (main_server m st f) r)" "emits harmless (usage (main_server m st f) r)"
  "emits harmless (accessControl r)" "emits harmless (jwks r)" "emits harmless (healthz r)"
proof -
  let ?s = "main_server m st f"
  note simps = calls_harmless return_harmless
  have branches: "emits harmless (describe_branches ?s bs out)" for bs out
    by (induction bs arbitrary: out) (auto intro!: emits_checkI simp: simps)
  have sizes: "emits harmless (usage_loop ?s tn bs tot out)" for tn bs tot out
    by (induction bs arbitrary: tot out) (auto intro!: emits_checkI simp: simps)
  have ingest: "emits harmless (ingest_loop n ?s tn tm l d)" for n tn tm l d
  proof (induction n)
    case (Suc n)
    have "emits harmless (Now (\<lambda>now. if now > d then fails e
        else Sleep (200 * millisecond) (\<lambda>c. case c of Some e \<Rightarrow> fails e | None \<Rightarrow> ingest_loop n ?s tn tm l d)))" for e
      using Suc by (simp add: emits_def split: option.split)
    then show ?case
      unfolding ingest_loop.simps by (intro emits_checkI) (auto simp: simps split: sum.split)
  qed (simp add: emits_def)
  have wait: "emits harmless (waitAncestorIngested n ?s tn tm)" for n tn tm
  proof -
    have "emits harmless (Now (\<lambda>now. ingest_loop n ?s tn tm l (now + 30 * second)))" for l
      using ingest by (simp add: emits_def)
    then show ?thesis
      unfolding waitAncestorIngested_def by (intro emits_checkI) (auto simp: simps)
  qed
  have ancestor: "emits harmless (resolve_parent p i k)" if "\<And>b. emits harmless (k b)" for p i k
    unfolding resolve_parent_def by (auto intro!: emits_checkI simp: that simps split: option.split)
  show "emits harmless (createProject ?s r)"
    unfolding createProject_def provision_project_def
    by (auto intro!: emits_checkI emits_bindI simp: simps split: option.split prod.split)
  show "emits harmless (getProject ?s r)"
    unfolding getProject_def by (intro with_project_emits emits_checkI) (simp_all add: simps branches)
  show "emits harmless (createBranch n ?s r)"
    unfolding createBranch_def provision_branch_def
    by (auto intro!: with_project_emits ancestor emits_checkI emits_bindI simp: simps wait Let_def split: option.split)
  show "emits harmless (usage ?s r)"
    unfolding usage_def by (intro with_project_emits emits_checkI) (auto simp: simps sizes)
  show "emits harmless (accessControl r)"
    unfolding accessControl_def Let_def by (intro with_access_emits) (simp add: simps)
  show "emits harmless (jwks r)" "emits harmless (healthz r)"
    by (simp_all add: jwks_def healthz_def simps)
qed

lemma handlers_forceful:
  "emits forceful (deleteBranch n (main_server m st f) r)" "emits forceful (deleteProject (main_server m st f) r)"
  "emits forceful (debugStop (main_server m st f) r)"
proof -
  let ?s = "main_server m st f"
  have quiet: "emits harmless p \<Longrightarrow> emits forceful p" for p :: "'a prog"
    by (erule emits_mono) (rule harmless_forceful)
  have stop: "emits forceful (rt_Stop (NewK8sRuntime rt) i)" for rt i
    by (rule emits_mono [OF k8s.Stop_calls]) (auto elim!: is_k8s_elim dest: k8s_classes)
  have rows: "emits forceful (DeleteBranch i)" "emits forceful (DeleteProject i)" "emits forceful (SetEndpointSuspended i)" for i
    by (simp_all add: emits_def store_defs)
  note simps = calls_harmless [THEN quiet] return_harmless rows stop
  have one: "emits forceful (stop_branch ?s b)" for b
    unfolding stop_branch_def by (intro emits_checkI emits_bindI) (simp_all add: simps)
  have all: "emits forceful (stop_branches ?s bs)" for bs
    by (induction bs) (auto intro!: emits_bindI simp: one return_harmless)
  show "emits forceful (deleteBranch n ?s r)"
    unfolding deleteBranch_def by (auto intro!: emits_checkI emits_bindI simp: simps one)
  show "emits forceful (deleteProject ?s r)"
    unfolding deleteProject_def with_project_def by (auto intro!: emits_checkI emits_bindI simp: simps all)
  show "emits forceful (debugStop ?s r)"
    unfolding debugStop_def by (intro emits_checkI) (simp_all add: simps)
qed

section \<open>Tasks\<close>

text \<open>A property of every handler a request can reach, and of the two answers of the mux.\<close>

lemma serve_routes_cases:
  assumes "\<And>rt i b. rt \<in> set rts \<Longrightarrow> match_path (rt_path rt) path \<noteq> None \<Longrightarrow> match_method (rt_method rt) m \<Longrightarrow>
      X (rt_handler rt (r\<lparr>in_id := i, in_bid := b\<rparr>))"
    and "\<And>code t. X (writeJSON code (JStr t))"
  shows "X (serve_routes rts seen m path r)"
  using assms(1)
proof (induction rts arbitrary: seen)
  case (Cons rt rts)
  then show ?case by (auto split: option.split)
qed (simp add: assms(2))

lemma requireAuth_cases: "(\<And>r. X (h r)) \<Longrightarrow> (\<And>code m. X (writeErr code m)) \<Longrightarrow> X (requireAuth s h r)"
  by (simp add: requireAuth_def Let_def)

text \<open>The requests that stop a compute by themselves.\<close>

definition stop_path :: "segment list" where
  "stop_path = [Lit ''v1'', Lit ''debug'', Lit ''endpoints'', Wild ''id'', Lit ''stop'']"

definition administrative :: "string \<Rightarrow> string list \<Rightarrow> bool" where
  "administrative m path \<longleftrightarrow> m = ''DELETE'' \<or> match_path stop_path path \<noteq> None"

lemma waker_lease: "wp (lease i) (Wake n (main_waker st) j) (\<lambda>_ _. True) Idle"
  by (rule k8s.Wake_lease) (simp_all add: main_waker_def main_runtime_def specBuilder_looks)

lemma wake_then_answer:
  assumes "\<And>e s. wp (lease i) (h e) (\<lambda>_ _. True) s" and "\<And>a s. wp (lease i) (k a) (\<lambda>_ _. True) s"
  shows "wp (lease i) (check (Wake n (main_waker st) j) h k) (\<lambda>_ _. True) Idle"
  by (rule wp_checkI [OF waker_lease]) (rule assms)+

lemma handlers_lease:
  "wp (lease i) (debugStart (main_server n st f) r) (\<lambda>_ _. True) Idle"
  "wp (lease i) (wakeCompute (Wake n (main_waker st)) r) (\<lambda>_ _. True) Idle"
proof -
  note answers = writeErr_def writeJSON_def writeCPError_def
  show "wp (lease i) (debugStart (main_server n st f) r) (\<lambda>_ _. True) Idle"
    unfolding debugStart_def main_server_parts by (rule wake_then_answer) (simp_all add: answers)
  show "wp (lease i) (wakeCompute (Wake n (main_waker st)) r) (\<lambda>_ _. True) Idle"
    unfolding wakeCompute_def with_access_def Let_def
  proof (rule wp_checkI [OF emits_harmless [OF store_harmless(7)]], goal_cases)
    case (2 ac s')
    then show ?case by (simp only:, intro wake_then_answer) (simp_all add: answers)
  qed (simp add: answers)
qed

text \<open>Every request keeps to the lease of every endpoint, those that stop a compute as an
  administrator's.\<close>

lemma serve_lease:
  "wp (lease_as (administrative m path) i) (serve n st f m path r) (\<lambda>_ _. True) Idle"
proof -
  let ?s = "main_server n st f" and ?M = "lease_as (administrative m path) i"
  define X :: "response prog \<Rightarrow> bool" where "X p \<longleftrightarrow> wp ?M p (\<lambda>_ _. True) Idle" for p
  have X_lease: "wp (lease i) p (\<lambda>_ _. True) Idle \<Longrightarrow> X p" for p
    unfolding X_def by (cases "administrative m path") (simp_all add: lease_admin)
  have X_harmless: "emits harmless p \<Longrightarrow> X p" for p
    unfolding X_def by (rule wp_mono [OF emits_harmless]) simp_all
  have X_forceful: "emits forceful p \<Longrightarrow> administrative m path \<Longrightarrow> X p" for p
    unfolding X_def by (simp, rule wp_mono [OF emits_forceful]) simp_all
  have auth: "(\<And>r. X (h r)) \<Longrightarrow> X (requireAuth ?s h r')" for h r'
    by (rule requireAuth_cases) (simp_all add: X_harmless calls_harmless)
  have "X (serve_routes (main_mux n st f) False m path r)"
  proof (rule serve_routes_cases)
    fix rt i' b
    assume rt: "rt \<in> set (main_mux n st f)" and path: "match_path (rt_path rt) path \<noteq> None"
      and meth: "match_method (rt_method rt) m"
    have "rt_method rt = ''DELETE'' \<Longrightarrow> administrative m path" "rt_path rt = stop_path \<Longrightarrow> administrative m path"
      using meth path by (simp_all add: administrative_def match_method_def)
    with rt show "X (rt_handler rt (r\<lparr>in_id := i', in_bid := b\<rparr>))"
      unfolding main_mux_def Routes_def Register_def Let_def
      by (auto split: if_splits simp: stop_path_def
          intro!: auth X_harmless [OF handlers_harmless(1)] X_harmless [OF handlers_harmless(2)]
            X_harmless [OF handlers_harmless(3)] X_harmless [OF handlers_harmless(4)]
            X_harmless [OF handlers_harmless(5)] X_harmless [OF handlers_harmless(6)]
            X_harmless [OF handlers_harmless(7)] X_forceful [OF handlers_forceful(1)]
            X_forceful [OF handlers_forceful(2)] X_forceful [OF handlers_forceful(3)]
            X_lease [OF handlers_lease(1)] X_lease [OF handlers_lease(2)])
  qed (simp add: X_harmless calls_harmless)
  then show ?thesis by (simp add: X_def serve_def)
qed

lemma sweeps_lease: "s \<noteq> Owner \<Longrightarrow> wp (lease i) (sweeps k st) (\<lambda>_ _. True) s"
proof (induction k arbitrary: s)
  case (Suc k)
  have "wp (lease i) (Sweep (main_suspender st)) (\<lambda>_ s'. s' \<noteq> Owner) s"
    by (rule k8s.Sweep_lease) (simp_all add: main_suspender_def main_runtime_def Suc.prems)
  then show ?case by (simp, rule wp_mono) (rule Suc.IH)
qed simp

text \<open>The tasks: a request, the suspender's goroutine, and the wake and the sweep they are made
  of.\<close>

inductive task :: "bool \<Rightarrow> unit prog \<Rightarrow> bool" where
  request: "task (administrative m path) (spawn (serve n st f m path r))"
| suspender: "task False (suspend_goroutine k st d)"
| waker: "task False (spawn (Wake n (main_waker st) j))"
| sweeper: "task False (spawn (Sweep (main_suspender st)))"
| idle: "task False (Return ())"

lemma spawn_lease: "wp M p (\<lambda>_ _. True) s \<Longrightarrow> wp M (spawn p) (\<lambda>_ _. True) s"
  unfolding spawn_def by (erule wp_bindI) simp

lemma task_lease: "task adm p \<Longrightarrow> wp (lease_as adm i) p (\<lambda>_ _. True) Idle"
proof (induction rule: task.induct)
  case (suspender k st d)
  show ?case by (simp add: suspend_goroutine_def sweeps_lease)
next
  case (sweeper st)
  show ?case using sweeps_lease [of Idle i 1 st] by (simp add: spawn_def)
qed (simp_all add: spawn_lease serve_lease waker_lease)

text \<open>The control plane at some moment: a consistent database and any number of tasks.\<close>

definition fleet :: "(nat \<Rightarrow> bool) \<Rightarrow> system \<Rightarrow> bool" where
  "fleet adm S \<longleftrightarrow> schema_ok (sys_db S) \<and> (\<forall>k. task (adm k) (sys_progs S k))"

lemma fleet_disciplined: "fleet adm S \<Longrightarrow> disciplined adm S"
  by (simp add: fleet_def disciplined_def task_lease)

end
