(* ===== verification/Schedules.thy ===== *)
theory Schedules
  imports Fleet
begin

text \<open>
  The whole control plane at work: what every interleaving of the requests to all routes, the
  wakers and the suspender's goroutine guarantees about an endpoint, and three schedules, played
  by the executable scheduler, that show what it does not guarantee.
\<close>

section \<open>A small deployment\<close>

definition demo_settings :: settings where
  "demo_settings = read_settings (\<lambda>_. [])"

definition demo_endpoint :: "string \<Rightarrow> string option \<Rightarrow> endpoint" where
  "demo_endpoint state addr =
     \<lparr>e_id = ''ep-1'', e_branch = ''br-1'', e_state = state, e_addr = addr, e_suspend_after = 300,
      e_last_started = None, e_last_active = None, e_updated = 0\<rparr>"

definition demo_db :: "string \<Rightarrow> string option \<Rightarrow> database" where
  "demo_db state addr =
     \<lparr>projects = [project_row_of \<lparr>p_id = ''prj1'', p_name = ''shop'', p_tenant = ''t1'', p_pg_version = 17,
                   p_role = ''firth'', p_verifier = ''v''\<rparr> 0],
      branches = [branch_row_of \<lparr>b_id = ''br-1'', b_project = ''prj1'', b_name = ''main'', b_timeline = ''tl1'',
                   b_parent = None, b_default = True\<rparr> 0],
      endpoints = [demo_endpoint state addr]\<rparr>"

definition demo_system :: "string \<Rightarrow> string option \<Rightarrow> system" where
  "demo_system state addr =
     \<lparr>sys_db = demo_db state addr,
      sys_progs = (\<lambda>k. if k < 2 then spawn (Wake 2 (main_waker demo_settings) ''ep-1'')
                       else if k = 2 then spawn (Sweep (main_suspender demo_settings)) else Return ())\<rparr>"

lemma demo_tasks: "task False (sys_progs (demo_system state addr) k)"
  by (simp add: demo_system_def task.intros)

lemma demo_schema: "state \<in> set endpoint_states \<Longrightarrow> schema_ok (demo_db state addr)"
  by (simp add: schema_ok_def demo_db_def demo_endpoint_def int4_ok_def)

lemma demo_fleet: "state \<in> set endpoint_states \<Longrightarrow> fleet (\<lambda>_. False) (demo_system state addr)"
  by (simp add: fleet_def demo_tasks, simp add: demo_system_def demo_schema)

text \<open>Replies: a look at the row; a won start up to the pod; what happened to the pods.\<close>

definition look_at :: "time \<Rightarrow> choice list" where
  "look_at t = [RNow t, Commit t, RNow t, Commit t]"

definition spec_and_pod :: "time \<Rightarrow> choice list" where
  "spec_and_pod t = [Commit t, Commit t, Commit t, RK8s (Inr NoObject), RK8s (Inr NoObject)]"

definition pod_calls :: "string \<Rightarrow> (nat \<times> event) list \<Rightarrow> (nat \<times> bool) list" where
  "pod_calls i tr =
     concat (map (\<lambda>(k, ev). case ev of
         EK8s c r \<Rightarrow> if pod_created c = Some (podName i) then [(k, True)]
                     else if pod_deleted c = Some (podName i) then [(k, False)] else []
       | _ \<Rightarrow> []) tr)"

lemmas demo_defs =
  demo_system_def demo_db_def demo_endpoint_def demo_settings_def read_settings_def main_waker_def main_suspender_def
  main_runtime_def env_or_def spawn_def look_at_def spec_and_pod_def

lemmas play_defs =
  Wake_def WithEndpointLock_def decide_def check_def scanEndpoint_def or_not_found_def query_row_reply_def
  query_reply_def TransitionEndpoint_def readyTimeout_def exec_tx_def since_def
  staleAfter_def matching_def endpoint_states_def update_endpoints_def NewK8sRuntime_def Stop_def Start_def Status_def
  deleteConfigMap_def startCompute_def createPod_def specBuilder_def GetAccessControl_def GetProjectByID_def
  GetBranchByID_def access_rows_def Sweep_def sweepOne_def ListEndpointsByState_def SetEndpointSuspended_def
  exec_reply_def roles_def track_def pod_calls_def podName_def buildPod_def project_row_of_def branch_row_of_def
  project.defs branch.defs

text \<open>Two starts one after the other: the first waker wins the start and creates the pod, gives
  up when the pod is not ready in time and marks the endpoint failed; the second one wins
  the next start.\<close>

definition first_start :: "(nat \<times> choice) list" where
  "first_start = (let t = 1000 in
     map (Pair 0) ([RNow t, RNow t, Commit t, Commit t, Commit t, Commit t, Commit t, Commit t,
                    RK8s (Inr NoObject)]))"

definition second_start :: "(nat \<times> choice) list" where
  "second_start = (let t = 200 * second in
     map (Pair 0) [RNow 1000, RNow t, RK8s (Inr NoObject), RK8s (Inr NoObject), Commit t] @
     map (Pair 1) [RNow t, RNow t, Commit t, Commit t, Commit t, Commit t, Commit t, Commit t, Commit t,
                   RK8s (Inr NoObject)])"

definition create_pod :: "nat \<Rightarrow> (nat \<times> choice) list" where
  "create_pod k = [(k, RK8s (Inr NoObject))]"

fun is_creation :: "nat \<Rightarrow> (nat \<times> event) list \<Rightarrow> bool" where
  "is_creation k [(k', EK8s c r)] = (k' = k \<and> pod_created c = Some (podName ''ep-1''))"
| "is_creation k _ = False"

lemma two_starts_play:
  "case play first_start (demo_system ''suspended'' None) of None \<Rightarrow> False
   | Some (tr1, M1) \<Rightarrow> (case play (create_pod 0) M1 of None \<Rightarrow> False
     | Some (x1, M2) \<Rightarrow> (case play second_start M2 of None \<Rightarrow> False
       | Some (tr2, M3) \<Rightarrow> (case play (create_pod 1) M3 of None \<Rightarrow> False
         | Some (x2, M4) \<Rightarrow> is_creation 0 x1 \<and> is_creation 1 x2 \<and> undisturbed ''ep-1'' (tr1 @ x1 @ tr2))))"
  by (simp add: first_start_def second_start_def create_pod_def undisturbed_def
      demo_defs play_defs waitReady_def start_fail_def pollInterval_def numeral_2_eq_2 Let_def cong: prog_congs)


lemma is_creation_elim:
  "is_creation k tr \<Longrightarrow> \<exists>c r. tr = [(k, EK8s c r)] \<and> pod_created c = Some (podName ''ep-1'')"
  by (erule is_creation.elims(2)) auto

lemma some_pair:
  "(case x of None \<Rightarrow> False | Some (a, b) \<Rightarrow> P a b) \<longleftrightarrow> (\<exists>a b. x = Some (a, b) \<and> P a b)"
  by (auto split: option.splits)

lemma two_starts:
  obtains tr1 c r tr2 c' r' S where
    "sys_steps (demo_system ''suspended'' None) (tr1 @ (0, EK8s c r) # tr2 @ [(1, EK8s c' r')]) S"
    "undisturbed ''ep-1'' (tr1 @ (0, EK8s c r) # tr2)"
    "pod_created c = Some (podName ''ep-1'')" "pod_created c' = Some (podName ''ep-1'')"
proof -
  from two_starts_play obtain tr1 M1 x1 M2 tr2 M3 x2 M4 where
    p: "play first_start (demo_system ''suspended'' None) = Some (tr1, M1)"
      "play (create_pod 0) M1 = Some (x1, M2)" "play second_start M2 = Some (tr2, M3)"
      "play (create_pod 1) M3 = Some (x2, M4)"
    and x: "is_creation 0 x1" "is_creation 1 x2" and u: "undisturbed ''ep-1'' (tr1 @ x1 @ tr2)"
    unfolding some_pair by blast
  from p have "play (first_start @ create_pod 0 @ second_start @ create_pod 1) (demo_system ''suspended'' None)
      = Some (tr1 @ x1 @ tr2 @ x2, M4)" by (simp add: play_append)
  then have "sys_steps (demo_system ''suspended'' None) (tr1 @ x1 @ tr2 @ x2) M4" by (rule play_steps)
  moreover from x obtain c r c' r' where "x1 = [(0, EK8s c r)]" "x2 = [(1, EK8s c' r')]"
    "pod_created c = Some (podName ''ep-1'')" "pod_created c' = Some (podName ''ep-1'')"
    using is_creation_elim by blast
  ultimately show thesis using u that by simp
qed

text \<open>Shorter runs of the same system: the first waker owns the start; it gives up and stops
  the pod.\<close>

definition give_up :: "(nat \<times> choice) list" where
  "give_up = map (Pair 0) [RNow 1000, RNow (200 * second)]"

fun is_deletion :: "nat \<Rightarrow> (nat \<times> event) list \<Rightarrow> bool" where
  "is_deletion k [(k', EK8s c r)] = (k' = k \<and> pod_deleted c = Some (podName ''ep-1''))"
| "is_deletion k _ = False"

lemma one_stop_play:
  "case play (first_start @ create_pod 0 @ give_up) (demo_system ''suspended'' None) of None \<Rightarrow> False
   | Some (tr1, M1) \<Rightarrow> (case play (create_pod 0) M1 of None \<Rightarrow> False
     | Some (x1, M2) \<Rightarrow> is_deletion 0 x1 \<and> undisturbed ''ep-1'' tr1)"
  by (simp add: first_start_def give_up_def create_pod_def undisturbed_def
      demo_defs play_defs waitReady_def start_fail_def pollInterval_def numeral_2_eq_2 Let_def cong: prog_congs)

lemma one_stop:
  obtains tr1 c r S where
    "sys_steps (demo_system ''suspended'' None) (tr1 @ [(0, EK8s c r)]) S"
    "undisturbed ''ep-1'' tr1" "pod_deleted c = Some (podName ''ep-1'')"
proof -
  from one_stop_play obtain tr1 M1 x1 M2 where
    p: "play (first_start @ create_pod 0 @ give_up) (demo_system ''suspended'' None) = Some (tr1, M1)"
      "play (create_pod 0) M1 = Some (x1, M2)" and x: "is_deletion 0 x1" "undisturbed ''ep-1'' tr1"
    unfolding some_pair by blast
  from p have "play ((first_start @ create_pod 0 @ give_up) @ create_pod 0) (demo_system ''suspended'' None)
      = Some (tr1 @ x1, M2)" by (simp only: play_append [of "first_start @ create_pod 0 @ give_up"]) simp
  then have s: "sys_steps (demo_system ''suspended'' None) (tr1 @ x1) M2" by (rule play_steps)
  from x(1) obtain c r where "x1 = [(0, EK8s c r)]" "pod_deleted c = Some (podName ''ep-1'')"
    by (auto elim: is_deletion.elims(2))
  with s x(2) that show thesis by simp
qed

lemma one_owner_play:
  "case play first_start (demo_system ''suspended'' None) of None \<Rightarrow> False
   | Some (tr, S) \<Rightarrow> undisturbed ''ep-1'' tr \<and> roles ''ep-1'' tr 0 = Owner"
  by (simp add: first_start_def undisturbed_def demo_defs play_defs numeral_2_eq_2 Let_def cong: prog_congs)

lemma one_owner:
  obtains tr S where "sys_steps (demo_system ''suspended'' None) tr S"
    "undisturbed ''ep-1'' tr" "roles ''ep-1'' tr 0 = Owner"
  using one_owner_play play_steps that unfolding some_pair by blast

lemma demo_suspended: "fleet (\<lambda>_. False) (demo_system ''suspended'' None)"
  by (rule demo_fleet) (simp add: endpoint_states_def)

section \<open>Schedules with two owners\<close>

text \<open>What the clock read, and an endpoint's state with the time of its last change.\<close>

definition clock_readings :: "(nat \<times> event) list \<Rightarrow> time list" where
  "clock_readings tr = concat (map (\<lambda>(k, ev). case ev of ENow t \<Rightarrow> [t] | _ \<Rightarrow> []) tr)"

definition row_at :: "database \<Rightarrow> string \<Rightarrow> (string \<times> time) option" where
  "row_at db i = map_option (\<lambda>e. (e_state e, e_updated e)) (ep_row db i)"

text \<open>Two wakers look at a start that is 200 seconds old, then both take it over: the second
  compare-and-swap succeeds because the first one leaves the state \<^verbatim>\<open>starting\<close>. All of it happens
  at second 200.\<close>

definition first_takeover :: "(nat \<times> choice) list" where
  "first_takeover = (let t = 200 * second in
     map (Pair 0) (RNow t # look_at t) @ map (Pair 1) (RNow t # look_at t) @
     map (Pair 0) ([Commit t, RK8s (Inr NoObject), RK8s (Inr NoObject)] @ spec_and_pod t))"

definition second_takeover :: "(nat \<times> choice) list" where
  "second_takeover = (let t = 200 * second in
     map (Pair 1) ([RK8s (Inr NoObject), RK8s (Inr NoObject)] @ spec_and_pod t))"

definition taken_over :: event where
  "taken_over = ESql [UpdateState ''ep-1'' ''starting'' ''starting''] (Inr (Affected 1))"

lemma takeover_play:
  "case play first_takeover (demo_system ''starting'' None) of None \<Rightarrow> False
   | Some (tr1, M) \<Rightarrow> (case play [(1, Commit (200 * second))] M of None \<Rightarrow> False
     | Some (x, M') \<Rightarrow> (case play second_takeover M' of None \<Rightarrow> False
       | Some (tr2, S) \<Rightarrow>
           let tr = tr1 @ (1, taken_over) # tr2 in
           x = [(1, taken_over)] \<and> set (clock_readings tr) = {200 * second} \<and>
           roles ''ep-1'' tr1 0 = Owner \<and> row_at (sys_db M) ''ep-1'' = Some (''starting'', 200 * second) \<and>
           row_at (sys_db M') ''ep-1'' = Some (''starting'', 200 * second) \<and>
           roles ''ep-1'' tr 0 = Owner \<and> roles ''ep-1'' tr 1 = Owner \<and>
           pod_calls ''ep-1'' tr = [(0, False), (0, True), (1, False), (1, True)]))"
  by (simp add: first_takeover_def second_takeover_def taken_over_def clock_readings_def row_at_def
      demo_defs play_defs numeral_2_eq_2 Let_def cong: prog_congs)

text \<open>A sweep finds the pod of a running endpoint gone. Before it repairs the row, a waker
  notices the same, moves the endpoint through \<^verbatim>\<open>suspended\<close> to \<^verbatim>\<open>starting\<close> and starts it. The
  repair then makes the endpoint \<^verbatim>\<open>suspended\<close> under its owner, and a second waker starts it
  again.\<close>

definition reconcile_schedule :: "(nat \<times> choice) list" where
  "reconcile_schedule = (let t = 200 * second; gone = RK8s (Inl (DoesNotExist [])) in
     map (Pair 2) [Commit t, gone] @
     map (Pair 0) ([RNow t, RNow t, Commit t, Commit t, gone, Commit t,
                    RNow t, Commit t, Commit t, Commit t] @ spec_and_pod t) @
     map (Pair 2) [Commit t] @
     map (Pair 1) ([RNow t, RNow t, Commit t, Commit t, Commit t] @ spec_and_pod t))"

lemma reconcile_play:
  "case play reconcile_schedule (demo_system ''running'' (Some ''10.0.0.1:55433'')) of None \<Rightarrow> False
   | Some (tr, S) \<Rightarrow> roles ''ep-1'' tr 0 = Owner \<and> roles ''ep-1'' tr 1 = Owner \<and>
       pod_calls ''ep-1'' tr = [(0, True), (1, True)]"
  by (simp add: reconcile_schedule_def demo_defs play_defs numeral_2_eq_2 Let_def cong: prog_congs)

section \<open>A deletion during a start\<close>

text \<open>A request that deletes the project asks the runtime to stop the compute before a waker,
  which has already won the start and read the rows, creates the pod. The tenant and the rows are
  deleted while the pod comes up; then the waker stores its address, in no row, and succeeds.\<close>

definition delete_request :: request where
  "delete_request = \<lparr>in_auth = [], in_query = (\<lambda>_. []), in_id = [], in_bid = [],
     in_body = \<lparr>pl_text = [], pl_value = None, pl_trailing = False\<rparr>\<rparr>"

definition deleting_system :: system where
  "deleting_system = (demo_system ''suspended'' None)
     \<lparr>sys_progs := (sys_progs (demo_system ''suspended'' None))
        (3 := spawn (serve 2 demo_settings (\<lambda>pw salt n k. []) ''DELETE'' [''v1'', ''projects'', ''prj1''] delete_request))\<rparr>"

lemma deleting_fleet: "fleet (\<lambda>k. k = 3) deleting_system"
proof -
  have "task True (spawn (serve n st f ''DELETE'' path r))" for n st f path r
    using task.request [of "''DELETE''" path n st f r] by (simp add: administrative_def)
  then show ?thesis
    using demo_tasks [of "''suspended''" None] demo_schema [of "''suspended''" None]
    by (simp add: fleet_def deleting_system_def endpoint_states_def, simp add: demo_system_def)
qed

lemma delete_served:
  "serve 2 demo_settings f ''DELETE'' [''v1'', ''projects'', ''prj1''] delete_request =
     deleteProject (main_server 2 demo_settings f) (delete_request\<lparr>in_id := ''prj1''\<rparr>)"
  by (simp add: serve_def main_mux_def Routes_def Register_def Let_def match_method_def requireAuth_def path_value_def
      demo_settings_def read_settings_def env_or_def delete_request_def)

definition deletion_schedule :: "(nat \<times> choice) list" where
  "deletion_schedule = (let t = 1000; gone = RK8s (Inl (DoesNotExist []));
       running = \<lparr>pl_text = [], pl_value = Some (JObj [(''status'', JStr ''running'')]), pl_trailing = False\<rparr> in
     map (Pair 0) ([RNow t, RNow t] @ [Commit t, Commit t, Commit t, Commit t, Commit t, Commit t]) @
     map (Pair 3) [Commit t, Commit t, Commit t, gone, gone] @
     map (Pair 0) [RK8s (Inr NoObject), RK8s (Inr NoObject), RNow t, RNow t,
       RK8s (Inr (PodObject \<lparr>pv_ip = ''10.0.0.1'', pv_phase = ''Running''\<rparr>)),
       RHttp (Inr \<lparr>rs_code = 200, rs_body = running\<rparr>)] @
     map (Pair 3) [RHttp (Inr \<lparr>rs_code = 200, rs_body = running\<rparr>), Commit t] @
     map (Pair 0) [Commit t])"

lemmas delete_defs =
  deleteProject_def with_project_def stop_branch_def ListBranchesByProject_def GetEndpointByBranch_def DeleteTenant_def
  expect2xx_def do_request_def DeleteProject_def delete_project_def delete_branches_def

lemma deleting_system_eq:
  "deleting_system = (demo_system ''suspended'' None)
     \<lparr>sys_progs := (sys_progs (demo_system ''suspended'' None))
        (3 := spawn (deleteProject (main_server 2 demo_settings (\<lambda>pw salt n k. [])) (delete_request\<lparr>in_id := ''prj1''\<rparr>)))\<rparr>"
  unfolding deleting_system_def delete_served ..

lemma pod_address_ok: "text_ok (verb CHR ''s'' (Str ''10.0.0.1'') @ CHR '':'' # verb CHR ''d'' (Num ComputePort))"
proof -
  have "CHR 0x00 \<notin> set (dec_nat n)" for n
    using dec_nat_set [of n] by auto
  then show ?thesis by (simp add: text_ok_def verb_def ComputePort_def dec_def)
qed

lemma deletion_play:
  "case play deletion_schedule deleting_system of None \<Rightarrow> False
   | Some (tr, S) \<Rightarrow> pod_calls ''ep-1'' tr = [(3, False), (0, True)] \<and> ep_state (sys_db S) ''ep-1'' = None \<and>
      sys_progs S 0 = Return () \<and> sys_progs S 3 = Return ()"
  by (simp add: deleting_system_eq deletion_schedule_def demo_defs play_defs numeral_2_eq_2 Let_def
      delete_defs delete_request_def waitReady_def probe_def decode_status_def struct_members_def key_matches_def
      SetEndpointRunning_def writeJSON_def pod_address_ok
      ep_state_def image_iff cong: prog_congs)

section \<open>Properties\<close>

text \<open>C1. In every interleaving of requests to any route, wakes and sweeps, up to a takeover, a repair
  (by a sweep or by the debugging stop) or the reuse of a deleted endpoint's identifier: a program that creates an endpoint's
  pod has won the endpoint's start by a compare-and-swap to \<^verbatim>\<open>starting\<close>, and no other program
  owns a start or a suspension of that endpoint.\<close>

theorem start_has_one_owner:
  assumes "fleet adm S0" and "sys_steps S0 (tr1 @ (k, EK8s c r) # tr2) S"
    and "undisturbed i tr1" and "pod_created c = Some (podName i)"
  shows "(\<exists>ev. (k, ev) \<in> set tr1 \<and> wins i ev) \<and> (\<forall>u. u \<noteq> k \<longrightarrow> roles i tr1 u = Idle)"
proof -
  from fleet_at_call [OF fleet_disciplined [OF assms(1)] assms(2,3)] obtain M where
    M: "fleet_inv adm i M (roles i tr1)" "lease_guar (adm k) i (roles i tr1 k) (EK8s c r)" by auto
  then have own: "roles i tr1 k = Owner" using assms(4) by simp
  from Owner_won [of i "\<lambda>_. Idle" tr1 k] own have "\<exists>ev. (k, ev) \<in> set tr1 \<and> wins i ev"
    by (auto simp: roles_def)
  with fleet_inv_exclusive [OF M(1), of k] own show ?thesis by simp
qed

lemma start_has_one_owner_witness:
  "\<exists>tr1 c r tr2 S.
     sys_steps (demo_system ''suspended'' None) (tr1 @ (0, EK8s c r) # tr2) S \<and>
     pod_created c = Some (podName ''ep-1'') \<and>
     (\<exists>ev. (0, ev) \<in> set tr1 \<and> wins ''ep-1'' ev) \<and> roles ''ep-1'' tr1 1 = Idle"
proof (rule two_starts)
  fix tr1 c r tr2 c' r' S
  assume h: "sys_steps (demo_system ''suspended'' None) (tr1 @ (0, EK8s c r) # tr2 @ [(1, EK8s c' r')]) S"
    "undisturbed ''ep-1'' (tr1 @ (0, EK8s c r) # tr2)" "pod_created c = Some (podName ''ep-1'')"
  then have "undisturbed ''ep-1'' tr1" by (simp add: undisturbed_def undisturbed_append)
  from start_has_one_owner [OF demo_suspended h(1) this h(3)]
  have "\<exists>ev. (0, ev) \<in> set tr1 \<and> wins ''ep-1'' ev" "roles ''ep-1'' tr1 1 = Idle" by auto
  with h(1,3) show ?thesis by blast
qed

text \<open>C2. Up to a takeover, a repair (by a sweep or by the debugging stop) or the reuse of a deleted
  endpoint's identifier, two starts of an endpoint by different programs do not overlap: between the
  first program's creation of the pod and the second's, the first program itself ended its start,
  by publishing the address or by marking the endpoint failed.\<close>

theorem starts_do_not_overlap:
  assumes "fleet adm S0"
    and "sys_steps S0 (tr1 @ (k, EK8s c r) # tr2 @ (k', EK8s c' r') # tr3) S"
    and "undisturbed i (tr1 @ (k, EK8s c r) # tr2)"
    and "pod_created c = Some (podName i)" and "pod_created c' = Some (podName i)" and "k \<noteq> k'"
  shows "\<exists>ev. (k, ev) \<in> set tr2 \<and> ends i ev"
proof -
  let ?tr = "tr1 @ (k, EK8s c r) # tr2"
  from assms(3) have u1: "undisturbed i tr1" and
    u2: "undisturbed_from i (roles i tr1) ((k, EK8s c r) # tr2)"
    by (simp_all add: undisturbed_def undisturbed_append roles_def)
  from fleet_at_call [OF fleet_disciplined [OF assms(1)] assms(2) u1] obtain M where
    "lease_guar (adm k) i (roles i tr1 k) (EK8s c r)" by auto
  then have own: "roles i tr1 k = Owner" using assms(4) by simp
  have "sys_steps S0 (?tr @ (k', EK8s c' r') # tr3) S" using assms(2) by simp
  from fleet_at_call [OF fleet_disciplined [OF assms(1)] this assms(3)] obtain M' where
    M': "fleet_inv adm i M' (roles i ?tr)" "lease_guar (adm k') i (roles i ?tr k') (EK8s c' r')" by auto
  then have "roles i ?tr k' = Owner" using assms(5) by simp
  with fleet_inv_exclusive [OF M'(1), of k'] assms(6) have "roles i ?tr k = Idle" by simp
  then have "roles_from i (roles i tr1) ((k, EK8s c r) # tr2) k \<noteq> Owner"
    by (simp add: roles_def roles_from_append del: roles_from.simps)
  from Owner_ended [OF u2 own this] show ?thesis by (auto simp: ends_def)
qed

lemma starts_do_not_overlap_witness:
  "\<exists>tr1 c r tr2 c' r' S.
     sys_steps (demo_system ''suspended'' None) (tr1 @ (0, EK8s c r) # tr2 @ [(1, EK8s c' r')]) S \<and>
     pod_created c = Some (podName ''ep-1'') \<and> pod_created c' = Some (podName ''ep-1'') \<and>
     (\<exists>ev. (0, ev) \<in> set tr2 \<and> ends ''ep-1'' ev)"
proof (rule two_starts)
  fix tr1 c r tr2 c' r' S
  assume h: "sys_steps (demo_system ''suspended'' None) (tr1 @ (0, EK8s c r) # tr2 @ [(1, EK8s c' r')]) S"
    "undisturbed ''ep-1'' (tr1 @ (0, EK8s c r) # tr2)" "pod_created c = Some (podName ''ep-1'')"
    "pod_created c' = Some (podName ''ep-1'')"
  have "(0 :: nat) \<noteq> 1" by simp
  from starts_do_not_overlap [OF demo_suspended h(1) h(2-4) this] h show ?thesis by blast
qed

text \<open>C3. Up to a takeover, a repair or the reuse of a deleted endpoint's identifier, a program that is
  not a deletion or a debugging stop deletes an endpoint's pod only while it holds the start or the
  suspension of the endpoint, and no other program holds one then.\<close>

theorem pod_deleted_by_holder:
  assumes "fleet adm S0" and "sys_steps S0 (tr1 @ (k, EK8s c r) # tr2) S"
    and "undisturbed i tr1" and "pod_deleted c = Some (podName i)" and "\<not> adm k"
  shows "roles i tr1 k \<noteq> Idle \<and> (\<forall>u. u \<noteq> k \<longrightarrow> roles i tr1 u = Idle)"
proof -
  from fleet_at_call [OF fleet_disciplined [OF assms(1)] assms(2,3)] obtain M where
    M: "fleet_inv adm i M (roles i tr1)" "lease_guar (adm k) i (roles i tr1 k) (EK8s c r)" by auto
  then have "roles i tr1 k \<noteq> Idle" using assms(4,5) by simp
  with fleet_inv_exclusive [OF M(1), of k] show ?thesis by simp
qed

lemma pod_deleted_by_holder_witness:
  "\<exists>tr1 c r S.
     sys_steps (demo_system ''suspended'' None) (tr1 @ [(0, EK8s c r)]) S \<and>
     pod_deleted c = Some (podName ''ep-1'') \<and>
     roles ''ep-1'' tr1 0 \<noteq> Idle \<and> (\<forall>u. u \<noteq> 0 \<longrightarrow> roles ''ep-1'' tr1 u = Idle)"
proof (rule one_stop)
  fix tr1 c r S
  assume h: "sys_steps (demo_system ''suspended'' None) (tr1 @ (0, EK8s c r) # []) S"
    "undisturbed ''ep-1'' tr1" "pod_deleted c = Some (podName ''ep-1'')"
  from pod_deleted_by_holder [OF demo_suspended h(1) h(2) h(3)] h show ?thesis by auto
qed

text \<open>C4. The roles agree with the database as long as there was no takeover, no repair and no reuse of a
  deleted endpoint's identifier: unless the endpoint is deleted, the owner of a start finds it
  \<^verbatim>\<open>starting\<close> and the holder of a suspension \<^verbatim>\<open>suspending\<close>, and the schema's constraints hold.\<close>

theorem roles_agree_with_state:
  assumes "fleet adm S0" and "sys_steps S0 tr S" and "undisturbed i tr"
  shows "schema_ok (sys_db S) \<and>
    (roles i tr k = Owner \<longrightarrow> ep_state (sys_db S) i \<in> {None, Some ''starting''}) \<and>
    (roles i tr k = Suspender \<longrightarrow> ep_state (sys_db S) i \<in> {None, Some ''suspending''})"
  using fleet_reaches [OF fleet_disciplined [OF assms(1)] assms(2,3)]
  by (auto simp: fleet_inv_def dest: lease_inv_Owner lease_inv_Suspender)


lemma roles_agree_with_state_witness:
  "\<exists>tr S. sys_steps (demo_system ''suspended'' None) tr S \<and> roles ''ep-1'' tr 0 = Owner \<and>
     ep_state (sys_db S) ''ep-1'' \<in> {None, Some ''starting''}"
proof (rule one_owner)
  fix tr S
  assume h: "sys_steps (demo_system ''suspended'' None) tr S" "undisturbed ''ep-1'' tr"
    "roles ''ep-1'' tr 0 = Owner"
  from roles_agree_with_state [OF demo_suspended h(1,2), of 0] h show ?thesis by blast
qed

text \<open>C8. Without the restriction on takeovers the exclusion fails. Two wakers find a start that
  nobody has touched for 200 seconds. The first one takes it over, which renews the row, and creates
  its pod. In the same second the second one's compare-and-swap succeeds too, although the row is
  fresh now: it does not look at the row's age again. Both own the start, and the second
  deletes the pod the first has just created.\<close>

theorem takeover_admits_two_owners:
  "\<exists>tr1 M M' tr2 S.
     fleet (\<lambda>_. False) (demo_system ''starting'' None) \<and>
     row_at (sys_db (demo_system ''starting'' None)) ''ep-1'' = Some (''starting'', 0) \<and>
     sys_steps (demo_system ''starting'' None) tr1 M \<and>
     roles ''ep-1'' tr1 0 = Owner \<and> row_at (sys_db M) ''ep-1'' = Some (''starting'', 200 * second) \<and>
     sys_step M (1, ESql [UpdateState ''ep-1'' ''starting'' ''starting''] (Inr (Affected 1))) M' \<and>
     row_at (sys_db M') ''ep-1'' = Some (''starting'', 200 * second) \<and>
     sys_steps M' tr2 S \<and>
     (let tr = tr1 @ (1, ESql [UpdateState ''ep-1'' ''starting'' ''starting''] (Inr (Affected 1))) # tr2 in
        set (clock_readings tr) = {200 * second} \<and> roles ''ep-1'' tr 0 = Owner \<and> roles ''ep-1'' tr 1 = Owner \<and>
        pod_calls ''ep-1'' tr = [(0, False), (0, True), (1, False), (1, True)])"
proof -
  from takeover_play obtain tr1 M x M' tr2 S where
    p: "play first_takeover (demo_system ''starting'' None) = Some (tr1, M)"
      "play [(1, Commit (200 * second))] M = Some (x, M')" "play second_takeover M' = Some (tr2, S)"
    and q: "x = [(1, taken_over)]" "roles ''ep-1'' tr1 0 = Owner"
      "row_at (sys_db M) ''ep-1'' = Some (''starting'', 200 * second)"
      "row_at (sys_db M') ''ep-1'' = Some (''starting'', 200 * second)"
      "let tr = tr1 @ (1, taken_over) # tr2 in
        set (clock_readings tr) = {200 * second} \<and> roles ''ep-1'' tr 0 = Owner \<and> roles ''ep-1'' tr 1 = Owner \<and>
        pod_calls ''ep-1'' tr = [(0, False), (0, True), (1, False), (1, True)]"
    unfolding some_pair Let_def by blast
  have "fleet (\<lambda>_. False) (demo_system ''starting'' None)" by (rule demo_fleet) (simp add: endpoint_states_def)
  moreover have "row_at (sys_db (demo_system ''starting'' None)) ''ep-1'' = Some (''starting'', 0)"
    by (simp add: row_at_def demo_system_def demo_db_def demo_endpoint_def)
  moreover from play_step [OF p(2)] q(1) have "sys_step M (1, taken_over) M'" by auto
  ultimately show ?thesis
    using play_steps [OF p(1)] play_steps [OF p(3)] q(2-5) unfolding taken_over_def by blast
qed

text \<open>C9. Without the restriction on repairs the exclusion fails as well. A sweep that found a
  running endpoint's pod gone sets the endpoint to \<^verbatim>\<open>suspended\<close> without looking at its state
  again; when a waker has moved the endpoint to \<^verbatim>\<open>starting\<close> meanwhile, a second waker wins the
  start while the first still owns it, and both create the pod.\<close>

theorem reconcile_admits_two_owners:
  "\<exists>tr S. fleet (\<lambda>_. False) (demo_system ''running'' (Some ''10.0.0.1:55433'')) \<and>
     sys_steps (demo_system ''running'' (Some ''10.0.0.1:55433'')) tr S \<and>
     roles ''ep-1'' tr 0 = Owner \<and> roles ''ep-1'' tr 1 = Owner \<and>
     pod_calls ''ep-1'' tr = [(0, True), (1, True)]"
proof -
  from reconcile_play obtain tr S where
    "play reconcile_schedule (demo_system ''running'' (Some ''10.0.0.1:55433'')) = Some (tr, S)"
    and "roles ''ep-1'' tr 0 = Owner" "roles ''ep-1'' tr 1 = Owner" "pod_calls ''ep-1'' tr = [(0, True), (1, True)]"
    unfolding some_pair by blast
  moreover have "fleet (\<lambda>_. False) (demo_system ''running'' (Some ''10.0.0.1:55433''))"
    by (rule demo_fleet) (simp add: endpoint_states_def)
  ultimately show ?thesis using play_steps by blast
qed

text \<open>C10. The deletion of a project does not wait for a start in progress. A waker that has won the
  start before the deletion, and creates the pod after the deletion asked for its end, completes
  the start: both requests end, the endpoint's row is gone, and the pod is still there, although
  no sweep will look at it again.\<close>

theorem deletion_leaves_pod:
  "\<exists>tr S. fleet (\<lambda>k. k = 3) deleting_system \<and> sys_steps deleting_system tr S \<and>
     sys_progs S 0 = Return () \<and> sys_progs S 3 = Return () \<and>
     ep_state (sys_db S) ''ep-1'' = None \<and> pod_calls ''ep-1'' tr = [(3, False), (0, True)]"
proof -
  from deletion_play obtain tr S where "play deletion_schedule deleting_system = Some (tr, S)"
    and "pod_calls ''ep-1'' tr = [(3, False), (0, True)]" "ep_state (sys_db S) ''ep-1'' = None"
      "sys_progs S 0 = Return ()" "sys_progs S 3 = Return ()"
    unfolding some_pair by blast
  with deleting_fleet show ?thesis using play_steps by blast
qed

end
