(* ===== verification/Hazards.thy ===== *)
theory Hazards
  imports Schedules
begin









section \<open>A start that is slow but alive\<close>





section \<open>A pod that is still terminating\<close>



section \<open>Properties\<close>



end
