(* ===== verification/Store_Facts.thy ===== *)
theory Store_Facts
  imports Store Clock
begin

text \<open>
  The store against its abstract specification: a catalog of three partial maps, on which a
  statement is a few map updates. A transaction of statements refines its abstract
  counterpart, errors and rollback included; the queries answer from the maps; and what a
  creation stored is what the later lookups return, until the project is deleted.
\<close>

section \<open>The catalog\<close>

record catalog =
  ct_projects :: "string \<Rightarrow> project_row option"
  ct_branches :: "string \<Rightarrow> branch_row option"
  ct_endpoints :: "string \<Rightarrow> endpoint option"

abbreviation lookup :: "('r \<Rightarrow> string) \<Rightarrow> 'r list \<Rightarrow> string \<Rightarrow> 'r option" where
  "lookup k rows \<equiv> (\<lambda>i. List.find (\<lambda>r. k r = i) rows)"

definition catalog_of :: "database \<Rightarrow> catalog" where
  "catalog_of db =
     \<lparr>ct_projects = lookup p_id (projects db), ct_branches = lookup b_id (branches db),
      ct_endpoints = lookup e_id (endpoints db)\<rparr>"

definition project_of :: "catalog \<Rightarrow> string \<Rightarrow> string option" where
  "project_of c b = map_option b_project (ct_branches c b)"

text \<open>A map without the rows that fail a test, and with the others changed.\<close>

definition restrict :: "('r \<Rightarrow> bool) \<Rightarrow> ('r \<Rightarrow> 'r) \<Rightarrow> ('k \<Rightarrow> 'r option) \<Rightarrow> 'k \<Rightarrow> 'r option" where
  "restrict P f m k = (case m k of None \<Rightarrow> None | Some r \<Rightarrow> if P r then Some (f r) else None)"

definition without_parents :: "string set \<Rightarrow> branch_row \<Rightarrow> branch_row" where
  "without_parents gone b =
     (if \<exists>q \<in> gone. b_parent b = Some q then b\<lparr>b_parent := None\<rparr> else b)"

definition drop_branches :: "string set \<Rightarrow> catalog \<Rightarrow> catalog" where
  "drop_branches gone c =
     c\<lparr>ct_branches := restrict (\<lambda>b. b_id b \<notin> gone) (without_parents gone) (ct_branches c),
       ct_endpoints := restrict (\<lambda>e. e_branch e \<notin> gone) id (ct_endpoints c)\<rparr>"

definition change_endpoint :: "string \<Rightarrow> (endpoint \<Rightarrow> bool) \<Rightarrow> (endpoint \<Rightarrow> endpoint) \<Rightarrow> catalog \<Rightarrow> catalog" where
  "change_endpoint i P f c =
     c\<lparr>ct_endpoints := (ct_endpoints c)(i := map_option (\<lambda>e. if P e then f e else e) (ct_endpoints c i))\<rparr>"

text \<open>When a statement is admitted, and what it then does.\<close>

fun admits :: "stmt \<Rightarrow> catalog \<Rightarrow> bool" where
  "admits (InsertProject p) c \<longleftrightarrow>
     text_ok (p_id p) \<and> text_ok (p_name p) \<and> text_ok (p_tenant p) \<and> text_ok (p_role p) \<and> text_ok (p_verifier p)
     \<and> int4_ok (p_pg_version p) \<and> ct_projects c (p_id p) = None
     \<and> (\<forall>r \<in> ran (ct_projects c). p_tenant r \<noteq> p_tenant p)"
| "admits (InsertBranch b) c \<longleftrightarrow>
     text_ok (b_id b) \<and> text_ok (b_project b) \<and> text_ok (b_name b) \<and> text_ok (b_timeline b)
     \<and> (\<forall>q. b_parent b = Some q \<longrightarrow> text_ok q \<and> (q = b_id b \<or> ct_branches c q \<noteq> None))
     \<and> ct_branches c (b_id b) = None \<and> ct_projects c (b_project b) \<noteq> None
     \<and> (\<forall>r \<in> ran (ct_branches c). b_project r = b_project b \<longrightarrow> b_name r \<noteq> b_name b)"
| "admits (InsertEndpoint i b st secs) c \<longleftrightarrow>
     text_ok i \<and> text_ok b \<and> text_ok st \<and> int4_ok secs \<and> st \<in> set endpoint_states \<and> 0 < secs
     \<and> ct_endpoints c i = None \<and> ct_branches c b \<noteq> None \<and> (\<forall>r \<in> ran (ct_endpoints c). e_branch r \<noteq> b)"
| "admits (UpdateState i src dst) c \<longleftrightarrow>
     (\<exists>e. ct_endpoints c i = Some e \<and> e_state e = src) \<longrightarrow> dst \<in> set endpoint_states"
| "admits (UpdateRunning i addr) c \<longleftrightarrow> text_ok addr"
| "admits (UpdateSuspendAfter i secs) c \<longleftrightarrow> int4_ok secs \<and> (ct_endpoints c i \<noteq> None \<longrightarrow> 0 < secs)"
| "admits _ c \<longleftrightarrow> True"

fun effect :: "time \<Rightarrow> stmt \<Rightarrow> catalog \<Rightarrow> catalog" where
  "effect t (InsertProject p) c = c\<lparr>ct_projects := (ct_projects c)(p_id p \<mapsto> project_row_of p t)\<rparr>"
| "effect t (InsertBranch b) c = c\<lparr>ct_branches := (ct_branches c)(b_id b \<mapsto> branch_row_of b t)\<rparr>"
| "effect t (InsertEndpoint i b st secs) c =
     c\<lparr>ct_endpoints := (ct_endpoints c)(i \<mapsto>
         \<lparr>e_id = i, e_branch = b, e_state = st, e_addr = None, e_suspend_after = secs,
          e_last_started = None, e_last_active = None, e_updated = t\<rparr>)\<rparr>"
| "effect t (UpdateState i src dst) c =
     change_endpoint i (\<lambda>e. e_state e = src) (\<lambda>e. e\<lparr>e_state := dst, e_updated := t\<rparr>) c"
| "effect t (UpdateRunning i addr) c =
     change_endpoint i (\<lambda>_. True) (\<lambda>e. e\<lparr>e_state := ''running'', e_addr := Some addr,
       e_last_started := Some t, e_last_active := Some t, e_updated := t\<rparr>) c"
| "effect t (UpdateSuspended i) c =
     change_endpoint i (\<lambda>_. True) (\<lambda>e. e\<lparr>e_state := ''suspended'', e_addr := None, e_updated := t\<rparr>) c"
| "effect t (UpdateSuspendAfter i secs) c =
     change_endpoint i (\<lambda>_. True) (\<lambda>e. e\<lparr>e_suspend_after := secs, e_updated := t\<rparr>) c"
| "effect t (DeleteBranchRow i) c = drop_branches {i} c"
| "effect t (DeleteProjectRow i) c =
     drop_branches {b. project_of c b = Some i} (c\<lparr>ct_projects := (ct_projects c)(i := None)\<rparr>)"
| "effect t _ c = c"

fun catalog_tx :: "time \<Rightarrow> stmt list \<Rightarrow> catalog \<Rightarrow> catalog option" where
  "catalog_tx t [] c = Some c"
| "catalog_tx t (q # qs) c = (if admits q c then catalog_tx t qs (effect t q c) else None)"

section \<open>Lists of rows as maps\<close>

lemma lookup_None: "lookup k rows i = None \<longleftrightarrow> i \<notin> k ` set rows"
  by (auto simp: find_None_iff)

lemma lookup_append:
  "lookup k (rows @ [r]) i = (case lookup k rows i of Some x \<Rightarrow> Some x | None \<Rightarrow> if k r = i then Some r else None)"
  by (induction rows) auto

lemma lookup_add:
  assumes "k r \<notin> k ` set rows"
  shows "lookup k (rows @ [r]) = (lookup k rows)(k r \<mapsto> r)"
proof
  fix i
  have "lookup k rows (k r) = None" using assms by (simp only: lookup_None not_False_eq_True)
  then show "lookup k (rows @ [r]) i = ((lookup k rows)(k r \<mapsto> r)) i"
    unfolding lookup_append by (cases "lookup k rows i") auto
qed

lemma lookup_Some:
  "distinct (map k rows) \<Longrightarrow> lookup k rows i = Some r \<longleftrightarrow> r \<in> set rows \<and> k r = i"
  by (induction rows) (auto simp: image_iff)

lemma ran_lookup: "distinct (map k rows) \<Longrightarrow> ran (lookup k rows) = set rows"
  by (auto simp: ran_def lookup_Some)

lemma lookup_restrict:
  assumes "distinct (map k rows)" and "\<And>r. k (f r) = k r"
  shows "lookup k (map f (filter P rows)) = restrict P f (lookup k rows)"
  using assms(1)
proof (induction rows)
  case (Cons r rows)
  have "lookup k rows (k r) = None" using Cons.prems by (simp add: lookup_None)
  with Cons show ?case
    by (auto simp: fun_eq_iff restrict_def assms(2) split: option.split)
qed (simp add: restrict_def fun_eq_iff)

lemma restrict_cong:
  "(\<And>r. r \<in> ran m \<Longrightarrow> P r = P' r \<and> f r = f' r) \<Longrightarrow> restrict P f m = restrict P' f' m"
  by (auto simp: restrict_def fun_eq_iff ran_def split: option.split)

lemmas lookup_keep = lookup_restrict [of _ _ id, simplified]


section \<open>The tables implement the catalog\<close>

lemma schema_keys:
  assumes "schema_ok db"
  shows "distinct (map p_id (projects db))" "distinct (map b_id (branches db))" "distinct (map e_id (endpoints db))"
  using assms by (simp_all add: schema_ok_def)

lemma catalog_simps [simp]:
  "ct_projects (catalog_of db) = lookup p_id (projects db)"
  "ct_branches (catalog_of db) = lookup b_id (branches db)"
  "ct_endpoints (catalog_of db) = lookup e_id (endpoints db)"
  by (simp_all add: catalog_of_def)

lemma update_refines:
  assumes "\<And>e. e_id (f e) = e_id e"
  shows "catalog_of (update_endpoints (\<lambda>e. e_id e = i \<and> P e) f db) = change_endpoint i P f (catalog_of db)"
proof -
  have "ep_row (update_endpoints (\<lambda>e. e_id e = i \<and> P e) f db) j =
      ((lookup e_id (endpoints db))(i := map_option (\<lambda>e. if P e then f e else e) (ep_row db i))) j" for j
    unfolding ep_row_update [OF assms] by (cases "ep_row db j") (auto dest: ep_row_key)
  then show ?thesis
    by (auto simp: catalog_of_def change_endpoint_def update_endpoints_def fun_eq_iff)
qed

lemmas update_all_refines = update_refines [where P = "\<lambda>_. True", simplified]

lemma branches_refine:
  assumes "schema_ok db"
  shows "catalog_of (delete_branches P db) = drop_branches (b_id ` {b \<in> set (branches db). P b}) (catalog_of db)"
proof -
  let ?gone = "b_id ` {b \<in> set (branches db). P b}"
  have "P b \<longleftrightarrow> b_id b \<in> ?gone" if "b \<in> set (branches db)" for b
    using schema_keys(2) [OF assms] that by (auto simp: distinct_map inj_on_def)
  then have "filter (\<lambda>b. \<not> P b) (branches db) = filter (\<lambda>b. b_id b \<notin> ?gone) (branches db)"
    by (intro filter_cong) simp_all
  moreover have "orphan (map b_id (filter P (branches db))) = without_parents ?gone"
    by (auto simp: fun_eq_iff orphan_def without_parents_def split: option.split)
  moreover have "b_id (without_parents G b) = b_id b" for G b
    by (simp add: without_parents_def)
  ultimately show ?thesis
    using lookup_restrict [OF schema_keys(2) [OF assms], of "without_parents ?gone" "\<lambda>b. b_id b \<notin> ?gone"]
      lookup_keep [OF schema_keys(3) [OF assms], of "\<lambda>e. e_branch e \<notin> ?gone"]
    by (simp add: delete_branches_eq catalog_of_def drop_branches_def)
qed

lemma project_branches:
  assumes "schema_ok db"
  shows "{b. project_of (catalog_of db) b = Some i} = b_id ` {b \<in> set (branches db). b_project b = i}"
  using lookup_Some [OF schema_keys(2) [OF assms]] by (auto simp: project_of_def)

lemma delete_project_refines:
  assumes "schema_ok db"
  shows "catalog_of (delete_project i db) = effect t (DeleteProjectRow i) (catalog_of db)"
proof -
  let ?db = "delete_branches (\<lambda>b. b_project b = i) db"
  have "lookup p_id (projects (?db\<lparr>projects := filter (\<lambda>p. p_id p \<noteq> i) (projects ?db)\<rparr>)) =
      (lookup p_id (projects db))(i := None)"
    using schema_keys(1) [OF assms]
    by (auto simp: delete_branches_def Let_def lookup_keep restrict_def fun_eq_iff dest: find_key split: option.split)
  then show ?thesis
    using branches_refine [OF assms, of "\<lambda>b. b_project b = i"]
    by (simp add: delete_project_def Let_def catalog_of_def drop_branches_def project_branches [OF assms, unfolded catalog_of_def])
qed

lemma has_row: "(\<exists>r \<in> set rows. k r = i) \<longleftrightarrow> lookup k rows i \<noteq> None"
  by (auto simp: find_None_iff)

lemma insert_refines:
  assumes "schema_ok db"
  shows "case insert_project t p db of
      Inl e \<Rightarrow> \<not> admits (InsertProject p) (catalog_of db)
    | Inr db' \<Rightarrow> admits (InsertProject p) (catalog_of db) \<and> catalog_of db' = effect t (InsertProject p) (catalog_of db)"
    and "case insert_branch t b db of
      Inl e \<Rightarrow> \<not> admits (InsertBranch b) (catalog_of db)
    | Inr db' \<Rightarrow> admits (InsertBranch b) (catalog_of db) \<and> catalog_of db' = effect t (InsertBranch b) (catalog_of db)"
    and "case insert_endpoint t i bi st secs db of
      Inl e \<Rightarrow> \<not> admits (InsertEndpoint i bi st secs) (catalog_of db)
    | Inr db' \<Rightarrow> admits (InsertEndpoint i bi st secs) (catalog_of db) \<and>
        catalog_of db' = effect t (InsertEndpoint i bi st secs) (catalog_of db)"
proof -
  note keys = schema_keys [OF assms]
  show "case insert_project t p db of
      Inl e \<Rightarrow> \<not> admits (InsertProject p) (catalog_of db)
    | Inr db' \<Rightarrow> admits (InsertProject p) (catalog_of db) \<and> catalog_of db' = effect t (InsertProject p) (catalog_of db)"
    using lookup_add [of p_id "project_row_of p t" "projects db"]
    by (auto simp: insert_project_def ran_lookup [OF keys(1)] has_row [of _ p_id] catalog_of_def lookup_None)
  show "case insert_branch t b db of
      Inl e \<Rightarrow> \<not> admits (InsertBranch b) (catalog_of db)
    | Inr db' \<Rightarrow> admits (InsertBranch b) (catalog_of db) \<and> catalog_of db' = effect t (InsertBranch b) (catalog_of db)"
    using lookup_add [of b_id "branch_row_of b t" "branches db"]
    by (cases "b_parent b")
      (auto simp: insert_branch_def ran_lookup [OF keys(2)] has_row [of _ p_id] has_row [of _ b_id] catalog_of_def lookup_None)
  show "case insert_endpoint t i bi st secs db of
      Inl e \<Rightarrow> \<not> admits (InsertEndpoint i bi st secs) (catalog_of db)
    | Inr db' \<Rightarrow> admits (InsertEndpoint i bi st secs) (catalog_of db) \<and>
        catalog_of db' = effect t (InsertEndpoint i bi st secs) (catalog_of db)"
    using lookup_add [of e_id _ "endpoints db"]
    by (auto simp: insert_endpoint_def ran_lookup [OF keys(3)] has_row [of _ e_id] has_row [of _ b_id] catalog_of_def lookup_None)
qed

lemma exec_stmt_refines:
  assumes "schema_ok db"
  shows "case exec_stmt t q db of
      Inl e \<Rightarrow> \<not> admits q (catalog_of db)
    | Inr (r, db') \<Rightarrow> admits q (catalog_of db) \<and> catalog_of db' = effect t q (catalog_of db)"
proof (cases q)
  case (InsertProject p)
  with insert_refines(1) [OF assms, where t = t and p = p] show ?thesis by (cases "insert_project t p db") auto
next
  case (InsertBranch b)
  with insert_refines(2) [OF assms, where t = t and b = b] show ?thesis by (cases "insert_branch t b db") auto
next
  case (InsertEndpoint i b st secs)
  with insert_refines(3) [OF assms, where t = t and i = i and bi = b and st = st and secs = secs] show ?thesis by (cases "insert_endpoint t i b st secs db") auto
next
  case (UpdateState i src dst)
  have "matching (\<lambda>e. e_id e = i \<and> e_state e = src) db \<noteq> 0 \<longleftrightarrow> (\<exists>e. ep_row db i = Some e \<and> e_state e = src)"
    unfolding matching_key [OF assms] by (auto split: option.split)
  with UpdateState show ?thesis by (auto simp: Let_def update_refines)
next
  case (UpdateSuspendAfter i secs)
  have "matching (\<lambda>e. e_id e = i) db \<noteq> 0 \<longleftrightarrow> ep_row db i \<noteq> None"
    using matching_key [OF assms, of i "\<lambda>_. True"] by (simp split: option.split)
  with UpdateSuspendAfter show ?thesis by (auto simp: Let_def update_all_refines)
next
  case (DeleteProjectRow i)
  then show ?thesis using delete_project_refines [OF assms, of i t] by (simp del: effect.simps)
next
  case (DeleteBranchRow i)
  have "b_id ` {b \<in> set (branches db). b_id b = i} = {i} \<or>
      b_id ` {b \<in> set (branches db). b_id b = i} = {} \<and> i \<notin> b_id ` set (branches db)" by auto
  moreover have "drop_branches {} (catalog_of db) = drop_branches {i} (catalog_of db)"
    if "i \<notin> b_id ` set (branches db)"
  proof -
    have "b_id b \<noteq> i \<and> b_parent b \<noteq> Some i" if "b \<in> set (branches db)" for b
      using that \<open>i \<notin> _\<close> assms by (force simp: schema_ok_def)
    moreover have "e_branch e \<noteq> i" if "e \<in> set (endpoints db)" for e
      using that \<open>i \<notin> _\<close> assms by (force simp: schema_ok_def)
    ultimately have
      "restrict (\<lambda>b. b_id b \<notin> {}) (without_parents {}) (lookup b_id (branches db)) =
         restrict (\<lambda>b. b_id b \<notin> {i}) (without_parents {i}) (lookup b_id (branches db))"
      "restrict (\<lambda>e. e_branch e \<notin> {}) id (lookup e_id (endpoints db)) =
         restrict (\<lambda>e. e_branch e \<notin> {i}) id (lookup e_id (endpoints db))"
      by (intro restrict_cong; simp add: ran_lookup schema_keys [OF assms] without_parents_def)+
    then show ?thesis by (simp only: drop_branches_def catalog_simps)
  qed
  ultimately have "drop_branches (b_id ` {b \<in> set (branches db). b_id b = i}) (catalog_of db) =
      drop_branches {i} (catalog_of db)"
    by (elim disjE conjE) (simp_all only: not_False_eq_True)
  then have "catalog_of (delete_branches (\<lambda>b. b_id b = i) db) = drop_branches {i} (catalog_of db)"
    by (simp only: branches_refine [OF assms])
  with DeleteBranchRow show ?thesis by simp
qed (simp_all add: Let_def update_all_refines)

lemma exec_stmts_refine:
  "schema_ok db \<Longrightarrow> case exec_stmts t qs r db of
      Inl e \<Rightarrow> catalog_tx t qs (catalog_of db) = None
    | Inr (r', db') \<Rightarrow> catalog_tx t qs (catalog_of db) = Some (catalog_of db')"
proof (induction t qs r db rule: exec_stmts.induct)
  case (2 t q qs r db)
  show ?case
  proof (cases "exec_stmt t q db")
    case (Inl e)
    with exec_stmt_refines [OF 2(2), where t = t and q = q] show ?thesis by simp
  next
    case (Inr rd)
    obtain r' db' where rd: "rd = (r', db')" by (cases rd)
    from exec_stmt_refines [OF 2(2), where t = t and q = q] Inr rd
    have "admits q (catalog_of db)" "catalog_of db' = effect t q (catalog_of db)" by simp_all
    moreover have "schema_ok db'" using exec_stmt_ok Inr rd 2(2) by blast
    ultimately show ?thesis
      using 2(1) [OF Inr [unfolded rd] HOL.refl] Inr rd by (cases "exec_stmts t qs r' db'") auto
  qed
qed simp

section \<open>What a lookup answers\<close>

text \<open>The environments whose database is the model's and loses no statement.\<close>

definition faultless :: "(stmt list \<Rightarrow> 'x \<Rightarrow> err option \<times> time \<times> 'x) \<Rightarrow> bool" where
  "faultless fault \<longleftrightarrow> (\<forall>qs x. fst (fault qs x) = None)"

abbreviation found :: "('r \<Rightarrow> 'a) \<Rightarrow> 'r option \<Rightarrow> (err + 'a) outcome" where
  "found f r \<equiv> Returned (case r of None \<Rightarrow> Inl ErrNotFound | Some x \<Rightarrow> Inr (f x))"

lemma sql_result:
  assumes "faultless fault"
  obtains t x' where "env_sql (with_db fault E) qs (db, x) = (fst (exec_tx t qs db), snd (exec_tx t qs db), x')"
proof -
  obtain t x' where "fault qs x = (None, t, x')"
    using assms by (metis faultless_def prod.collapse)
  with that show thesis by (simp add: with_db_def split_beta Let_def)
qed

lemma read_result:
  assumes "faultless fault" and "\<And>t. exec_stmt t q db = Inr (r, db)"
  shows "result (with_db fault E) (Sql [q] (\<lambda>v. Return (f v))) (db, x) = Returned (f (Inr r)) \<and>
    fst (final (with_db fault E) (Sql [q] (\<lambda>v. Return (f v))) (db, x)) = db"
proof -
  obtain t x' where "env_sql (with_db fault E) [q] (db, x) = (fst (exec_tx t [q] db), snd (exec_tx t [q] db), x')"
    by (rule sql_result [OF assms(1)])
  then show ?thesis by (simp add: exec_tx_single assms(2))
qed

lemma row_reply:
  "or_not_found (query_row_reply sel (Inr r)) =
     (case sel r of None \<Rightarrow> Inl scan_error | Some [] \<Rightarrow> Inl ErrNotFound | Some (x # _) \<Rightarrow> Inr x)"
  by (auto simp: or_not_found_def query_row_reply_def query_reply_def ErrNoRows_def scan_error_def
      split: option.split list.split)

lemma rows_of_key:
  "distinct (map k rows) \<Longrightarrow> filter (\<lambda>r. k r = i) rows = (case lookup k rows i of None \<Rightarrow> [] | Some r \<Rightarrow> [r])"
  by (rule find_distinct_filter)

text \<open>Each lookup by key answers from the map.\<close>

lemma lookup_results:
  assumes ff: "faultless fault" and ok: "schema_ok db"
  shows
    "result (with_db fault E) (GetProjectByID i) (db, x) = found project.truncate (lookup p_id (projects db) i)"
    "result (with_db fault E) (GetBranchByID i) (db, x) = found branch.truncate (lookup b_id (branches db) i)"
    "result (with_db fault E) (GetEndpointByID i) (db, x) = found id (lookup e_id (endpoints db) i)"
    "result (with_db fault E) (GetEndpointByBranch b) (db, x) = found id (lookup e_branch (endpoints db) b)"
proof -
  have eb: "distinct (map e_branch (endpoints db))" using ok by (simp add: schema_ok_def)
  note reads = read_result [OF ff, THEN conjunct1]
  show "result (with_db fault E) (GetProjectByID i) (db, x) = found project.truncate (lookup p_id (projects db) i)"
    unfolding GetProjectByID_def
    by (subst reads, simp) (simp add: row_reply rows_of_key [OF schema_keys(1) [OF ok]] split: option.split)
  show "result (with_db fault E) (GetBranchByID i) (db, x) = found branch.truncate (lookup b_id (branches db) i)"
    unfolding GetBranchByID_def
    by (subst reads, simp) (simp add: row_reply rows_of_key [OF schema_keys(2) [OF ok]] split: option.split)
  show "result (with_db fault E) (GetEndpointByID i) (db, x) = found id (lookup e_id (endpoints db) i)"
    unfolding GetEndpointByID_def scanEndpoint_def
    by (subst reads, simp) (simp add: row_reply rows_of_key [OF schema_keys(3) [OF ok]] split: option.split)
  show "result (with_db fault E) (GetEndpointByBranch b) (db, x) = found id (lookup e_branch (endpoints db) b)"
    unfolding GetEndpointByBranch_def scanEndpoint_def
    by (subst reads, simp) (simp add: row_reply rows_of_key [OF eb] split: option.split)
qed

text \<open>The access-control join: the endpoint's branch and its project.\<close>

definition access_of :: "catalog \<Rightarrow> string \<Rightarrow> access_control option" where
  "access_of c i =
     (case ct_endpoints c i of None \<Rightarrow> None
      | Some e \<Rightarrow> (case ct_branches c (e_branch e) of None \<Rightarrow> None
          | Some b \<Rightarrow> map_option (\<lambda>p. \<lparr>ac_role = p_role p, ac_verifier = p_verifier p, ac_project = p_id p,
                                      ac_branch = b_id b\<rparr>) (ct_projects c (b_project b))))"

lemma concat_filter: "concat (map (\<lambda>x. if P x then [f x] else []) xs) = map f (filter P xs)"
  by (induction xs) auto

lemma concat_filter_list: "concat (map (\<lambda>x. if P x then g x else []) xs) = concat (map g (filter P xs))"
  by (induction xs) auto

lemma access_rows_eq:
  assumes "schema_ok db"
  shows "access_rows i db = (case access_of (catalog_of db) i of None \<Rightarrow> [] | Some a \<Rightarrow> [a])"
  using schema_keys [OF assms]
  by (simp add: access_rows_def concat_filter concat_filter_list rows_of_key access_of_def split: option.split)

lemma access_result:
  assumes "faultless fault" and "schema_ok db"
  shows "result (with_db fault E) (GetAccessControl i) (db, x) = found id (access_of (catalog_of db) i)"
  unfolding GetAccessControl_def
  by (subst read_result [OF assms(1), THEN conjunct1], simp)
    (simp add: row_reply access_rows_eq [OF assms(2)] split: option.split)

lemma list_result:
  assumes "faultless fault"
  shows "result (with_db fault E) (ListBranchesByProject i) (db, x) =
    Returned (Inr (map branch.truncate (sort_key b_created (filter (\<lambda>b. b_project b = i) (branches db)))))"
  unfolding ListBranchesByProject_def
  by (subst read_result [OF assms, THEN conjunct1], simp) (simp add: query_reply_def)

section \<open>Creating and deleting a project\<close>

text \<open>A transaction whose reply is success has happened, at some time of the server's clock.\<close>

lemma tx_result:
  assumes ff: "faultless fault" and ok: "schema_ok db"
    and "result (with_db fault E) (Sql qs (\<lambda>r. Return (exec_reply r))) (db, x) = Returned (Inr ())"
  obtains t where "catalog_tx t qs (catalog_of db) =
        Some (catalog_of (fst (final (with_db fault E) (Sql qs (\<lambda>r. Return (exec_reply r))) (db, x))))"
    and "schema_ok (fst (final (with_db fault E) (Sql qs (\<lambda>r. Return (exec_reply r))) (db, x)))"
proof -
  obtain t x' where sql: "env_sql (with_db fault E) qs (db, x) = (fst (exec_tx t qs db), snd (exec_tx t qs db), x')"
    by (rule sql_result [OF ff])
  with assms(3) obtain v db' where tx: "exec_stmts t qs (Affected 0) db = Inr (v, db')"
    by (cases "exec_stmts t qs (Affected 0) db") (auto simp: exec_tx_def exec_reply_def)
  with exec_stmts_refine [OF ok, of t qs "Affected 0"] have "catalog_tx t qs (catalog_of db) = Some (catalog_of db')"
    by simp
  with that tx exec_stmts_ok [OF tx ok] sql show thesis by (simp add: exec_tx_def)
qed

lemma catalog_eqs:
  "catalog_of db = c \<Longrightarrow> lookup p_id (projects db) i = ct_projects c i"
  "catalog_of db = c \<Longrightarrow> lookup b_id (branches db) i = ct_branches c i"
  "catalog_of db = c \<Longrightarrow> lookup e_id (endpoints db) i = ct_endpoints c i"
  by auto

text \<open>The row \<^verbatim>\<open>insertBranchAndEndpoint\<close> stores for an endpoint.\<close>

definition endpoint_row :: "endpoint \<Rightarrow> time \<Rightarrow> endpoint" where
  "endpoint_row ep t =
     \<lparr>e_id = e_id ep, e_branch = e_branch ep,
      e_state = (if e_state ep = '''' then ''suspended'' else e_state ep), e_addr = None,
      e_suspend_after = (if e_suspend_after ep = 0 then 300 else e_suspend_after ep),
      e_last_started = None, e_last_active = None, e_updated = t\<rparr>"

lemma create_project_catalog:
  "catalog_tx t (InsertProject p # insertBranchAndEndpoint b ep) c =
     (if admits (InsertProject p) c \<and>
         admits (InsertBranch b) (effect t (InsertProject p) c) \<and>
         admits (InsertEndpoint (e_id ep) (e_branch ep) (e_state (endpoint_row ep t)) (e_suspend_after (endpoint_row ep t)))
           (effect t (InsertBranch b) (effect t (InsertProject p) c))
      then Some (c\<lparr>ct_projects := (ct_projects c)(p_id p \<mapsto> project_row_of p t),
                   ct_branches := (ct_branches c)(b_id b \<mapsto> branch_row_of b t),
                   ct_endpoints := (ct_endpoints c)(e_id ep \<mapsto> endpoint_row ep t)\<rparr>)
      else None)"
  by (simp add: insertBranchAndEndpoint_def endpoint_row_def Let_def del: admits.simps)

lemma singleton_list: "set xs = {a} \<Longrightarrow> distinct xs \<Longrightarrow> xs = [a]"
  by (cases xs; cases "tl xs") auto

lemma created_project:
  assumes ff: "faultless fault" and ok: "schema_ok db"
    and refs: "b_project b = p_id p" "e_branch ep = b_id b"
    and won: "result (with_db fault E) (CreateProject p b ep) (db, x) = Returned (Inr ())"
    and db': "db' = fst (final (with_db fault E) (CreateProject p b ep) (db, x))"
  obtains t where "schema_ok db'"
    and "lookup p_id (projects db') (p_id p) = Some (project_row_of p t)"
    and "lookup b_id (branches db') (b_id b) = Some (branch_row_of b t)"
    and "lookup e_id (endpoints db') (e_id ep) = Some (endpoint_row ep t)"
    and "lookup e_branch (endpoints db') (b_id b) = Some (endpoint_row ep t)"
    and "filter (\<lambda>r. b_project r = p_id p) (branches db') = [branch_row_of b t]"
proof -
  obtain t where tx: "catalog_tx t (InsertProject p # insertBranchAndEndpoint b ep) (catalog_of db) = Some (catalog_of db')"
    and ok': "schema_ok db'"
    using tx_result [OF ff ok won [unfolded CreateProject_def]] unfolding db' CreateProject_def by blast
  let ?c = "catalog_of db"
  from tx have fresh: "lookup p_id (projects db) (p_id p) = None"
    and c': "catalog_of db' = ?c\<lparr>ct_projects := (ct_projects ?c)(p_id p \<mapsto> project_row_of p t),
                   ct_branches := (ct_branches ?c)(b_id b \<mapsto> branch_row_of b t),
                   ct_endpoints := (ct_endpoints ?c)(e_id ep \<mapsto> endpoint_row ep t)\<rparr>"
    unfolding create_project_catalog by (auto split: if_splits)
  note keys = schema_keys [OF ok'] and eqs = catalog_eqs [OF c']
  have ep: "lookup e_id (endpoints db') (e_id ep) = Some (endpoint_row ep t)" unfolding eqs by simp
  have eb: "distinct (map e_branch (endpoints db'))" using ok' by (simp add: schema_ok_def)
  from ep refs have by_branch: "lookup e_branch (endpoints db') (b_id b) = Some (endpoint_row ep t)"
    unfolding lookup_Some [OF keys(3)] lookup_Some [OF eb] by (simp add: endpoint_row_def)
  have none: "b_project r \<noteq> p_id p" if "r \<in> set (branches db)" for r
    using ok fresh that unfolding lookup_None by (metis schema_ok_def)
  have "set (filter (\<lambda>r. b_project r = p_id p) (branches db')) = {r \<in> ran (lookup b_id (branches db')). b_project r = p_id p}"
    by (simp add: ran_lookup [OF keys(2)])
  also have "lookup b_id (branches db') = (lookup b_id (branches db))(b_id b \<mapsto> branch_row_of b t)"
    by (rule ext) (simp add: eqs)
  also have "{r \<in> ran \<dots>. b_project r = p_id p} = {branch_row_of b t}"
    using none refs by (auto simp: ran_def split: if_splits dest: find_key)
  finally have "filter (\<lambda>r. b_project r = p_id p) (branches db') = [branch_row_of b t]"
    using keys(2) by (intro singleton_list) (simp_all add: distinct_map)
  with that ok' ep by_branch show thesis by (simp add: eqs)
qed

text \<open>The schema's references lead from an endpoint to its branch and project.\<close>

lemma endpoint_rows:
  assumes "schema_ok db" and "lookup e_id (endpoints db) i = Some e"
  obtains b p where "lookup b_id (branches db) (e_branch e) = Some b" "b_id b = e_branch e"
    and "lookup p_id (projects db) (b_project b) = Some p" "p_id p = b_project b"
proof -
  from assms have "e_branch e \<in> b_id ` set (branches db)" by (auto simp: schema_ok_def dest: find_key)
  then obtain b where b: "lookup b_id (branches db) (e_branch e) = Some b"
    by (metis lookup_None option.exhaust)
  with assms(1) have "b_project b \<in> p_id ` set (projects db)" by (auto simp: schema_ok_def dest: find_key)
  then obtain p where p: "lookup p_id (projects db) (b_project b) = Some p"
    by (metis lookup_None option.exhaust)
  from b p have "b_id b = e_branch e" "p_id p = b_project b" by (auto dest: find_key)
  with that b p show thesis by blast
qed

text \<open>What a deletion leaves.\<close>

lemma access_without_project:
  assumes "schema_ok db" and "catalog_of db' = effect t (DeleteProjectRow i) (catalog_of db)"
  shows "access_of (catalog_of db') j =
    (case access_of (catalog_of db) j of None \<Rightarrow> None | Some a \<Rightarrow> if ac_project a = i then None else Some a)"
proof (cases "lookup e_id (endpoints db) j")
  case None
  then show ?thesis unfolding assms(2) by (simp add: access_of_def drop_branches_def restrict_def)
next
  case (Some e)
  then obtain b p where rows: "lookup b_id (branches db) (e_branch e) = Some b" "b_id b = e_branch e"
    "lookup p_id (projects db) (b_project b) = Some p" "p_id p = b_project b"
    by (rule endpoint_rows [OF assms(1)])
  show ?thesis
    unfolding assms(2) using Some rows
    by (auto simp: access_of_def drop_branches_def restrict_def project_of_def without_parents_def)
qed

section \<open>Properties\<close>

text \<open>C13. A transaction of the store's statements refines its abstract counterpart on the
  catalog of three maps: it fails exactly when a statement's constraints forbid it, and then
  changes nothing; otherwise it performs the map updates of its statements one after the
  other. Either way the keys, references and checks of the schema hold afterwards.\<close>

theorem transactions_refine_catalog:
  assumes "schema_ok db"
  shows "case exec_tx t qs db of
      (Inl e, db') \<Rightarrow> catalog_tx t qs (catalog_of db) = None \<and> db' = db
    | (Inr r, db') \<Rightarrow> catalog_tx t qs (catalog_of db) = Some (catalog_of db') \<and> schema_ok db'"
  using exec_stmts_refine [OF assms, of t qs "Affected 0"] exec_stmts_ok [OF _ assms, of t qs "Affected 0"]
  by (cases "exec_stmts t qs (Affected 0) db") (auto simp: exec_tx_def)

definition demo_project :: project where
  "demo_project = \<lparr>p_id = ''prj-1'', p_name = ''shop'', p_tenant = ''t1'', p_pg_version = 17,
     p_role = ''firth'', p_verifier = ''SCRAM-SHA-256''\<rparr>"

definition demo_branch :: branch where
  "demo_branch = \<lparr>b_id = ''br-1'', b_project = ''prj-1'', b_name = ''main'', b_timeline = ''tl1'',
     b_parent = None, b_default = True\<rparr>"

definition demo_endpoint :: endpoint where
  "demo_endpoint = \<lparr>e_id = ''ep-1'', e_branch = ''br-1'', e_state = [], e_addr = None, e_suspend_after = 0,
     e_last_started = None, e_last_active = None, e_updated = 0\<rparr>"

lemma transactions_refine_catalog_witness:
  "case exec_tx 7 (InsertProject demo_project # insertBranchAndEndpoint demo_branch demo_endpoint) empty_db of
      (Inl e, db') \<Rightarrow> catalog_tx 7 (InsertProject demo_project # insertBranchAndEndpoint demo_branch demo_endpoint)
        (catalog_of empty_db) = None \<and> db' = empty_db
    | (Inr r, db') \<Rightarrow> catalog_tx 7 (InsertProject demo_project # insertBranchAndEndpoint demo_branch demo_endpoint)
        (catalog_of empty_db) = Some (catalog_of db') \<and> schema_ok db'"
  by (rule transactions_refine_catalog [OF empty_db_ok])

text \<open>C26. What \<^verbatim>\<open>CreateProject\<close> stored is what the lookups return: the project, the branch, the
  project's list of branches, the endpoint by its id and by its branch in state suspended with
  300 seconds when none is given, and the role and verifier the proxy asks for.\<close>

theorem created_project_reads_back:
  assumes "faultless fault" and "schema_ok db" and "b_project b = p_id p" and "e_branch ep = b_id b"
    and "result (with_db fault E) (CreateProject p b ep) (db, x) = Returned (Inr ())"
    and "db' = fst (final (with_db fault E) (CreateProject p b ep) (db, x))"
  shows "result (with_db fault E) (GetProjectByID (p_id p)) (db', y) = Returned (Inr p) \<and>
    result (with_db fault E) (GetBranchByID (b_id b)) (db', y) = Returned (Inr b) \<and>
    result (with_db fault E) (ListBranchesByProject (p_id p)) (db', y) = Returned (Inr [b]) \<and>
    result (with_db fault E) (GetAccessControl (e_id ep)) (db', y) = Returned (Inr
      \<lparr>ac_role = p_role p, ac_verifier = p_verifier p, ac_project = p_id p, ac_branch = b_id b\<rparr>) \<and>
    (\<exists>t. result (with_db fault E) (GetEndpointByID (e_id ep)) (db', y) = Returned (Inr (endpoint_row ep t)) \<and>
      result (with_db fault E) (GetEndpointByBranch (b_id b)) (db', y) = Returned (Inr (endpoint_row ep t)))"
proof -
  obtain t where ok: "schema_ok db'" and rows: "lookup p_id (projects db') (p_id p) = Some (project_row_of p t)"
    "lookup b_id (branches db') (b_id b) = Some (branch_row_of b t)"
    "lookup e_id (endpoints db') (e_id ep) = Some (endpoint_row ep t)"
    "lookup e_branch (endpoints db') (b_id b) = Some (endpoint_row ep t)"
    "filter (\<lambda>r. b_project r = p_id p) (branches db') = [branch_row_of b t]"
    by (rule created_project [OF assms])
  have "access_of (catalog_of db') (e_id ep) =
      Some \<lparr>ac_role = p_role p, ac_verifier = p_verifier p, ac_project = p_id p, ac_branch = b_id b\<rparr>"
    using rows assms(3,4)
    by (simp add: access_of_def endpoint_row_def project_row_of_def branch_row_of_def project.defs branch.defs)
  then show ?thesis
    by (auto simp: lookup_results [OF assms(1) ok] access_result [OF assms(1) ok] list_result [OF assms(1)] rows)
qed

definition demo_db_env :: "(database \<times> time) env" where
  "demo_db_env = with_db (\<lambda>qs t. (None, t, t + 1)) quiet_env"

lemma demo_faultless: "faultless (\<lambda>qs t. (None, t, t + 1))"
  by (simp add: faultless_def)

lemma demo_created:
  "result demo_db_env (CreateProject demo_project demo_branch demo_endpoint) (empty_db, 7) = Returned (Inr ())"
  by code_simp

definition demo_db :: database where
  "demo_db = fst (final demo_db_env (CreateProject demo_project demo_branch demo_endpoint) (empty_db, 7))"

lemma demo_db_ok: "schema_ok demo_db"
  using exec_tx_ok [OF empty_db_ok]
  by (simp add: demo_db_def demo_db_env_def CreateProject_def with_db_def split_beta Let_def)

lemma created_project_reads_back_witness:
  "result demo_db_env (ListBranchesByProject ''prj-1'') (demo_db, 9) = Returned (Inr [demo_branch])"
  using created_project_reads_back [OF demo_faultless empty_db_ok _ _ demo_created [unfolded demo_db_env_def] HOL.refl]
  by (simp add: demo_project_def demo_branch_def demo_endpoint_def demo_db_env_def demo_db_def)

text \<open>C27. After \<^verbatim>\<open>DeleteProject\<close> the project is not found, it has no branches, and no endpoint of
  its branches is found; the access control of every other endpoint and every other project
  are what they were.\<close>

theorem deleted_project_is_gone:
  assumes "faultless fault" and "schema_ok db"
    and "db' = fst (final (with_db fault E) (DeleteProject i) (db, x))"
  shows "result (with_db fault E) (DeleteProject i) (db, x) = Returned (Inr ()) \<and>
    result (with_db fault E) (GetProjectByID j) (db', y) =
      (if j = i then Returned (Inl ErrNotFound) else result (with_db fault E) (GetProjectByID j) (db, y)) \<and>
    result (with_db fault E) (ListBranchesByProject i) (db', y) = Returned (Inr []) \<and>
    result (with_db fault E) (GetAccessControl k) (db', y) =
      (case result (with_db fault E) (GetAccessControl k) (db, y) of
         Returned (Inr ac) \<Rightarrow> if ac_project ac = i then Returned (Inl ErrNotFound) else Returned (Inr ac)
       | r \<Rightarrow> r)"
proof -
  obtain t x' where sql: "env_sql (with_db fault E) [DeleteProjectRow i] (db, x) =
      (fst (exec_tx t [DeleteProjectRow i] db), snd (exec_tx t [DeleteProjectRow i] db), x')"
    by (rule sql_result [OF assms(1)])
  then have db': "db' = delete_project i db"
    and won: "result (with_db fault E) (DeleteProject i) (db, x) = Returned (Inr ())"
    by (simp_all add: assms(3) DeleteProject_def exec_tx_single exec_reply_def)
  have ok: "schema_ok db'" unfolding db' by (rule delete_project_ok [OF assms(2)])
  have cat: "catalog_of db' = effect t (DeleteProjectRow i) (catalog_of db)"
    unfolding db' by (rule delete_project_refines [OF assms(2)])
  have "lookup p_id (projects db') j = (if j = i then None else lookup p_id (projects db) j)"
    unfolding catalog_eqs(1) [OF cat] by (simp add: drop_branches_def)
  moreover have "filter (\<lambda>b. b_project b = i) (branches db') = []"
    by (auto simp: db' delete_project_def Let_def delete_branches_eq filter_empty_conv)
  ultimately show ?thesis
    using won by (simp add: lookup_results [OF assms(1)] ok assms(2) access_result [OF assms(1)]
        list_result [OF assms(1)] access_without_project [OF assms(2) cat] split: option.split)
qed

lemma deleted_project_is_gone_witness:
  "result demo_db_env (GetAccessControl ''ep-1'')
     (fst (final demo_db_env (DeleteProject ''prj-1'') (demo_db, 8)), 9) = Returned (Inl ErrNotFound)"
proof -
  have before: "result demo_db_env (GetAccessControl ''ep-1'') (demo_db, 9) = Returned (Inr
      \<lparr>ac_role = ''firth'', ac_verifier = ''SCRAM-SHA-256'', ac_project = ''prj-1'', ac_branch = ''br-1''\<rparr>)"
    by code_simp
  from deleted_project_is_gone [OF demo_faultless demo_db_ok HOL.refl, of quiet_env "''prj-1''" 8 "''prj-1''" 9 "''ep-1''"]
  show ?thesis using before by (simp add: demo_db_env_def)
qed

text \<open>\<^verbatim>\<open>TransitionEndpoint\<close> is a compare-and-swap: it reports success exactly when the
  endpoint was in the expected state, then sets the new state and the time of the change on
  this row and touches nothing else; otherwise it leaves the database alone.\<close>

lemma transition_is_cas:
  assumes "faultless fault" and "schema_ok db" and "dst \<in> set endpoint_states"
  shows "result (with_db fault E) (TransitionEndpoint i src dst) (db, x) =
      Returned (Inr (ep_state db i = Some src)) \<and>
    (\<exists>t. fst (final (with_db fault E) (TransitionEndpoint i src dst) (db, x)) =
       (if ep_state db i = Some src
        then db\<lparr>endpoints := map (\<lambda>e. if e_id e = i then e\<lparr>e_state := dst, e_updated := t\<rparr> else e) (endpoints db)\<rparr>
        else db))"
proof -
  obtain t x' where sql: "env_sql (with_db fault E) [UpdateState i src dst] (db, x) =
      (fst (exec_tx t [UpdateState i src dst] db), snd (exec_tx t [UpdateState i src dst] db), x')"
    by (rule sql_result [OF assms(1)])
  have "e_state e = src" if "ep_state db i = Some src" "e \<in> set (endpoints db)" "e_id e = i" for e
  proof -
    from that lookup_Some [OF schema_keys(3) [OF assms(2)], of i e] have "ep_row db i = Some e" by blast
    with that show ?thesis by (simp add: ep_state_def)
  qed
  then have "ep_state db i = Some src \<Longrightarrow>
      update_endpoints (\<lambda>e. e_id e = i \<and> e_state e = src) (\<lambda>e. e\<lparr>e_state := dst, e_updated := t\<rparr>) db =
      db\<lparr>endpoints := map (\<lambda>e. if e_id e = i then e\<lparr>e_state := dst, e_updated := t\<rparr> else e) (endpoints db)\<rparr>"
    by (simp add: update_endpoints_def cong: map_cong conj_cong)
  with sql show ?thesis
    by (auto simp: TransitionEndpoint_def cas_outcome [OF assms(2,3)])
qed

lemma transition_is_cas_witness:
  "result demo_db_env (TransitionEndpoint ''ep-1'' ''suspended'' ''starting'') (demo_db, 8) = Returned (Inr True)"
proof -
  have "ep_state demo_db ''ep-1'' = Some ''suspended''" by code_simp
  with transition_is_cas [OF demo_faultless demo_db_ok, of "''starting''" quiet_env "''ep-1''" "''suspended''" 8]
  show ?thesis by (simp add: demo_db_env_def endpoint_states_def)
qed

end
