(* ===== verification/Responsive.thy ===== *)
theory Responsive
  imports Store_Facts Controlplane
begin

text \<open>
  Progress. \<open>attains E p x Q\<close> says that the program \<open>p\<close>, run from \<open>x\<close>, returns with a result and a
  state that satisfy \<open>Q\<close>. \<open>responsive\<close> says of an environment what the services around the control
  plane document, as far as one endpoint is concerned: calls take at most a second, the database
  commits, the Kubernetes API creates, reads and deletes the endpoint's objects by name, a deleted
  pod may keep its name for a grace period, a pod whose containers have ended keeps it until it is
  deleted, and a new pod's compute reports \<^verbatim>\<open>running\<close> at most \<open>boot\<close> after its creation. A \<open>view\<close>
  reads off the environment's state what these laws speak of.
\<close>

section \<open>Total correctness of a run\<close>

definition attains :: "'x env \<Rightarrow> 'a prog \<Rightarrow> 'x \<Rightarrow> ('a \<Rightarrow> 'x \<Rightarrow> bool) \<Rightarrow> bool" where
  "attains E p x Q \<longleftrightarrow> (case result E p x of Returned a \<Rightarrow> Q a (final E p x) | _ \<Rightarrow> False)"

lemma attains_simps [simp]:
  "attains E (Return a) x Q \<longleftrightarrow> Q a x"
  "attains E (Now k) x Q \<longleftrightarrow> (case env_now E x of (r, x1) \<Rightarrow> attains E (k r) x1 Q)"
  "attains E (Sleep d k2) x Q \<longleftrightarrow> (case env_sleep E d x of (s, x1) \<Rightarrow> attains E (k2 s) x1 Q)"
  "attains E (Http q k4) x Q \<longleftrightarrow> (case env_http E q x of (h, x1) \<Rightarrow> attains E (k4 h) x1 Q)"
  "attains E (K8s c k5) x Q \<longleftrightarrow> (case env_k8s E c x of (o1, x1) \<Rightarrow> attains E (k5 o1) x1 Q)"
  "attains E (Sql qs k6) x Q \<longleftrightarrow> (case env_sql E qs x of (v, x1) \<Rightarrow> attains E (k6 v) x1 Q)"
  by (simp_all add: attains_def split_beta cong: outcome.case_cong)

lemma attains_bind: "attains E (bind p f) x Q \<longleftrightarrow> attains E p x (\<lambda>a x'. attains E (f a) x' Q)"
  by (simp add: attains_def result_bind final_bind split: outcome.split)

lemma attains_mono: "attains E p x P \<Longrightarrow> (\<And>a x'. P a x' \<Longrightarrow> Q a x') \<Longrightarrow> attains E p x Q"
  by (auto simp: attains_def split: outcome.splits)

lemma attains_bindI:
  "attains E p x P \<Longrightarrow> (\<And>a x'. P a x' \<Longrightarrow> attains E (f a) x' Q) \<Longrightarrow> attains E (bind p f) x Q"
  unfolding attains_bind by (erule attains_mono)

text \<open>The call succeeds.\<close>

lemma attains_checkI:
  "attains E p x (\<lambda>r x'. \<exists>a. r = Inr a \<and> P a x') \<Longrightarrow> (\<And>a x'. P a x' \<Longrightarrow> attains E (k a) x' Q) \<Longrightarrow>
     attains E (check p h k) x Q"
  unfolding check_def by (erule attains_bindI) auto

lemma attains_callI:
  "attains E p x P \<Longrightarrow> (\<And>r x'. P r x' \<Longrightarrow> \<exists>a. r = Inr a) \<Longrightarrow>
     (\<And>a x'. P (Inr a) x' \<Longrightarrow> attains E (k a) x' Q) \<Longrightarrow> attains E (check p h k) x Q"
  unfolding check_def by (erule attains_bindI) (fastforce split: sum.split)

lemma attains_result: "attains E p x Q \<Longrightarrow> \<exists>a. result E p x = Returned a \<and> Q a (final E p x)"
  by (auto simp: attains_def split: outcome.splits)

section \<open>Responsive environments\<close>

text \<open>The pod under an endpoint's name: none; one with its address and the time from which its
  compute answers; one whose containers have ended, which are not restarted; one that was deleted
  and is gone at the latest at the given time.\<close>

datatype pod_life = Absent | Alive string time | Dead string | Terminating time

text \<open>The clock, the tables, and the pod and the config map of the endpoint in question.\<close>

record 'x view =
  vw_clock :: "'x \<Rightarrow> time"
  vw_db :: "'x \<Rightarrow> database"
  vw_pod :: "'x \<Rightarrow> pod_life"
  vw_map :: "'x \<Rightarrow> bool"

definition elapses :: "duration \<Rightarrow> 'x view \<Rightarrow> 'x \<Rightarrow> 'x \<Rightarrow> bool" where
  "elapses d V x x' \<longleftrightarrow> vw_clock V x \<le> vw_clock V x' \<and> vw_clock V x' \<le> vw_clock V x + d"

definition same_cluster :: "'x view \<Rightarrow> 'x \<Rightarrow> 'x \<Rightarrow> bool" where
  "same_cluster V x x' \<longleftrightarrow> vw_pod V x' = vw_pod V x \<and> vw_map V x' = vw_map V x"

definition prompt_clock :: "'x view \<Rightarrow> 'x env \<Rightarrow> bool" where
  "prompt_clock V E \<longleftrightarrow>
     (\<forall>x. case env_now E x of (t, x') \<Rightarrow> vw_clock V x \<le> t \<and> t \<le> vw_clock V x' \<and>
        elapses second V x x' \<and> vw_db V x' = vw_db V x \<and> same_cluster V x x') \<and>
     (\<forall>d x. 0 \<le> d \<longrightarrow> (case env_sleep E d x of (r, x') \<Rightarrow> r = None \<and> vw_clock V x + d \<le> vw_clock V x' \<and>
        elapses (d + second) V x x' \<and> vw_db V x' = vw_db V x \<and> same_cluster V x x'))"

text \<open>Transactions commit; only an update of another endpoint may fail.\<close>

fun elsewhere :: "string \<Rightarrow> stmt list \<Rightarrow> bool" where
  "elsewhere i [UpdateState j src dst] = (j \<noteq> i)"
| "elsewhere i [UpdateSuspended j] = (j \<noteq> i)"
| "elsewhere i qs = False"

definition committing_db :: "string \<Rightarrow> 'x view \<Rightarrow> 'x env \<Rightarrow> bool" where
  "committing_db i V E \<longleftrightarrow>
     (\<forall>qs x. case env_sql E qs x of (r, x') \<Rightarrow>
        ((\<exists>t. vw_clock V x \<le> t \<and> t \<le> vw_clock V x' \<and> exec_tx t qs (vw_db V x) = (r, vw_db V x')) \<or>
         elsewhere i qs \<and> isl r \<and> vw_db V x' = vw_db V x) \<and>
        elapses second V x x' \<and> same_cluster V x x')"

text \<open>The calls about the endpoint's own objects.\<close>

fun concerns :: "string \<Rightarrow> string \<Rightarrow> k8s_call \<Rightarrow> bool" where
  "concerns ns i (CreateConfigMap n cm) = (n = ns \<and> cm_name cm = configMapName i)"
| "concerns ns i (GetConfigMap n m) = (n = ns \<and> m = configMapName i)"
| "concerns ns i (UpdateConfigMap n cm) = (n = ns \<and> cm_name cm = configMapName i)"
| "concerns ns i (DeleteConfigMap n m) = (n = ns \<and> m = configMapName i)"
| "concerns ns i (CreatePod n p) = (n = ns \<and> po_name p = podName i)"
| "concerns ns i (DeletePod n m) = (n = ns \<and> m = podName i)"
| "concerns ns i (GetPod n m) = (n = ns \<and> m = podName i)"

text \<open>A pod that is there is up within \<open>boot\<close>, one that was deleted is gone within \<open>grace\<close>.\<close>

definition timely :: "duration \<Rightarrow> duration \<Rightarrow> 'x view \<Rightarrow> 'x \<Rightarrow> bool" where
  "timely boot grace V x \<longleftrightarrow>
     (case vw_pod V x of
        Absent \<Rightarrow> True
      | Alive ip up \<Rightarrow> ip \<noteq> [] \<and> text_ok ip \<and> up \<le> vw_clock V x + boot
      | Dead ip \<Rightarrow> text_ok ip
      | Terminating g \<Rightarrow> g \<le> vw_clock V x + grace)"

definition created :: "'x view \<Rightarrow> k8s_error + k8s_object \<Rightarrow> 'x \<Rightarrow> bool" where
  "created V r x' \<longleftrightarrow> (\<exists>v. r = Inr v) \<and> (\<exists>ip up. vw_pod V x' = Alive ip up)"

definition taken :: "'x view \<Rightarrow> 'x \<Rightarrow> k8s_error + k8s_object \<Rightarrow> 'x \<Rightarrow> bool" where
  "taken V x r x' \<longleftrightarrow> (\<exists>m. r = Inl (AlreadyExists m)) \<and> vw_pod V x' = vw_pod V x"

fun cluster_law :: "'x view \<Rightarrow> k8s_call \<Rightarrow> 'x \<Rightarrow> k8s_error + k8s_object \<Rightarrow> 'x \<Rightarrow> bool" where
  "cluster_law V (CreateConfigMap ns cm) x r x' =
     (vw_pod V x' = vw_pod V x \<and> vw_map V x' \<and>
      (if vw_map V x then (\<exists>m. r = Inl (AlreadyExists m)) else (\<exists>v. r = Inr v)))"
| "cluster_law V (GetConfigMap ns n) x r x' =
     (same_cluster V x x' \<and> (vw_map V x \<longrightarrow> (\<exists>cm. r = Inr (ConfigMapObject cm) \<and> cm_name cm = n)))"
| "cluster_law V (UpdateConfigMap ns cm) x r x' =
     (same_cluster V x x' \<and> (vw_map V x \<longrightarrow> (\<exists>v. r = Inr v)))"
| "cluster_law V (DeleteConfigMap ns n) x r x' =
     (vw_pod V x' = vw_pod V x \<and> \<not> vw_map V x' \<and> ((\<exists>v. r = Inr v) \<or> (\<exists>m. r = Inl (DoesNotExist m))))"
| "cluster_law V (CreatePod ns p) x r x' =
     (vw_map V x' = vw_map V x \<and>
      (case vw_pod V x of
         Absent \<Rightarrow> created V r x'
       | Terminating g \<Rightarrow> created V r x' \<or> vw_clock V x < g \<and> taken V x r x'
       | _ \<Rightarrow> taken V x r x'))"
| "cluster_law V (DeletePod ns n) x r x' =
     (vw_map V x' = vw_map V x \<and> ((\<exists>v. r = Inr v) \<or> (\<exists>m. r = Inl (DoesNotExist m))) \<and>
      (case vw_pod V x of
         Absent \<Rightarrow> vw_pod V x' = Absent
       | Terminating g \<Rightarrow> vw_pod V x' = Terminating g
       | _ \<Rightarrow> (\<exists>g. vw_pod V x' = Terminating g)))"
| "cluster_law V (GetPod ns n) x r x' =
     (same_cluster V x x' \<and>
      (case vw_pod V x of
         Absent \<Rightarrow> (\<exists>m. r = Inl (DoesNotExist m))
       | Alive ip up \<Rightarrow> (\<exists>p. r = Inr (PodObject p) \<and> pv_ip p \<in> {[], ip} \<and> (pv_phase p = ''Running'' \<longrightarrow> pv_ip p = ip) \<and>
           (up \<le> vw_clock V x \<longrightarrow> p = \<lparr>pv_ip = ip, pv_phase = ''Running''\<rparr>))
       | Dead ip \<Rightarrow> (\<exists>p. r = Inr (PodObject p) \<and> pv_ip p \<in> {[], ip} \<and> pv_phase p \<noteq> ''Running'')
       | Terminating g \<Rightarrow> (\<exists>m. r = Inl (DoesNotExist m)) \<or>
           vw_clock V x < g \<and> (\<exists>p. r = Inr (PodObject p) \<and> text_ok (pv_ip p))))"

definition orderly_cluster :: "string \<Rightarrow> string \<Rightarrow> duration \<Rightarrow> duration \<Rightarrow> 'x view \<Rightarrow> 'x env \<Rightarrow> bool" where
  "orderly_cluster ns i boot grace V E \<longleftrightarrow>
     (\<forall>c x. case env_k8s E c x of (r, x') \<Rightarrow> elapses second V x x' \<and> vw_db V x' = vw_db V x \<and>
        (if concerns ns i c
         then cluster_law V c x r x' \<and> (timely boot grace V x \<longrightarrow> timely boot grace V x')
         else same_cluster V x x'))"

definition status_request :: "string \<Rightarrow> http_request" where
  "status_request ip = \<lparr>rq_method = ''GET'', rq_url = sprintf ''http://%s:3080/status'' [Str ip], rq_body = None\<rparr>"

text \<open>The compute of a pod that is there answers from its time on; that of a dead one does not report
  \<^verbatim>\<open>running\<close>.\<close>

definition compute_law :: "'x view \<Rightarrow> 'x env \<Rightarrow> 'x \<Rightarrow> bool" where
  "compute_law V E x \<longleftrightarrow>
     (case vw_pod V x of
        Alive ip up \<Rightarrow>
          (case fst (env_http E (status_request ip) x) of
             Inl _ \<Rightarrow> vw_clock V x < up
           | Inr rs \<Rightarrow> if up \<le> vw_clock V x then fst (decode_status (rs_body rs)) = ''running''
                      else fst (decode_status (rs_body rs)) \<noteq> ''failed'')
      | Dead ip \<Rightarrow>
          (case fst (env_http E (status_request ip) x) of
             Inl _ \<Rightarrow> True
           | Inr rs \<Rightarrow> fst (decode_status (rs_body rs)) \<noteq> ''running'')
      | _ \<Rightarrow> True)"

definition booting_computes :: "'x view \<Rightarrow> 'x env \<Rightarrow> bool" where
  "booting_computes V E \<longleftrightarrow>
     (\<forall>q x. case env_http E q x of (r, x') \<Rightarrow> elapses second V x x' \<and> vw_db V x' = vw_db V x \<and> same_cluster V x x') \<and>
     (\<forall>x. compute_law V E x)"

definition responsive :: "string \<Rightarrow> string \<Rightarrow> duration \<Rightarrow> duration \<Rightarrow> 'x view \<Rightarrow> 'x env \<Rightarrow> bool" where
  "responsive ns i boot grace V E \<longleftrightarrow>
     prompt_clock V E \<and> committing_db i V E \<and> orderly_cluster ns i boot grace V E \<and> booting_computes V E"

section \<open>The laws, one effect at a time\<close>

text \<open>Time passes and the cluster is left alone; the tables are, too.\<close>

definition later :: "'x view \<Rightarrow> 'x \<Rightarrow> 'x \<Rightarrow> bool" where
  "later V x x' \<longleftrightarrow> vw_clock V x \<le> vw_clock V x' \<and> same_cluster V x x'"

definition keeps :: "'x view \<Rightarrow> 'x \<Rightarrow> 'x \<Rightarrow> bool" where
  "keeps V x x' \<longleftrightarrow> vw_db V x' = vw_db V x \<and> later V x x'"

lemma later_eqs:
  "later V x x' \<Longrightarrow> vw_pod V x' = vw_pod V x" "later V x x' \<Longrightarrow> vw_map V x' = vw_map V x"
  "later V x x' \<Longrightarrow> vw_clock V x \<le> vw_clock V x'"
  by (simp_all add: later_def same_cluster_def)

lemma keeps_eqs:
  "keeps V x x' \<Longrightarrow> vw_db V x' = vw_db V x" "keeps V x x' \<Longrightarrow> vw_pod V x' = vw_pod V x"
  "keeps V x x' \<Longrightarrow> vw_map V x' = vw_map V x"
  by (simp_all add: keeps_def later_eqs)

lemma keeps_clock: "keeps V x x' \<Longrightarrow> vw_clock V x \<le> vw_clock V x'"
  by (simp add: keeps_def later_eqs)

lemma keeps_later: "keeps V x x' \<Longrightarrow> later V x x'"
  by (simp add: keeps_def)

lemma later_trans: "later V x y \<Longrightarrow> later V y z \<Longrightarrow> later V x z"
  by (simp add: later_def same_cluster_def)

lemma keeps_trans: "keeps V x y \<Longrightarrow> keeps V y z \<Longrightarrow> keeps V x z"
  by (auto simp: keeps_def intro: later_trans)

lemma elapses_trans: "elapses d V x y \<Longrightarrow> elapses d' V y z \<Longrightarrow> elapses (d + d') V x z"
  by (auto simp: elapses_def)

lemma elapses_mono: "elapses d V x y \<Longrightarrow> d \<le> d' \<Longrightarrow> elapses d' V x y"
  by (simp add: elapses_def)

lemma elapses_later: "elapses d V x x' \<Longrightarrow> same_cluster V x x' \<Longrightarrow> later V x x'"
  by (simp add: elapses_def later_def)

lemma timely_later: "timely boot grace V x \<Longrightarrow> later V x x' \<Longrightarrow> timely boot grace V x'"
  by (auto simp: timely_def later_eqs split: pod_life.splits dest: later_eqs(3))

lemma at_pair: "\<forall>x. (case f x of (r, x') \<Rightarrow> P x r x') \<Longrightarrow> f x = (r, x') \<Longrightarrow> P x r x'"
  by (drule spec [of _ x]) simp

lemma now_law:
  assumes "responsive ns i boot grace V E" and "env_now E x = (t, x')"
  shows "vw_clock V x \<le> t \<and> t \<le> vw_clock V x' \<and> elapses second V x x' \<and> keeps V x x'"
proof -
  have "\<forall>x. case env_now E x of (t, x') \<Rightarrow> vw_clock V x \<le> t \<and> t \<le> vw_clock V x' \<and>
      elapses second V x x' \<and> vw_db V x' = vw_db V x \<and> same_cluster V x x'"
    using assms(1) by (simp add: responsive_def prompt_clock_def)
  from at_pair [OF this assms(2)] show ?thesis by (auto simp: keeps_def intro: elapses_later)
qed

lemma sleep_law:
  assumes "responsive ns i boot grace V E" and "env_sleep E d x = (r, x')" and "0 \<le> d"
  shows "r = None \<and> vw_clock V x + d \<le> vw_clock V x' \<and> elapses (d + second) V x x' \<and> keeps V x x'"
proof -
  have "\<forall>x. case env_sleep E d x of (r, x') \<Rightarrow> r = None \<and> vw_clock V x + d \<le> vw_clock V x' \<and>
      elapses (d + second) V x x' \<and> vw_db V x' = vw_db V x \<and> same_cluster V x x'"
    using assms(1,3) by (simp add: responsive_def prompt_clock_def)
  from at_pair [OF this assms(2)] show ?thesis by (auto simp: keeps_def intro: elapses_later)
qed

lemma sql_law:
  assumes "responsive ns i boot grace V E" and "env_sql E qs x = (r, x')"
  shows "(\<exists>t. vw_clock V x \<le> t \<and> t \<le> vw_clock V x' \<and> exec_tx t qs (vw_db V x) = (r, vw_db V x')) \<or>
      elsewhere i qs \<and> isl r \<and> vw_db V x' = vw_db V x"
    and "elapses second V x x' \<and> same_cluster V x x'"
proof -
  have "\<forall>x. case env_sql E qs x of (r, x') \<Rightarrow>
      ((\<exists>t. vw_clock V x \<le> t \<and> t \<le> vw_clock V x' \<and> exec_tx t qs (vw_db V x) = (r, vw_db V x')) \<or>
       elsewhere i qs \<and> isl r \<and> vw_db V x' = vw_db V x) \<and>
      elapses second V x x' \<and> same_cluster V x x'"
    using assms(1) by (simp add: responsive_def committing_db_def)
  from at_pair [OF this assms(2)]
  show "(\<exists>t. vw_clock V x \<le> t \<and> t \<le> vw_clock V x' \<and> exec_tx t qs (vw_db V x) = (r, vw_db V x')) \<or>
      elsewhere i qs \<and> isl r \<and> vw_db V x' = vw_db V x"
    and "elapses second V x x' \<and> same_cluster V x x'" by blast+
qed

lemma k8s_law:
  assumes "responsive ns i boot grace V E" and "env_k8s E c x = (r, x')"
  shows "elapses second V x x'" "vw_db V x' = vw_db V x"
    "concerns ns i c \<Longrightarrow> cluster_law V c x r x'"
    "concerns ns i c \<Longrightarrow> timely boot grace V x \<Longrightarrow> timely boot grace V x'"
    "\<not> concerns ns i c \<Longrightarrow> same_cluster V x x'"
proof -
  have "\<forall>c x. case env_k8s E c x of (r, x') \<Rightarrow> elapses second V x x' \<and> vw_db V x' = vw_db V x \<and>
      (if concerns ns i c then cluster_law V c x r x' \<and> (timely boot grace V x \<longrightarrow> timely boot grace V x')
       else same_cluster V x x')"
    using assms(1) by (simp add: responsive_def orderly_cluster_def)
  from at_pair [OF spec [OF this] assms(2)]
  show "elapses second V x x'" "vw_db V x' = vw_db V x"
    "concerns ns i c \<Longrightarrow> cluster_law V c x r x'"
    "concerns ns i c \<Longrightarrow> timely boot grace V x \<Longrightarrow> timely boot grace V x'"
    "\<not> concerns ns i c \<Longrightarrow> same_cluster V x x'" by (auto split: if_splits)
qed

lemma http_law:
  assumes "responsive ns i boot grace V E" and "env_http E q x = (r, x')"
  shows "elapses second V x x' \<and> keeps V x x'"
proof -
  have "\<forall>q x. case env_http E q x of (r, x') \<Rightarrow> elapses second V x x' \<and> vw_db V x' = vw_db V x \<and> same_cluster V x x'"
    using assms(1) by (simp add: responsive_def booting_computes_def)
  from at_pair [OF spec [OF this] assms(2)] show ?thesis by (auto simp: keeps_def intro: elapses_later)
qed

lemma status_law:
  assumes "responsive ns i boot grace V E" and "vw_pod V x = Alive ip up"
  shows "env_http E (status_request ip) x = (r, x') \<Longrightarrow> up \<le> vw_clock V x \<Longrightarrow>
       \<exists>rs. r = Inr rs \<and> fst (decode_status (rs_body rs)) = ''running''"
    "env_http E (status_request ip) x = (Inr rs, x') \<Longrightarrow> fst (decode_status (rs_body rs)) \<noteq> ''failed''"
proof -
  have law: "compute_law V E x" using assms(1) by (simp add: responsive_def booting_computes_def)
  show "\<exists>rs. r = Inr rs \<and> fst (decode_status (rs_body rs)) = ''running''"
    if "env_http E (status_request ip) x = (r, x')" "up \<le> vw_clock V x"
    using law that by (cases r) (auto simp: compute_law_def assms(2))
  show "fst (decode_status (rs_body rs)) \<noteq> ''failed''"
    if "env_http E (status_request ip) x = (Inr rs, x')"
    using law that by (auto simp: compute_law_def assms(2) split: if_splits)
qed

lemma dead_law:
  assumes "responsive ns i boot grace V E" and "vw_pod V x = Dead ip" and "env_http E (status_request ip) x = (Inr rs, x')"
  shows "fst (decode_status (rs_body rs)) \<noteq> ''running''"
proof -
  have "compute_law V E x" using assms(1) by (simp add: responsive_def booting_computes_def)
  with assms(2,3) show ?thesis by (simp add: compute_law_def)
qed

section \<open>The pod's name\<close>

text \<open>The name is free; it is free or its pod works; its pod is not a dead one.\<close>

definition gone :: "'x view \<Rightarrow> 'x \<Rightarrow> bool" where
  "gone V x \<longleftrightarrow> (case vw_pod V x of Absent \<Rightarrow> True | Terminating g \<Rightarrow> g \<le> vw_clock V x | _ \<Rightarrow> False)"

definition usable :: "'x view \<Rightarrow> 'x \<Rightarrow> bool" where
  "usable V x \<longleftrightarrow> gone V x \<or> (\<exists>ip up. vw_pod V x = Alive ip up)"

definition sound :: "'x view \<Rightarrow> 'x \<Rightarrow> bool" where
  "sound V x \<longleftrightarrow> (\<forall>ip. vw_pod V x \<noteq> Dead ip)"

lemma gone_later: "gone V x \<Longrightarrow> later V x x' \<Longrightarrow> gone V x'"
  by (auto simp: gone_def later_eqs split: pod_life.splits dest: later_eqs(3))

lemma usable_later: "usable V x \<Longrightarrow> later V x x' \<Longrightarrow> usable V x'"
  unfolding usable_def by (metis gone_later later_eqs(1))

lemma sound_later: "sound V x \<Longrightarrow> later V x x' \<Longrightarrow> sound V x'"
  by (simp add: sound_def later_eqs)

section \<open>The runtime\<close>

text \<open>What a look at the pod can show.\<close>

definition seen_as :: "'x view \<Rightarrow> 'x \<Rightarrow> pod_status \<Rightarrow> bool" where
  "seen_as V x st \<longleftrightarrow>
     (case vw_pod V x of
        Absent \<Rightarrow> \<not> ps_exists st
      | Alive ip up \<Rightarrow> ps_exists st \<and> ps_ip st \<in> {[], ip} \<and> (ps_phase st = ''Running'' \<longrightarrow> ps_ip st = ip) \<and>
          (up \<le> vw_clock V x \<longrightarrow> ps_ip st = ip \<and> ps_phase st = ''Running'')
      | Dead ip \<Rightarrow> ps_exists st \<and> ps_ip st \<in> {[], ip} \<and> ps_phase st \<noteq> ''Running''
      | Terminating g \<Rightarrow> \<not> ps_exists st \<or> vw_clock V x < g \<and> text_ok (ps_ip st))"

lemma Status_attains:
  assumes E: "responsive ns i boot grace V E" and r: "kr_namespace r = ns"
  shows "attains E (Status r i) x (\<lambda>res x'. \<exists>st. res = Inr st \<and> elapses second V x x' \<and> keeps V x x' \<and> seen_as V x st)"
proof -
  obtain o1 x1 where k: "env_k8s E (GetPod ns (podName i)) x = (o1, x1)" by (cases "env_k8s E (GetPod ns (podName i)) x")
  note law = k8s_law [OF E k]
  have own: "concerns ns i (GetPod ns (podName i))" by simp
  from law(1,2) law(3) [OF own] have 1: "elapses second V x x1" "keeps V x x1"
    by (auto simp: keeps_def intro: elapses_later)
  with law(3) [OF own] show ?thesis
    by (cases "vw_pod V x") (auto simp: Status_def r k seen_as_def dest!: arg_cong [where f = pv_phase])
qed

lemma Stop_attains:
  assumes E: "responsive ns i boot grace V E" and r: "kr_namespace r = ns"
  shows "attains E (Stop r i) x (\<lambda>res x'. res = Inr () \<and> elapses (2 * second) V x x' \<and> vw_db V x' = vw_db V x \<and>
    (vw_pod V x' = Absent \<or> (\<exists>g. vw_pod V x' = Terminating g)) \<and>
    (timely boot grace V x \<longrightarrow> timely boot grace V x') \<and> (gone V x \<longrightarrow> gone V x'))"
proof -
  obtain o1 x1 where k1: "env_k8s E (DeletePod ns (podName i)) x = (o1, x1)"
    by (cases "env_k8s E (DeletePod ns (podName i)) x")
  obtain o2 x2 where k2: "env_k8s E (DeleteConfigMap ns (configMapName i)) x1 = (o2, x2)"
    by (cases "env_k8s E (DeleteConfigMap ns (configMapName i)) x1")
  note l1 = k8s_law [OF E k1] and l2 = k8s_law [OF E k2]
  have "gone V x \<longrightarrow> gone V x2"
    using l1(1,3) l2(1,3) by (auto simp: gone_def elapses_def split: pod_life.splits)
  with l1 l2 show ?thesis
    by (auto simp: Stop_def deleteConfigMap_def r k1 k2 elapses_def split: pod_life.splits)
qed

definition started :: "'x view \<Rightarrow> 'x \<Rightarrow> 'x \<Rightarrow> bool" where
  "started V x x' \<longleftrightarrow> vw_db V x' = vw_db V x \<and> (usable V x \<longrightarrow> (\<exists>ip up. vw_pod V x' = Alive ip up))"

lemma createPod_attains:
  assumes E: "responsive ns i boot grace V E" and r: "kr_namespace r = ns"
  shows "attains E (createPod r i) x (\<lambda>res x'. res = Inr () \<and> elapses second V x x' \<and> started V x x' \<and>
    (timely boot grace V x \<longrightarrow> timely boot grace V x'))"
proof -
  obtain o1 x1 where k: "env_k8s E (CreatePod ns (buildPod r i)) x = (o1, x1)"
    by (cases "env_k8s E (CreatePod ns (buildPod r i)) x")
  have own: "concerns ns i (CreatePod ns (buildPod r i))" by (simp add: buildPod_def)
  note l = k8s_law [OF E k]
  from l(3) [OF own] have "usable V x \<longrightarrow> (\<exists>ip up. vw_pod V x1 = Alive ip up)" "(\<exists>v. o1 = Inr v) \<or> (\<exists>m. o1 = Inl (AlreadyExists m))"
    by (auto simp: usable_def gone_def created_def taken_def split: pod_life.splits)
  with l(1,2) l(4) [OF own] show ?thesis by (auto simp: createPod_def r k started_def)
qed

lemma Start_attains:
  assumes E: "responsive ns i boot grace V E" and r: "kr_namespace r = ns"
  shows "attains E (Start r i cfg) x (\<lambda>res x'. res = Inr () \<and> elapses (4 * second) V x x' \<and> started V x x' \<and>
    (timely boot grace V x \<longrightarrow> timely boot grace V x'))"
proof -
  let ?cm = "configMapFor r i cfg"
  let ?Q = "\<lambda>res x'. res = Inr () \<and> elapses (4 * second) V x x' \<and> started V x x' \<and>
    (timely boot grace V x \<longrightarrow> timely boot grace V x')"
  have cm: "cm_name ?cm = configMapName i" by (simp add: configMapFor_def)
  have create: "attains E (createPod r i) y ?Q"
    if y: "elapses (3 * second) V x y" "vw_db V y = vw_db V x" "vw_pod V y = vw_pod V x" "timely boot grace V x \<longrightarrow> timely boot grace V y" for y
  proof (rule attains_mono [OF createPod_attains [OF E r]])
    fix res y'
    assume "res = Inr () \<and> elapses second V y y' \<and> started V y y' \<and> (timely boot grace V y \<longrightarrow> timely boot grace V y')"
    moreover have "usable V x \<Longrightarrow> usable V y"
      using y(1,3) by (auto simp: usable_def gone_def elapses_def split: pod_life.splits)
    ultimately show "?Q res y'"
      using y elapses_trans [of "3 * second" V x y second] by (auto simp: started_def)
  qed
  obtain o1 x1 where k1: "env_k8s E (CreateConfigMap ns ?cm) x = (o1, x1)"
    by (cases "env_k8s E (CreateConfigMap ns ?cm) x")
  note l1 = k8s_law [OF E k1, simplified cm concerns.simps cluster_law.simps simp_thms]
  show ?thesis
  proof (cases "vw_map V x")
    case False
    with l1 have "elapses (3 * second) V x x1" "\<exists>v. o1 = Inr v" by (auto elim: elapses_mono)
    with create [of x1] l1 show ?thesis by (auto simp: Start_def Let_def r k1)
  next
    case True
    obtain o2 x2 where k2: "env_k8s E (GetConfigMap ns (cm_name ?cm)) x1 = (o2, x2)"
      by (cases "env_k8s E (GetConfigMap ns (cm_name ?cm)) x1")
    note l2 = k8s_law [OF E k2, simplified cm concerns.simps cluster_law.simps simp_thms]
    from l2 l1 obtain c where c: "o2 = Inr (ConfigMapObject c)" "cm_name c = configMapName i" by auto
    let ?new = "c\<lparr>cm_data := cm_data ?cm, cm_labels := cm_labels ?cm\<rparr>"
    obtain o3 x3 where k3: "env_k8s E (UpdateConfigMap ns ?new) x2 = (o3, x3)"
      by (cases "env_k8s E (UpdateConfigMap ns ?new) x2")
    have own: "concerns ns i (UpdateConfigMap ns ?new)" using c by simp
    note l3 = k8s_law [OF E k3]
    from l3(3) [OF own] l1 l2 obtain v where v: "o3 = Inr v" by (auto simp: same_cluster_def)
    have "elapses (3 * second) V x x3" "vw_db V x3 = vw_db V x" "vw_pod V x3 = vw_pod V x" "timely boot grace V x \<longrightarrow> timely boot grace V x3"
      using l1 l2 l3(1,2) l3(3,4) [OF own] by (auto simp: elapses_def same_cluster_def)
    from create [OF this] l1 True c v show ?thesis
      by (auto simp: Start_def Let_def r k1 k2 k3)
  qed
qed

section \<open>The store\<close>

text \<open>The row of an endpoint in tables that satisfy the schema.\<close>

definition row_is :: "'x view \<Rightarrow> 'x \<Rightarrow> string \<Rightarrow> endpoint \<Rightarrow> bool" where
  "row_is V x i e \<longleftrightarrow> schema_ok (vw_db V x) \<and> ep_row (vw_db V x) i = Some e"

lemma row_keeps: "row_is V x i e \<Longrightarrow> keeps V x x' \<Longrightarrow> row_is V x' i e"
  by (simp add: row_is_def keeps_def)

lemma row_keeps_db: "row_is V x i e \<Longrightarrow> vw_db V x' = vw_db V x \<Longrightarrow> row_is V x' i e"
  by (simp add: row_is_def)

lemma read_attains:
  assumes E: "responsive ns i boot grace V E" and own: "\<not> elsewhere i qs" and q: "\<And>t. exec_tx t qs (vw_db V x) = (Inr v, vw_db V x)"
    and k: "\<And>x'. elapses second V x x' \<Longrightarrow> keeps V x x' \<Longrightarrow> attains E (k (Inr v)) x' Q"
  shows "attains E (Sql qs k) x Q"
proof -
  obtain r x' where s: "env_sql E qs x = (r, x')" by (cases "env_sql E qs x")
  from sql_law [OF E s] own q have "r = Inr v" "vw_db V x' = vw_db V x" "elapses second V x x'" "same_cluster V x x'"
    by auto
  with s k show ?thesis by (simp add: keeps_def elapses_later)
qed

lemma write_attains:
  assumes E: "responsive ns i boot grace V E" and own: "\<not> elsewhere i qs" and ok: "schema_ok (vw_db V x)"
    and k: "\<And>x' t r. vw_clock V x \<le> t \<Longrightarrow> t \<le> vw_clock V x' \<Longrightarrow> exec_tx t qs (vw_db V x) = (r, vw_db V x') \<Longrightarrow>
      elapses second V x x' \<Longrightarrow> same_cluster V x x' \<Longrightarrow> schema_ok (vw_db V x') \<Longrightarrow> attains E (k r) x' Q"
  shows "attains E (Sql qs k) x Q"
proof -
  obtain r x' where s: "env_sql E qs x = (r, x')" by (cases "env_sql E qs x")
  from sql_law [OF E s] own obtain t where t: "vw_clock V x \<le> t" "t \<le> vw_clock V x'"
      "exec_tx t qs (vw_db V x) = (r, vw_db V x')" and "elapses second V x x'" "same_cluster V x x'" by blast
  moreover from exec_tx_ok [OF ok, of t qs] t(3) have "schema_ok (vw_db V x')" by simp
  ultimately show ?thesis using k s by simp
qed

lemma updated_row:
  assumes "row_is V x i e" and "vw_db V x' = update_endpoints P f (vw_db V x)"
    and "\<And>e. e_id (f e) = e_id e" and "P e"
  shows "ep_row (vw_db V x') i = Some (f e)"
  using assms(1,4) by (simp add: assms(2) ep_row_update [OF assms(3)] row_is_def)

lemma Transition_attains:
  assumes E: "responsive ns i boot grace V E" and row: "row_is V x i e" and "e_state e = src" and dst: "dst \<in> set endpoint_states"
  shows "attains E (TransitionEndpoint i src dst) x (\<lambda>r x'. r = Inr True \<and> elapses second V x x' \<and>
    same_cluster V x x' \<and> (\<exists>t. vw_clock V x \<le> t \<and> t \<le> vw_clock V x' \<and>
      row_is V x' i (e\<lparr>e_state := dst, e_updated := t\<rparr>)))"
  unfolding TransitionEndpoint_def
proof (rule write_attains [OF E])
  show "\<not> elsewhere i [UpdateState i src dst]" by simp
  show ok: "schema_ok (vw_db V x)" using row by (simp add: row_is_def)
  fix x' t r
  assume tx: "exec_tx t [UpdateState i src dst] (vw_db V x) = (r, vw_db V x')"
    and rest: "vw_clock V x \<le> t" "t \<le> vw_clock V x'" "elapses second V x x'" "same_cluster V x x'" "schema_ok (vw_db V x')"
  have "ep_state (vw_db V x) i = Some src" using row assms(3) by (simp add: row_is_def ep_state_def)
  with cas_outcome [OF ok dst, of t i src] tx have "r = Inr (Affected 1)"
    and db: "vw_db V x' = update_endpoints (\<lambda>e. e_id e = i \<and> e_state e = src) (\<lambda>e. e\<lparr>e_state := dst, e_updated := t\<rparr>) (vw_db V x)"
    by auto
  moreover have "ep_row (vw_db V x') i = Some (e\<lparr>e_state := dst, e_updated := t\<rparr>)"
    by (rule updated_row [OF row db]) (use row assms(3) in \<open>auto simp: row_is_def dest: ep_row_key\<close>)
  ultimately show "attains E (Return (map_sum id (\<lambda>v. rows_affected v = 1) r)) x' (\<lambda>r x'. r = Inr True \<and>
      elapses second V x x' \<and> same_cluster V x x' \<and> (\<exists>t. vw_clock V x \<le> t \<and> t \<le> vw_clock V x' \<and>
        row_is V x' i (e\<lparr>e_state := dst, e_updated := t\<rparr>)))"
    using rest by (auto simp: row_is_def)
qed

lemma Transition_refused:
  assumes E: "responsive ns i boot grace V E" and row: "row_is V x i e" and "e_state e \<noteq> src" and dst: "dst \<in> set endpoint_states"
  shows "attains E (TransitionEndpoint i src dst) x (\<lambda>r x'. r = Inr False \<and> elapses second V x x' \<and> keeps V x x')"
proof -
  have "ep_state (vw_db V x) i \<noteq> Some src" using row assms(3) by (simp add: row_is_def ep_state_def)
  then have "exec_tx t [UpdateState i src dst] (vw_db V x) = (Inr (Affected 0), vw_db V x)" for t
    using row cas_outcome [OF _ dst, of "vw_db V x" t i src] by (simp add: row_is_def)
  then show ?thesis
    unfolding TransitionEndpoint_def by (intro read_attains [OF E]) (simp, assumption, simp)
qed

lemma SetRunning_attains:
  assumes E: "responsive ns i boot grace V E" and row: "row_is V x i e" and a: "text_ok a"
  shows "attains E (SetEndpointRunning i a) x (\<lambda>r x'. r = Inr () \<and> elapses second V x x' \<and> same_cluster V x x' \<and>
    (\<exists>e'. row_is V x' i e' \<and> e_state e' = ''running'' \<and> e_addr e' = Some a))"
  unfolding SetEndpointRunning_def
proof (rule write_attains [OF E])
  show "\<not> elsewhere i [UpdateRunning i a]" by simp
  show "schema_ok (vw_db V x)" using row by (simp add: row_is_def)
  fix x' t r
  assume tx: "exec_tx t [UpdateRunning i a] (vw_db V x) = (r, vw_db V x')"
    and rest: "elapses second V x x'" "same_cluster V x x'" "schema_ok (vw_db V x')"
  let ?f = "\<lambda>e. e\<lparr>e_state := ''running'', e_addr := Some a, e_last_started := Some t, e_last_active := Some t, e_updated := t\<rparr>"
  from tx a have r: "exec_reply r = Inr ()" and db: "vw_db V x' = update_endpoints (\<lambda>e. e_id e = i) ?f (vw_db V x)"
    by (auto simp: exec_tx_single Let_def exec_reply_def)
  have "ep_row (vw_db V x') i = Some (?f e)"
    by (rule updated_row [OF row db]) (use row in \<open>auto simp: row_is_def dest: ep_row_key\<close>)
  with r rest show "attains E (Return (exec_reply r)) x' (\<lambda>r x'. r = Inr () \<and> elapses second V x x' \<and> same_cluster V x x' \<and>
      (\<exists>e'. row_is V x' i e' \<and> e_state e' = ''running'' \<and> e_addr e' = Some a))"
    by (auto simp: row_is_def)
qed

text \<open>An endpoint's row has its branch and its project, so the spec builder finds them.\<close>

lemma query_attains:
  assumes "responsive ns i boot grace V E" and "\<not> elsewhere i qs" and "\<And>t. exec_tx t qs (vw_db V x) = (Inr v, vw_db V x)" and "f (Inr v) = Inr a"
  shows "attains E (Sql qs (\<lambda>r. Return (f r))) x (\<lambda>r x'. \<exists>b. r = Inr b \<and> b = a \<and> elapses second V x x' \<and> keeps V x x')"
  by (rule read_attains [OF assms(1-3)]) (simp add: assms(4))

lemma specBuilder_attains:
  assumes E: "responsive ns i boot grace V E" and row: "row_is V x i e"
  shows "attains E (specBuilder st i) x (\<lambda>r x'. (\<exists>cfg. r = Inr cfg) \<and> elapses (3 * second) V x x' \<and> keeps V x x')"
proof -
  from row have ok: "schema_ok (vw_db V x)" and e: "ep_row (vw_db V x) i = Some e" by (simp_all add: row_is_def)
  obtain b p where b: "lookup b_id (branches (vw_db V x)) (e_branch e) = Some b" "b_id b = e_branch e"
    and p: "lookup p_id (projects (vw_db V x)) (b_project b) = Some p" "p_id p = b_project b"
    by (rule endpoint_rows [OF ok e])
  let ?ac = "\<lparr>ac_role = p_role p, ac_verifier = p_verifier p, ac_project = p_id p, ac_branch = b_id b\<rparr>"
  have rows: "access_rows i (vw_db V x) = [?ac]"
    using e b p by (simp add: access_rows_eq [OF ok] access_of_def)
  note keys = schema_keys [OF ok]
  have ps: "filter (\<lambda>r. p_id r = p_id p) (projects (vw_db V x)) = [p]"
    and bs: "filter (\<lambda>r. b_id r = b_id b) (branches (vw_db V x)) = [b]"
    using b p by (simp_all add: rows_of_key [OF keys(1)] rows_of_key [OF keys(2)])
  show ?thesis
    unfolding specBuilder_def GetAccessControl_def
  proof (rule attains_checkI [OF query_attains [OF E]])
    show "\<not> elsewhere i [SelectAccess i]" by simp
    show "exec_tx t [SelectAccess i] (vw_db V x) = (Inr (AccessRows [?ac]), vw_db V x)" for t
      by (simp add: exec_tx_single rows)
    show "or_not_found (query_row_reply as_access (Inr (AccessRows [?ac]))) = Inr ?ac" by (simp add: row_reply)
  next
    fix ac x1
    assume 1: "ac = ?ac \<and> elapses second V x x1 \<and> keeps V x x1"
    then have db1: "vw_db V x1 = vw_db V x" by (simp add: keeps_eqs)
    from 1 show "attains E (check (GetProjectByID (ac_project ac)) fails (\<lambda>p. check (GetBranchByID (ac_branch ac)) fails (\<lambda>b.
        returns (BuildComputeConfig \<lparr>sp_tenant = p_tenant p, sp_timeline = b_timeline b, sp_role = p_role p,
          sp_verifier = p_verifier p, sp_database = ''appdb'', sp_pageserver = st_pageserver_connstring st,
          sp_safekeepers = st_safekeepers st\<rparr>)))) x1
        (\<lambda>r x'. (\<exists>cfg. r = Inr cfg) \<and> elapses (3 * second) V x x' \<and> keeps V x x')"
      unfolding GetProjectByID_def
      apply (intro attains_checkI [OF query_attains [OF E, of _ _ "ProjectRows [project.truncate p]"]])
         apply simp
        apply (simp add: exec_tx_single db1 ps)
       apply (simp add: row_reply)
      apply (clarsimp simp: GetBranchByID_def)
      apply (rule attains_checkI [OF query_attains [OF E, of _ _ "BranchRows [branch.truncate b]"]])
         apply simp
        apply (simp add: exec_tx_single keeps_eqs bs db1)
       apply (simp add: row_reply)
      apply (auto simp: keeps_def later_def same_cluster_def elapses_def)
      done
  qed
qed

end
