(* ===== verification/Healing.thy ===== *)
theory Healing
  imports Responsive
begin

text \<open>
  Progress of a wake, in the responsive environments of \<open>Responsive\<close>. One wake is enough when the
  name of the endpoint's pod is free or its pod works; from any other state a first wake settles the
  endpoint, and a second one, after the grace period of the pod it deleted, returns an address.
\<close>

section \<open>Waiting for the compute\<close>

text \<open>The waker of \<^verbatim>\<open>main\<close>.\<close>

lemma main_waker_simps:
  "wk_runtime (main_waker st) = NewK8sRuntime \<lparr>kr_namespace = st_namespace st, kr_image = st_image st\<rparr>"
  "wk_spec (main_waker st) = specBuilder st" "pollInterval (main_waker st) = 500 * millisecond"
  "readyTimeout (main_waker st) = 120 * second"
  "statusURL (main_waker st) ip = sprintf ''http://%s:3080/status'' [Str ip]"
  by (simp_all add: main_waker_def main_runtime_def pollInterval_def readyTimeout_def statusURL_def)

text \<open>A pod that works.\<close>

lemma probe_attains:
  assumes E: "responsive (st_namespace st) i boot grace V E" and pod: "vw_pod V x = Alive ip up"
  shows "attains E (probe (main_waker st) i) x (\<lambda>v x'. v \<in> {None, Some (Inr ip)} \<and>
    (ip \<noteq> [] \<and> up \<le> vw_clock V x \<longrightarrow> v = Some (Inr ip)) \<and> elapses (2 * second) V x x' \<and> keeps V x x')"
  unfolding probe_def main_waker_simps NewK8sRuntime_def runtime.simps
proof (rule attains_bindI [OF Status_attains [OF E]])
  show "kr_namespace \<lparr>kr_namespace = st_namespace st, kr_image = st_image st\<rparr> = st_namespace st" by simp
next
  fix res x1
  assume "\<exists>s. res = Inr s \<and> elapses second V x x1 \<and> keeps V x x1 \<and> seen_as V x s"
  then obtain s where s: "res = Inr s" "ps_exists s" "ps_ip s \<in> {[], ip}" "up \<le> vw_clock V x \<longrightarrow> ps_ip s = ip"
    and time: "elapses second V x x1" and keep: "keeps V x x1" by (auto simp: seen_as_def pod)
  obtain r x2 where h: "env_http E (status_request ip) x1 = (r, x2)" by (cases "env_http E (status_request ip) x1")
  from pod keep have pod1: "vw_pod V x1 = Alive ip up" by (simp add: keeps_eqs)
  note law = status_law [OF E pod1] http_law [OF E h]
  from time keep law(3) have after: "elapses (2 * second) V x x2" "keeps V x x2" and le: "vw_clock V x \<le> vw_clock V x1"
    by (auto simp: elapses_def intro: keeps_trans)
  have far: "elapses (2 * second) V x x1" using time by (rule elapses_mono) simp
  show "attains E (case res of Inl _ \<Rightarrow> Return None
      | Inr st' \<Rightarrow> if ps_exists st' \<and> ps_ip st' \<noteq> []
          then Http \<lparr>rq_method = ''GET'', rq_url = sprintf ''http://%s:3080/status'' [Str (ps_ip st')], rq_body = None\<rparr>
            (\<lambda>resp. case resp of Inl _ \<Rightarrow> Return None
              | Inr rs \<Rightarrow> (case decode_status (rs_body rs) of (status, error) \<Rightarrow>
                  if status = ''running'' then Return (Some (Inr (ps_ip st')))
                  else if status = ''failed'' then Return (Some (Inl (Errorf ''compute_ctl failed: %s'' [Str error])))
                  else Return None))
          else Return None) x1
      (\<lambda>v x'. v \<in> {None, Some (Inr ip)} \<and> (ip \<noteq> [] \<and> up \<le> vw_clock V x \<longrightarrow> v = Some (Inr ip)) \<and>
        elapses (2 * second) V x x' \<and> keeps V x x')"
  proof (cases "ps_ip s = []")
    case True
    with s far keep show ?thesis by auto
  next
    case False
    with s(3) have ip: "ps_ip s = ip" by simp
    show ?thesis
    proof (cases r)
      case (Inl e)
      with law(1) [OF h] le s ip False h after show ?thesis by (auto simp: status_request_def)
    next
      case (Inr rs)
      obtain status error where d: "decode_status (rs_body rs) = (status, error)" by (cases "decode_status (rs_body rs)")
      from law(2) [of rs x2] law(1) [OF h] Inr h le d
      have "status \<noteq> ''failed''" "up \<le> vw_clock V x \<Longrightarrow> status = ''running''" by auto
      with s ip False h Inr d after show ?thesis by (auto simp: status_request_def)
    qed
  qed
qed

lemma waitReady_loop_attains:
  assumes E: "responsive (st_namespace st) i boot grace V E"
    and ip: "ip \<noteq> []" and "vw_pod V x = Alive ip up" "up + 5 * second \<le> deadline"
    and "vw_clock V x + second < deadline" "up - vw_clock V x \<le> int n * (500 * millisecond)"
  shows "attains E (waitReady_loop (Suc n) (main_waker st) i deadline) x (\<lambda>r x'. r = Inr ip \<and> keeps V x x')"
  using assms(3-)
proof (induction n arbitrary: x)
  case (0 x)
  obtain now x1 where now: "env_now E x = (now, x1)" by (cases "env_now E x")
  from now_law [OF E this] have 1: "vw_clock V x \<le> vw_clock V x1" "keeps V x x1" "now < deadline"
    using 0 by (auto simp: elapses_def)
  with 0 have pod1: "vw_pod V x1 = Alive ip up" and up: "up \<le> vw_clock V x1" by (simp_all add: keeps_eqs)
  from up 1 now ip show ?case
    by (auto intro!: attains_bindI [OF probe_attains [OF E pod1]] intro: keeps_trans)
next
  case (Suc n x)
  obtain now x1 where now: "env_now E x = (now, x1)" by (cases "env_now E x")
  from now_law [OF E this] have 1: "vw_clock V x \<le> vw_clock V x1" "keeps V x x1" "now < deadline"
    "elapses second V x x1" using Suc.prems by (auto simp: elapses_def)
  with Suc.prems have pod1: "vw_pod V x1 = Alive ip up" by (simp add: keeps_eqs)
  have "attains E (bind (probe (main_waker st) i) (case_option (Sleep (500 * millisecond)
      (case_option (waitReady_loop (Suc n) (main_waker st) i deadline) fails)) Return)) x1 (\<lambda>r x'. r = Inr ip \<and> keeps V x x')"
  proof (rule attains_bindI [OF probe_attains [OF E pod1]])
    fix v :: "(err + string) option" and x2
    assume v: "v \<in> {None, Some (Inr ip)} \<and> (ip \<noteq> [] \<and> up \<le> vw_clock V x1 \<longrightarrow> v = Some (Inr ip)) \<and>
        elapses (2 * second) V x1 x2 \<and> keeps V x1 x2"
    show "attains E (case v of Some r \<Rightarrow> Return r
      | None \<Rightarrow> Sleep (500 * millisecond) (\<lambda>c. case c of Some e \<Rightarrow> fails e
          | None \<Rightarrow> waitReady_loop (Suc n) (main_waker st) i deadline)) x2 (\<lambda>r x'. r = Inr ip \<and> keeps V x x')"
    proof (cases v)
      case (Some r)
      with v 1 show ?thesis by (auto intro: keeps_trans)
    next
      case None
      obtain c x3 where c: "env_sleep E (500 * millisecond) x2 = (c, x3)" by (cases "env_sleep E (500 * millisecond) x2")
      from sleep_law [OF E this] have 3: "c = None" "keeps V x2 x3"
        "vw_clock V x2 + 500 * millisecond \<le> vw_clock V x3" "vw_clock V x3 \<le> vw_clock V x2 + 1500 * millisecond"
        by (auto simp: elapses_def)
      from 1 3 v have keep: "keeps V x x3" by (blast intro: keeps_trans)
      from v None have early: "vw_clock V x1 < up" using ip by auto
      have "attains E (waitReady_loop (Suc n) (main_waker st) i deadline) x3 (\<lambda>r x'. r = Inr ip \<and> keeps V x3 x')"
        by (rule Suc.IH) (use keep Suc.prems early 1 3 v in \<open>auto simp: keeps_eqs elapses_def\<close>)
      with None c 3 keep show ?thesis
        by (auto elim!: attains_mono intro: keeps_trans simp del: waitReady_loop.simps)
    qed
  qed
  with now 1 show ?case by (subst waitReady_loop.simps) (simp add: main_waker_simps del: waitReady_loop.simps)
qed

text \<open>A compute that boots within 115 seconds is ready within the timeout, on fuel for one turn
  every half second.\<close>

lemma waitReady_attains:
  assumes E: "responsive (st_namespace st) i boot grace V E" and boot: "boot \<le> 115 * second"
    and pod: "vw_pod V x = Alive ip up" and on_time: "timely boot grace V x" and fuel: "231 \<le> n"
  shows "attains E (waitReady n (main_waker st) i) x (\<lambda>r x'. r = Inr ip \<and> keeps V x x')"
proof -
  obtain now x1 where now: "env_now E x = (now, x1)" by (cases "env_now E x")
  from now_law [OF E this] have 1: "vw_clock V x \<le> now" "now \<le> vw_clock V x1" "keeps V x x1" "elapses second V x x1"
    by blast+
  with pod have pod1: "vw_pod V x1 = Alive ip up" by (simp add: keeps_eqs)
  from on_time pod have ip: "ip \<noteq> []" and up: "up \<le> vw_clock V x + boot" by (simp_all add: timely_def)
  from fuel obtain m where m: "n = Suc m" "230 \<le> m" by (cases n) auto
  have "attains E (waitReady_loop (Suc m) (main_waker st) i (now + 120 * second)) x1 (\<lambda>r x'. r = Inr ip \<and> keeps V x1 x')"
  proof (rule waitReady_loop_attains [OF E ip pod1])
    show "up + 5 * second \<le> now + 120 * second" using up boot 1 by simp
    show "vw_clock V x1 + second < now + 120 * second" using 1 by (simp add: elapses_def)
    have "up - vw_clock V x1 \<le> 230 * (500 * millisecond)" using up boot 1 by simp
    also have "\<dots> \<le> int m * (500 * millisecond)" using m by simp
    finally show "up - vw_clock V x1 \<le> int m * (500 * millisecond)" .
  qed
  with now 1 m show ?thesis
    by (auto simp: waitReady_def main_waker_simps elim!: attains_mono intro: keeps_trans
        simp del: waitReady_loop.simps)
qed

text \<open>Any pod: the wait ends within its timeout, and never with the address of a dead pod.\<close>

lemma probe_ends:
  assumes E: "responsive (st_namespace st) i boot grace V E" and on_time: "timely boot grace V x"
  shows "attains E (probe (main_waker st) i) x (\<lambda>v x'. keeps V x x' \<and>
    (\<forall>ip. v = Some (Inr ip) \<longrightarrow> text_ok ip \<and> sound V x))"
  unfolding probe_def main_waker_simps NewK8sRuntime_def runtime.simps
proof (rule attains_bindI [OF Status_attains [OF E]])
  show "kr_namespace \<lparr>kr_namespace = st_namespace st, kr_image = st_image st\<rparr> = st_namespace st" by simp
next
  fix res x1
  assume "\<exists>s. res = Inr s \<and> elapses second V x x1 \<and> keeps V x x1 \<and> seen_as V x s"
  then obtain s where s: "res = Inr s" "seen_as V x s" and keep: "keeps V x x1" by auto
  have plain: "ps_exists s \<Longrightarrow> text_ok (ps_ip s)"
    using s(2) on_time by (auto simp: seen_as_def timely_def text_ok_def split: pod_life.splits)
  obtain r x2 where h: "env_http E (status_request (ps_ip s)) x1 = (r, x2)" by (cases "env_http E (status_request (ps_ip s)) x1")
  from http_law [OF E h] keep have keep2: "keeps V x x2" by (blast intro: keeps_trans)
  have "sound V x" if "r = Inr rs" "fst (decode_status (rs_body rs)) = ''running''" "ps_ip s \<noteq> []" for rs
  proof (rule ccontr)
    assume "\<not> sound V x"
    then obtain ip where "vw_pod V x = Dead ip" by (auto simp: sound_def)
    with s(2) that(3) keep have "vw_pod V x1 = Dead ip" "ps_ip s = ip" by (auto simp: seen_as_def keeps_eqs)
    with dead_law [OF E this(1)] h that(1,2) show False by simp
  qed
  with s(1) plain h keep keep2
  show "attains E (case res of Inl _ \<Rightarrow> Return None
      | Inr st' \<Rightarrow> if ps_exists st' \<and> ps_ip st' \<noteq> []
          then Http \<lparr>rq_method = ''GET'', rq_url = sprintf ''http://%s:3080/status'' [Str (ps_ip st')], rq_body = None\<rparr>
            (\<lambda>resp. case resp of Inl _ \<Rightarrow> Return None
              | Inr rs \<Rightarrow> (case decode_status (rs_body rs) of (status, error) \<Rightarrow>
                  if status = ''running'' then Return (Some (Inr (ps_ip st')))
                  else if status = ''failed'' then Return (Some (Inl (Errorf ''compute_ctl failed: %s'' [Str error])))
                  else Return None))
          else Return None) x1
      (\<lambda>v x'. keeps V x x' \<and> (\<forall>ip. v = Some (Inr ip) \<longrightarrow> text_ok ip \<and> sound V x))"
    by (auto simp: status_request_def split: sum.split prod.split)
qed

lemma waitReady_loop_ends:
  assumes E: "responsive (st_namespace st) i boot grace V E"
    and "timely boot grace V x" and "deadline - vw_clock V x \<le> int n * (500 * millisecond)"
  shows "attains E (waitReady_loop (Suc n) (main_waker st) i deadline) x (\<lambda>r x'. keeps V x x' \<and>
    (\<forall>ip. r = Inr ip \<longrightarrow> text_ok ip \<and> sound V x))"
  using assms(2,3)
proof (induction n arbitrary: x)
  case (0 x)
  obtain now x1 where now: "env_now E x = (now, x1)" by (cases "env_now E x")
  from now_law [OF E this] 0 now show ?case by auto
next
  case (Suc n x)
  obtain now x1 where now: "env_now E x = (now, x1)" by (cases "env_now E x")
  from now_law [OF E this] have keep: "keeps V x x1" by blast
  let ?Q = "\<lambda>r x'. keeps V x x' \<and> (\<forall>ip. r = Inr ip \<longrightarrow> text_ok ip \<and> sound V x)"
  from keep Suc.prems have on_time: "timely boot grace V x1" by (blast intro: timely_later keeps_later)
  have sound: "sound V y \<longleftrightarrow> sound V x" if "keeps V x y" for y using that by (simp add: sound_def keeps_eqs)
  have "attains E (bind (probe (main_waker st) i) (case_option (Sleep (500 * millisecond)
      (case_option (waitReady_loop (Suc n) (main_waker st) i deadline) fails)) Return)) x1 ?Q"
  proof (rule attains_bindI [OF probe_ends [OF E on_time]])
    fix v :: "(err + string) option" and x2
    assume v: "keeps V x1 x2 \<and> (\<forall>ip. v = Some (Inr ip) \<longrightarrow> text_ok ip \<and> sound V x1)"
    with keep have keep2: "keeps V x x2" by (blast intro: keeps_trans)
    show "attains E (case v of Some r \<Rightarrow> Return r
      | None \<Rightarrow> Sleep (500 * millisecond) (\<lambda>c. case c of Some e \<Rightarrow> fails e
          | None \<Rightarrow> waitReady_loop (Suc n) (main_waker st) i deadline)) x2 ?Q"
    proof (cases v)
      case (Some r)
      with v keep2 sound [OF keep] show ?thesis by auto
    next
      case None
      obtain c x3 where c: "env_sleep E (500 * millisecond) x2 = (c, x3)" by (cases "env_sleep E (500 * millisecond) x2")
      from sleep_law [OF E this] have 3: "c = None" "keeps V x2 x3" "vw_clock V x2 + 500 * millisecond \<le> vw_clock V x3"
        by auto
      from keep2 3(2) have keep3: "keeps V x x3" by (rule keeps_trans)
      have "attains E (waitReady_loop (Suc n) (main_waker st) i deadline) x3 (\<lambda>r x'. keeps V x3 x' \<and>
          (\<forall>ip. r = Inr ip \<longrightarrow> text_ok ip \<and> sound V x3))"
        by (rule Suc.IH) (use keeps_clock [OF keep2] 3 Suc.prems timely_later [OF Suc.prems(1) keeps_later [OF keep3]] in
            \<open>auto simp: algebra_simps\<close>)
      with None c 3 sound [OF keep3] keep3 show ?thesis
        by (auto elim!: attains_mono intro: keeps_trans simp del: waitReady_loop.simps)
    qed
  qed
  with now keep show ?case by (subst waitReady_loop.simps) (simp add: main_waker_simps del: waitReady_loop.simps)
qed

lemma waitReady_ends:
  assumes E: "responsive (st_namespace st) i boot grace V E" and on_time: "timely boot grace V x" and fuel: "241 \<le> n"
  shows "attains E (waitReady n (main_waker st) i) x (\<lambda>r x'. keeps V x x' \<and>
    (\<forall>ip. r = Inr ip \<longrightarrow> text_ok ip \<and> sound V x'))"
proof -
  obtain now x1 where now: "env_now E x = (now, x1)" by (cases "env_now E x")
  from now_law [OF E this] have 1: "now \<le> vw_clock V x1" "keeps V x x1" by blast+
  from fuel obtain m where m: "n = Suc m" "240 \<le> m" by (cases n) auto
  have "120 * second \<le> 240 * (500 * millisecond)" by simp
  also have "\<dots> \<le> int m * (500 * millisecond)" using m by simp
  finally have "now + 120 * second - vw_clock V x1 \<le> int m * (500 * millisecond)" using 1 by simp
  from waitReady_loop_ends [OF E timely_later [OF on_time keeps_later [OF 1(2)]] this] now 1 m show ?thesis
    by (auto simp: waitReady_def main_waker_simps elim!: attains_mono intro: keeps_trans sound_later keeps_later
        simp del: waitReady_loop.simps)
qed

section \<open>Starting\<close>

text \<open>The endpoint's row is running with the address of its pod.\<close>

definition serving :: "'x view \<Rightarrow> string \<Rightarrow> string \<Rightarrow> 'x \<Rightarrow> bool" where
  "serving V i addr x \<longleftrightarrow>
     (\<exists>e. row_is V x i e \<and> e_state e = ''running'' \<and> e_addr e = Some addr) \<and>
     (\<exists>ip up. vw_pod V x = Alive ip up \<and> HasPrefix addr (ip @ '':''))"

text \<open>The endpoint is not in the middle of something, and no dead pod blocks its name.\<close>

definition settled :: "duration \<Rightarrow> duration \<Rightarrow> 'x view \<Rightarrow> string \<Rightarrow> 'x \<Rightarrow> bool" where
  "settled boot grace V i x \<longleftrightarrow>
     timely boot grace V x \<and> sound V x \<and> (\<exists>e. row_is V x i e \<and> (e_state e = ''running'' \<or> e_state e = ''failed''))"

lemma settledI:
  assumes "timely boot grace V x" and "sound V x" and "elapses d V x x'" and "same_cluster V x x'"
    and "row_is V x' i e" and "e_state e = ''running'' \<or> e_state e = ''failed''"
  shows "settled boot grace V i x'"
  using timely_later [OF assms(1)] sound_later [OF assms(2)] elapses_later [OF assms(3,4)] assms(5,6)
  unfolding settled_def by blast

lemma pod_address: "sprintf ''%s:%d'' [Str ip, Num ComputePort] = ip @ '':'' @ dec ComputePort"
  by (simp add: verb_def)

lemma pod_address_text:
  assumes "text_ok ip"
  shows "text_ok (sprintf ''%s:%d'' [Str ip, Num ComputePort])"
  using assms dec_nat_set [of 55433]
  unfolding pod_address by (auto simp: text_ok_def ComputePort_def dec_def)

lemma startCompute_attains:
  assumes E: "responsive (st_namespace st) i boot grace V E" and boot: "boot \<le> 115 * second"
    and row: "row_is V x i e" and pod: "usable V x" "timely boot grace V x" and fuel: "231 \<le> n"
  shows "attains E (startCompute n (main_waker st) i) x (\<lambda>r x'. \<exists>addr. r = Inr addr \<and> serving V i addr x')"
  unfolding startCompute_def main_waker_simps NewK8sRuntime_def runtime.simps
proof (rule attains_callI [OF specBuilder_attains [OF E row]])
  fix cfg :: compute_config and x1
  assume "(\<exists>c. Inr cfg = Inr c) \<and> elapses (3 * second) V x x1 \<and> keeps V x x1"
  with row pod have 1: "row_is V x1 i e" "usable V x1" "timely boot grace V x1"
    by (blast intro: row_keeps usable_later timely_later keeps_later)+
  show "attains E (check (Start \<lparr>kr_namespace = st_namespace st, kr_image = st_image st\<rparr> i cfg)
      (\<lambda>e. start_fail (main_waker st) i (Wrapf ''start compute: %w'' [] e))
      (\<lambda>_. check (waitReady n (main_waker st) i) (start_fail (main_waker st) i)
        (\<lambda>podIP. let addr = sprintf ''%s:%d'' [Str podIP, Num ComputePort] in
          check (SetEndpointRunning i addr) (start_fail (main_waker st) i) (\<lambda>_. returns addr)))) x1
      (\<lambda>r x'. \<exists>addr. r = Inr addr \<and> serving V i addr x')"
  proof (rule attains_callI [OF Start_attains [OF E]])
    fix u :: unit and x2
    assume "Inr u = Inr () \<and> elapses (4 * second) V x1 x2 \<and> started V x1 x2 \<and>
        (timely boot grace V x1 \<longrightarrow> timely boot grace V x2)"
    with 1 obtain ip up where row2: "row_is V x2 i e" and pod2: "vw_pod V x2 = Alive ip up" and time2: "timely boot grace V x2"
      by (auto simp: started_def row_is_def)
    then have ip: "text_ok ip" by (simp add: timely_def)
    show "attains E (check (waitReady n (main_waker st) i) (start_fail (main_waker st) i)
        (\<lambda>podIP. let addr = sprintf ''%s:%d'' [Str podIP, Num ComputePort] in
          check (SetEndpointRunning i addr) (start_fail (main_waker st) i) (\<lambda>_. returns addr))) x2
        (\<lambda>r x'. \<exists>addr. r = Inr addr \<and> serving V i addr x')"
    proof (rule attains_callI [OF waitReady_attains [OF E boot pod2 time2 fuel]])
      fix ip' :: string and x3
      assume "Inr ip' = Inr ip \<and> keeps V x2 x3"
      then have [simp]: "ip' = ip" and keep: "keeps V x2 x3" by auto
      from keep pod2 have pod3: "vw_pod V x3 = Alive ip up" by (simp add: keeps_eqs)
      show "attains E (let addr = sprintf ''%s:%d'' [Str ip', Num ComputePort] in
          check (SetEndpointRunning i addr) (start_fail (main_waker st) i) (\<lambda>_. returns addr)) x3
          (\<lambda>r x'. \<exists>addr. r = Inr addr \<and> serving V i addr x')"
        unfolding Let_def \<open>ip' = ip\<close>
        by (rule attains_callI [OF SetRunning_attains [OF E row_keeps [OF row2 keep] pod_address_text [OF ip]]])
          (use pod3 in \<open>auto simp: serving_def same_cluster_def pod_address HasPrefix_iff simp del: sprintf.simps\<close>)
    qed auto
  qed auto
qed auto

text \<open>From any state of the cluster the start ends, and leaves the endpoint settled.\<close>

lemma start_fail_settles:
  assumes E: "responsive (st_namespace st) i boot grace V E" and row: "row_is V x i e" "e_state e = ''starting''"
    and on_time: "timely boot grace V x"
  shows "attains E (start_fail (main_waker st) i err) x (\<lambda>_ x'. settled boot grace V i x')"
  unfolding start_fail_def main_waker_simps NewK8sRuntime_def runtime.simps
proof (rule attains_bindI [OF Stop_attains [OF E]])
  fix res :: "err + unit" and x1
  assume 1: "res = Inr () \<and> elapses (2 * second) V x x1 \<and> vw_db V x1 = vw_db V x \<and>
    (vw_pod V x1 = Absent \<or> (\<exists>g. vw_pod V x1 = Terminating g)) \<and>
    (timely boot grace V x \<longrightarrow> timely boot grace V x1) \<and> (gone V x \<longrightarrow> gone V x1)"
  then have row1: "row_is V x1 i e" and "sound V x1" "timely boot grace V x1"
    using row on_time by (auto simp: sound_def intro: row_keeps_db)
  then show "attains E (bind (TransitionEndpoint i ''starting'' ''failed'') (\<lambda>_. fails err)) x1
      (\<lambda>_ x'. settled boot grace V i x')"
    by (intro attains_bindI [OF Transition_attains [OF E row1 row(2)]])
      (auto simp: endpoint_states_def intro: settledI)
qed simp

lemma startCompute_settles:
  assumes E: "responsive (st_namespace st) i boot grace V E" and row: "row_is V x i e" "e_state e = ''starting''"
    and on_time: "timely boot grace V x" and fuel: "241 \<le> n"
  shows "attains E (startCompute n (main_waker st) i) x (\<lambda>_ x'. settled boot grace V i x')"
  unfolding startCompute_def main_waker_simps NewK8sRuntime_def runtime.simps
proof (rule attains_callI [OF specBuilder_attains [OF E row(1)]])
  fix cfg :: compute_config and x1
  assume "(\<exists>c. Inr cfg = Inr c) \<and> elapses (3 * second) V x x1 \<and> keeps V x x1"
  with row on_time have 1: "row_is V x1 i e" "timely boot grace V x1"
    by (blast intro: row_keeps timely_later keeps_later)+
  show "attains E (check (Start \<lparr>kr_namespace = st_namespace st, kr_image = st_image st\<rparr> i cfg)
      (\<lambda>e. start_fail (main_waker st) i (Wrapf ''start compute: %w'' [] e))
      (\<lambda>_. check (waitReady n (main_waker st) i) (start_fail (main_waker st) i)
        (\<lambda>podIP. let addr = sprintf ''%s:%d'' [Str podIP, Num ComputePort] in
          check (SetEndpointRunning i addr) (start_fail (main_waker st) i) (\<lambda>_. returns addr)))) x1
      (\<lambda>_ x'. settled boot grace V i x')"
  proof (rule attains_callI [OF Start_attains [OF E]])
    fix u :: unit and x2
    assume "Inr u = Inr () \<and> elapses (4 * second) V x1 x2 \<and> started V x1 x2 \<and>
        (timely boot grace V x1 \<longrightarrow> timely boot grace V x2)"
    with 1 have 2: "row_is V x2 i e" "timely boot grace V x2" by (auto simp: started_def row_is_def)
    show "attains E (check (waitReady n (main_waker st) i) (start_fail (main_waker st) i)
        (\<lambda>podIP. let addr = sprintf ''%s:%d'' [Str podIP, Num ComputePort] in
          check (SetEndpointRunning i addr) (start_fail (main_waker st) i) (\<lambda>_. returns addr))) x2
        (\<lambda>_ x'. settled boot grace V i x')"
      unfolding check_def
    proof (rule attains_bindI [OF waitReady_ends [OF E 2(2) fuel]])
      fix r :: "err + string" and x3
      assume r: "keeps V x2 x3 \<and> (\<forall>ip. r = Inr ip \<longrightarrow> text_ok ip \<and> sound V x3)"
      with 2 have 3: "row_is V x3 i e" "timely boot grace V x3" by (blast intro: row_keeps timely_later keeps_later)+
      show "attains E (case r of Inl e \<Rightarrow> start_fail (main_waker st) i e
          | Inr podIP \<Rightarrow> let addr = sprintf ''%s:%d'' [Str podIP, Num ComputePort] in
              bind (SetEndpointRunning i addr) (case_sum (start_fail (main_waker st) i) (\<lambda>_. returns addr))) x3
          (\<lambda>_ x'. settled boot grace V i x')"
      proof (cases r)
        case (Inl err)
        with start_fail_settles [OF E 3(1) row(2) 3(2)] show ?thesis by simp
      next
        case (Inr ip)
        with r have "text_ok ip" and sound: "sound V x3" by auto
        from SetRunning_attains [OF E 3(1) pod_address_text [OF this(1)]] Inr 3(2) sound show ?thesis
          by (auto simp: Let_def simp del: sprintf.simps elim!: attains_bindI intro: settledI)
      qed
    qed
  qed auto
qed auto

section \<open>Waking\<close>

text \<open>A compare-and-swap from the endpoint's state is won.\<close>

lemma cas_any_attains:
  assumes E: "responsive ns i boot grace V E" and "row_is V x i e" and "e_state e \<in> set froms"
  shows "attains E (cas_any froms i ''starting'') x (\<lambda>r x'. later V x x' \<and>
    (\<exists>s e'. r = Inr (Some s) \<and> row_is V x' i e' \<and> e_state e' = ''starting''))"
  using assms(2,3)
proof (induction froms arbitrary: x)
  case (Cons src froms)
  have dst: "''starting'' \<in> set endpoint_states" by (simp add: endpoint_states_def)
  show ?case
  proof (cases "e_state e = src")
    case True
    show ?thesis
      unfolding cas_any.simps
      by (rule attains_callI [OF Transition_attains [OF E Cons.prems(1) True dst]]) (auto intro: elapses_later)
  next
    case False
    show ?thesis
      unfolding cas_any.simps
    proof (rule attains_callI [OF Transition_refused [OF E Cons.prems(1) False dst]])
      fix ok x'
      assume "Inr ok = Inr False \<and> elapses second V x x' \<and> keeps V x x'"
      then have keep: "keeps V x x'" and [simp]: "\<not> ok" by auto
      have "attains E (cas_any froms i ''starting'') x' (\<lambda>r x''. later V x' x'' \<and>
          (\<exists>s e'. r = Inr (Some s) \<and> row_is V x'' i e' \<and> e_state e' = ''starting''))"
        by (rule Cons.IH [OF row_keeps [OF Cons.prems(1) keep]]) (use Cons.prems(2) False in simp)
      then show "attains E (if ok then returns (Some src) else cas_any froms i ''starting'') x'
          (\<lambda>r x'. later V x x' \<and> (\<exists>s e'. r = Inr (Some s) \<and> row_is V x' i e' \<and> e_state e' = ''starting''))"
        by (auto intro: later_trans [OF keeps_later [OF keep]] elim!: attains_mono)
    qed auto
  qed
qed simp

text \<open>The decision under the row lock, by the row's state.\<close>

definition decided :: "time \<Rightarrow> endpoint \<Rightarrow> wake_action \<Rightarrow> bool" where
  "decided c e action \<longleftrightarrow>
     (if e_state e = ''running'' then action = VerifyRunning (case e_addr e of Some a \<Rightarrow> a | None \<Rightarrow> [])
      else if e_state e = ''starting'' \<or> e_state e = ''suspending''
      then action = Take_over \<or> action = Wait \<and> c \<le> e_updated e + staleAfter
      else action = Start_it)"

lemma row_state: "row_is V x i e \<Longrightarrow> e_state e \<in> set endpoint_states"
  by (auto simp: row_is_def schema_ok_def dest: find_key)

lemma decide_attains:
  assumes E: "responsive ns i boot grace V E" and row: "row_is V x i e"
  shows "attains E (WithEndpointLock i (decide i)) x (\<lambda>r x'. \<exists>action. r = Inr action \<and>
    decided (vw_clock V x) e action \<and> elapses (3 * second) V x x' \<and> keeps V x x')"
  unfolding WithEndpointLock_def
proof (rule read_attains [OF E])
  show "\<not> elsewhere i [SelectEndpointForUpdate i]" by simp
  from row have ok: "schema_ok (vw_db V x)" and e: "ep_row (vw_db V x) i = Some e" by (simp_all add: row_is_def)
  then show "exec_tx t [SelectEndpointForUpdate i] (vw_db V x) = (Inr (EndpointRows [e]), vw_db V x)" for t
    by (simp add: exec_tx_single rows_of_key [OF schema_keys(3) [OF ok]])
  fix x1
  assume 1: "elapses second V x x1" "keeps V x x1"
  let ?Q = "\<lambda>r x'. \<exists>action. r = Inr action \<and> decided (vw_clock V x) e action \<and>
      elapses (3 * second) V x x' \<and> keeps V x x'"
  have commit: "attains E (Sql [] (\<lambda>c. case c of Inl e \<Rightarrow> fails e | Inr _ \<Rightarrow> returns action)) x2 ?Q"
    if "decided (vw_clock V x) e action" "elapses second V x1 x2 \<and> keeps V x1 x2 \<or> x2 = x1" for action x2
  proof (rule read_attains [OF E])
    show "\<not> elsewhere i []" by simp
    show "exec_tx t [] (vw_db V x2) = (Inr (Affected 0), vw_db V x2)" for t by (simp add: exec_tx_def)
    fix x3
    assume "elapses second V x2 x3" "keeps V x2 x3"
    with 1 that show "attains E (case Inr (Affected 0) of Inl e \<Rightarrow> fails e | Inr _ \<Rightarrow> returns action) x3 ?Q"
      by (auto simp: elapses_def intro: keeps_trans)
  qed
  have "attains E (check (decide i e) fails (\<lambda>action. Sql [] (\<lambda>c. case c of Inl e \<Rightarrow> fails e | Inr _ \<Rightarrow> returns action))) x1 ?Q"
  proof (cases "e_state e = ''starting'' \<or> e_state e = ''suspending''")
    case True
    obtain now x2 where now: "env_now E x1 = (now, x2)" by (cases "env_now E x1")
    from now_law [OF E this] have 2: "vw_clock V x \<le> now" "elapses second V x1 x2" "keeps V x1 x2"
      using 1 by (auto simp: elapses_def)
    show ?thesis
    proof (cases "staleAfter < since now (e_updated e)")
      case stale: True
      with True have "decided (vw_clock V x) e Take_over" by (auto simp: decided_def)
      from commit [OF this, of x2] 2 True now stale show ?thesis by (auto simp: decide_def check_def)
    next
      case fresh: False
      with True 2 have "decided (vw_clock V x) e Wait" by (auto simp: decided_def since_def staleAfter_def)
      from commit [OF this, of x2] 2 True now fresh show ?thesis by (auto simp: decide_def check_def)
    qed
  next
    case False
    show ?thesis
    proof (cases "e_state e = ''running''")
      case True
      then have "decided (vw_clock V x) e (VerifyRunning (case e_addr e of Some a \<Rightarrow> a | None \<Rightarrow> []))"
        by (simp add: decided_def)
      from commit [OF this, of x1] True show ?thesis by (simp add: decide_def check_def)
    next
      case idle: False
      with False have "decided (vw_clock V x) e Start_it" by (simp add: decided_def)
      from commit [OF this, of x1] row_state [OF row] False idle show ?thesis
        by (auto simp: decide_def check_def endpoint_states_def)
    qed
  qed
  then show "attains E (case scanEndpoint (Inr (EndpointRows [e])) of Inl e \<Rightarrow> fails e
      | Inr ep \<Rightarrow> check (decide i ep) fails (\<lambda>x. Sql [] (\<lambda>c. case c of Inl e \<Rightarrow> fails e | Inr _ \<Rightarrow> returns x))) x1 ?Q"
    by (simp add: scanEndpoint_def row_reply)
qed

text \<open>What a turn of the loop does with the decision.\<close>

definition wake_act :: "nat \<Rightarrow> waker \<Rightarrow> string \<Rightarrow> time \<Rightarrow> wake_action \<Rightarrow> (err + string) prog" where
  "wake_act n w i deadline action =
     (case action of
        VerifyRunning addr \<Rightarrow> check (rt_Status (wk_runtime w) i) fails (\<lambda>st.
          if ps_exists st \<and> ps_phase st = ''Running'' \<and> addr \<noteq> [] \<and> HasPrefix addr (ps_ip st @ '':'') then returns addr
          else check (TransitionEndpoint i ''running'' ''suspended'') fails (\<lambda>_. Wake_loop n w i deadline))
      | Start_it \<Rightarrow> check (cas_any [''suspended'', ''failed''] i ''starting'') fails (\<lambda>won.
          case won of Some _ \<Rightarrow> startCompute n w i | None \<Rightarrow> Wake_loop n w i deadline)
      | Take_over \<Rightarrow> check (cas_any [''starting'', ''suspending''] i ''starting'') fails (\<lambda>won.
          case won of Some _ \<Rightarrow> bind (rt_Stop (wk_runtime w) i) (\<lambda>_. startCompute n w i) | None \<Rightarrow> Wake_loop n w i deadline)
      | Wait \<Rightarrow> Sleep (pollInterval w) (\<lambda>c. case c of Some e \<Rightarrow> fails e | None \<Rightarrow> Wake_loop n w i deadline))"

lemma Wake_turn:
  assumes E: "responsive ns i boot grace V E" and row: "row_is V x i e" and "vw_clock V x + second < deadline"
    and act: "\<And>action x'. decided (vw_clock V x) e action \<Longrightarrow> elapses (4 * second) V x x' \<Longrightarrow> keeps V x x' \<Longrightarrow>
      attains E (wake_act n w i deadline action) x' Q"
  shows "attains E (Wake_loop (Suc n) w i deadline) x Q"
proof -
  obtain now x1 where now: "env_now E x = (now, x1)" by (cases "env_now E x")
  from now_law [OF E this] assms(3) have 1: "now < deadline" "elapses second V x x1" "keeps V x x1"
    by (auto simp: elapses_def)
  have "attains E (check (WithEndpointLock i (decide i)) fails (wake_act n w i deadline)) x1 Q"
  proof (rule attains_checkI [OF decide_attains [OF E row_keeps [OF row 1(3)]]])
    fix action x2
    assume "decided (vw_clock V x1) e action \<and> elapses (3 * second) V x1 x2 \<and> keeps V x1 x2"
    with 1 show "attains E (wake_act n w i deadline action) x2 Q"
      by (intro act) (auto simp: decided_def elapses_def intro: keeps_trans split: if_splits)
  qed
  with now 1 show ?thesis by (simp add: wake_act_def [abs_def])
qed

text \<open>What a wake needs: a property of the cluster that time does not change, from which a won
  start, with or without a stop before it, reaches the aim.\<close>

definition persists :: "'x view \<Rightarrow> ('x \<Rightarrow> bool) \<Rightarrow> bool" where
  "persists V P \<longleftrightarrow> (\<forall>x x'. P x \<longrightarrow> later V x x' \<longrightarrow> P x')"

definition starts_well :: "settings \<Rightarrow> string \<Rightarrow> 'x view \<Rightarrow> 'x env \<Rightarrow> ('x \<Rightarrow> bool) \<Rightarrow> (err + string \<Rightarrow> 'x \<Rightarrow> bool) \<Rightarrow> bool" where
  "starts_well st i V E P Q \<longleftrightarrow>
     (\<forall>n x e. 241 \<le> n \<longrightarrow> P x \<longrightarrow> row_is V x i e \<longrightarrow> e_state e = ''starting'' \<longrightarrow>
        attains E (startCompute n (main_waker st) i) x Q)"

definition stops_well :: "settings \<Rightarrow> string \<Rightarrow> 'x view \<Rightarrow> 'x env \<Rightarrow> ('x \<Rightarrow> bool) \<Rightarrow> bool" where
  "stops_well st i V E P \<longleftrightarrow>
     (\<forall>x. P x \<longrightarrow> attains E (Stop \<lparr>kr_namespace = st_namespace st, kr_image = st_image st\<rparr> i) x
        (\<lambda>_ x'. P x' \<and> vw_db V x' = vw_db V x))"

lemma persistsD: "persists V P \<Longrightarrow> P x \<Longrightarrow> keeps V x x' \<Longrightarrow> P x'" "persists V P \<Longrightarrow> P x \<Longrightarrow> later V x x' \<Longrightarrow> P x'"
  by (auto simp: persists_def dest: keeps_later)

lemma idle_attains:
  assumes E: "responsive (st_namespace st) i boot grace V E" and P: "persists V P" "P x" and start: "starts_well st i V E P Q"
    and row: "row_is V x i e" and idle: "e_state e = ''suspended'' \<or> e_state e = ''failed''" and fuel: "241 \<le> n"
    and time: "vw_clock V x + second < deadline"
  shows "attains E (Wake_loop (Suc n) (main_waker st) i deadline) x Q"
proof (rule Wake_turn [OF E row time])
  fix action x1
  assume "decided (vw_clock V x) e action" and keep: "keeps V x x1"
  with idle have "action = Start_it" by (auto simp: decided_def)
  moreover have "attains E (check (cas_any [''suspended'', ''failed''] i ''starting'') fails (\<lambda>won.
      case won of Some _ \<Rightarrow> startCompute n (main_waker st) i | None \<Rightarrow> Wake_loop n (main_waker st) i deadline)) x1 Q"
  proof (rule attains_callI [OF cas_any_attains [OF E row_keeps [OF row keep]]])
    show "e_state e \<in> set [''suspended'', ''failed'']" using idle by simp
    fix won x2
    assume "later V x1 x2 \<and> (\<exists>s e'. Inr won = Inr (Some s) \<and> row_is V x2 i e' \<and> e_state e' = ''starting'')"
    moreover from this have "P x2" by (intro persistsD(2) [OF P(1) persistsD(1) [OF P keep]]) simp
    ultimately show "attains E (case won of Some _ \<Rightarrow> startCompute n (main_waker st) i
        | None \<Rightarrow> Wake_loop n (main_waker st) i deadline) x2 Q"
      using start fuel by (auto simp: starts_well_def)
  qed auto
  ultimately show "attains E (wake_act n (main_waker st) i deadline action) x1 Q"
    by (simp add: wake_act_def)
qed

lemma running_attains:
  assumes E: "responsive (st_namespace st) i boot grace V E" and P: "persists V P" "P x" and start: "starts_well st i V E P Q"
    and row: "row_is V x i e" and running: "e_state e = ''running''"
    and verified: "\<And>y z ps addr. P y \<Longrightarrow> row_is V y i e \<Longrightarrow> seen_as V y ps \<Longrightarrow> e_addr e = Some addr \<Longrightarrow> ps_exists ps \<Longrightarrow>
      ps_phase ps = ''Running'' \<Longrightarrow> HasPrefix addr (ps_ip ps @ '':'') \<Longrightarrow> keeps V y z \<Longrightarrow> Q (Inr addr) z"
    and fuel: "241 \<le> n" and time: "vw_clock V x + 10 * second < deadline"
  shows "attains E (Wake_loop (Suc (Suc n)) (main_waker st) i deadline) x Q"
proof (rule Wake_turn [OF E row])
  let ?kr = "\<lparr>kr_namespace = st_namespace st, kr_image = st_image st\<rparr>"
  show "vw_clock V x + second < deadline" using time by simp
  fix action x1
  assume action: "decided (vw_clock V x) e action" and 1: "elapses (4 * second) V x x1" "keeps V x x1"
  let ?addr = "case e_addr e of Some a \<Rightarrow> a | None \<Rightarrow> []"
  from action running have action: "action = VerifyRunning ?addr" by (simp add: decided_def)
  from row 1 have row1: "row_is V x1 i e" by (blast intro: row_keeps)
  from persistsD(1) [OF P 1(2)] have P1: "P x1" .
  have revert: "attains E (check (TransitionEndpoint i ''running'' ''suspended'') fails
      (\<lambda>_. Wake_loop (Suc n) (main_waker st) i deadline)) x2 Q"
    if 2: "elapses second V x1 x2" "keeps V x1 x2" for x2
  proof (rule attains_callI [OF Transition_attains [OF E row_keeps [OF row1 2(2)] running]])
    fix b x3
    assume 3: "Inr b = Inr True \<and> elapses second V x2 x3 \<and> same_cluster V x2 x3 \<and> (\<exists>t. vw_clock V x2 \<le> t \<and>
        t \<le> vw_clock V x3 \<and> row_is V x3 i (e\<lparr>e_state := ''suspended'', e_updated := t\<rparr>))"
    then obtain t where row3: "row_is V x3 i (e\<lparr>e_state := ''suspended'', e_updated := t\<rparr>)" by blast
    from persistsD(2) [OF P(1) persistsD(1) [OF P(1) P1 2(2)]] 3 have "P x3" by (blast intro: elapses_later)
    from idle_attains [OF E P(1) this start row3 _ fuel] 1 2 3 time
    show "attains E (Wake_loop (Suc n) (main_waker st) i deadline) x3 Q" by (simp add: elapses_def)
  qed (auto simp: endpoint_states_def)
  have "attains E (check (Status ?kr i) fails (\<lambda>ps.
      if ps_exists ps \<and> ps_phase ps = ''Running'' \<and> ?addr \<noteq> [] \<and> HasPrefix ?addr (ps_ip ps @ '':'') then returns ?addr
      else check (TransitionEndpoint i ''running'' ''suspended'') fails
        (\<lambda>_. Wake_loop (Suc n) (main_waker st) i deadline))) x1 Q"
  proof (rule attains_checkI [OF Status_attains [OF E]])
    fix ps x2
    assume 2: "elapses second V x1 x2 \<and> keeps V x1 x2 \<and> seen_as V x1 ps"
    show "attains E (if ps_exists ps \<and> ps_phase ps = ''Running'' \<and> ?addr \<noteq> [] \<and> HasPrefix ?addr (ps_ip ps @ '':'')
        then returns ?addr else check (TransitionEndpoint i ''running'' ''suspended'') fails
        (\<lambda>_. Wake_loop (Suc n) (main_waker st) i deadline)) x2 Q"
    proof (cases "ps_exists ps \<and> ps_phase ps = ''Running'' \<and> ?addr \<noteq> [] \<and> HasPrefix ?addr (ps_ip ps @ '':'')")
      case True
      then have addr: "e_addr e = Some ?addr" by (auto split: option.splits)
      have "Q (Inr ?addr) x2"
        by (rule verified [OF P1 row1 _ addr]) (use True 2 in auto)
      with True show ?thesis by simp
    next
      case False
      have "attains E (check (TransitionEndpoint i ''running'' ''suspended'') fails
          (\<lambda>_. Wake_loop (Suc n) (main_waker st) i deadline)) x2 Q"
        using 2 by (intro revert) simp_all
      then show ?thesis unfolding if_not_P [OF False] .
    qed
  qed simp
  then show "attains E (wake_act (Suc n) (main_waker st) i deadline action) x1 Q"
    by (simp add: wake_act_def action main_waker_simps NewK8sRuntime_def del: Wake_loop.simps)
qed

lemma takeover_attains:
  assumes E: "responsive (st_namespace st) i boot grace V E" and P: "persists V P" "P x"
    and start: "starts_well st i V E P Q" and stop: "stops_well st i V E P"
    and row: "row_is V x i e" and state: "e_state e = ''starting'' \<or> e_state e = ''suspending''" and fuel: "241 \<le> n"
  shows "attains E (wake_act n (main_waker st) i deadline Take_over) x Q"
proof -
  let ?kr = "\<lparr>kr_namespace = st_namespace st, kr_image = st_image st\<rparr>"
  have go: "attains E (bind (Stop ?kr i) (\<lambda>_. startCompute n (main_waker st) i)) y Q"
    if "P y" "row_is V y i e'" "e_state e' = ''starting''" for y e'
  proof (rule attains_bindI)
    show "attains E (Stop ?kr i) y (\<lambda>_ y'. P y' \<and> vw_db V y' = vw_db V y)"
      using stop that(1) by (simp add: stops_well_def)
    fix u y'
    assume "P y' \<and> vw_db V y' = vw_db V y"
    with start fuel that(2,3) row_keeps_db [OF that(2)]
    show "attains E (startCompute n (main_waker st) i) y' Q" unfolding starts_well_def by blast
  qed
  show ?thesis
    unfolding wake_act_def wake_action.case main_waker_simps NewK8sRuntime_def runtime.simps
  proof (rule attains_callI [OF cas_any_attains [OF E row]])
    show "e_state e \<in> set [''starting'', ''suspending'']" using state by simp
    fix won y
    assume "later V x y \<and> (\<exists>s e'. Inr won = Inr (Some s) \<and> row_is V y i e' \<and> e_state e' = ''starting'')"
    moreover from this have "P y" by (intro persistsD(2) [OF P]) simp
    ultimately show "attains E (case won of Some _ \<Rightarrow> bind (Stop ?kr i) (\<lambda>_. startCompute n (main_waker st) i)
        | None \<Rightarrow> Wake_loop n (main_waker st) i deadline) y Q"
      using go by auto
  qed auto
qed

text \<open>Waiting ends within two minutes of the row's last change: at the latest the turn after that
  takes the start over.\<close>

lemma waiting_attains:
  assumes E: "responsive (st_namespace st) i boot grace V E" and P: "persists V P" "P x"
    and start: "starts_well st i V E P Q" and stop: "stops_well st i V E P" and fuel: "241 \<le> n"
    and "row_is V x i e" and state: "e_state e = ''starting'' \<or> e_state e = ''suspending''"
    and "e_updated e + staleAfter - vw_clock V x < int k * (500 * millisecond)"
    and "vw_clock V x + second < deadline" and late: "e_updated e + staleAfter + 10 * second \<le> deadline"
  shows "attains E (Wake_loop (Suc (k + n)) (main_waker st) i deadline) x Q"
  using P(2) assms(7,9,10)
proof (induction k arbitrary: x)
  case (0 x)
  show ?case
  proof (rule Wake_turn [OF E 0(2,4)])
    fix action x1
    assume "decided (vw_clock V x) e action" and keep: "keeps V x x1"
    with state 0 have "action = Take_over" by (auto simp: decided_def)
    with takeover_attains [OF E P(1) persistsD(1) [OF P(1) 0(1) keep] start stop row_keeps [OF 0(2) keep] state fuel]
    show "attains E (wake_act (0 + n) (main_waker st) i deadline action) x1 Q" by simp
  qed
next
  case (Suc k x)
  show ?case
  proof (rule Wake_turn [OF E Suc.prems(2,4)])
    fix action x1
    assume action: "decided (vw_clock V x) e action" and 1: "elapses (4 * second) V x x1" "keeps V x x1"
    note row1 = row_keeps [OF Suc.prems(2) 1(2)] and P1 = persistsD(1) [OF P(1) Suc.prems(1) 1(2)]
    show "attains E (wake_act (Suc k + n) (main_waker st) i deadline action) x1 Q"
    proof (cases "action = Take_over")
      case True
      with takeover_attains [OF E P(1) P1 start stop row1 state, of "Suc k + n"] fuel show ?thesis by simp
    next
      case False
      with action state have wait: "action = Wait" and fresh: "vw_clock V x \<le> e_updated e + staleAfter"
        by (auto simp: decided_def)
      obtain c x2 where c: "env_sleep E (500 * millisecond) x1 = (c, x2)" by (cases "env_sleep E (500 * millisecond) x1")
      from sleep_law [OF E this] have 2: "c = None" "keeps V x1 x2"
        "vw_clock V x1 + 500 * millisecond \<le> vw_clock V x2" "vw_clock V x2 \<le> vw_clock V x1 + 1500 * millisecond"
        by (auto simp: elapses_def)
      have "attains E (Wake_loop (Suc (k + n)) (main_waker st) i deadline) x2 Q"
        by (rule Suc.IH) (use row_keeps [OF row1 2(2)] persistsD(1) [OF P(1) P1 2(2)] 1 2 fresh late Suc.prems in
            \<open>auto simp: elapses_def\<close>)
      with wait c 2 show ?thesis by (simp add: wake_act_def main_waker_simps del: Wake_loop.simps)
    qed
  qed
qed

definition waiting :: "endpoint \<Rightarrow> bool" where
  "waiting e \<longleftrightarrow> e_state e = ''starting'' \<or> e_state e = ''suspending''"

lemma Wake_attains:
  assumes E: "responsive (st_namespace st) i boot grace V E" and P: "persists V P" "P x" and start: "starts_well st i V E P Q"
    and stop: "waiting e \<Longrightarrow> stops_well st i V E P \<and> e_updated e \<le> vw_clock V x"
    and row: "row_is V x i e" and fuel: "500 \<le> n"
    and verified: "\<And>y z ps addr. e_state e = ''running'' \<Longrightarrow> P y \<Longrightarrow> row_is V y i e \<Longrightarrow> seen_as V y ps \<Longrightarrow>
      e_addr e = Some addr \<Longrightarrow> ps_exists ps \<Longrightarrow> ps_phase ps = ''Running'' \<Longrightarrow> HasPrefix addr (ps_ip ps @ '':'') \<Longrightarrow>
      keeps V y z \<Longrightarrow> Q (Inr addr) z"
  shows "attains E (Wake n (main_waker st) i) x Q"
proof -
  obtain now x1 where now: "env_now E x = (now, x1)" by (cases "env_now E x")
  from now_law [OF E this] have 1: "vw_clock V x \<le> now" "keeps V x x1" "elapses second V x x1" "now \<le> vw_clock V x1"
    by blast+
  note row1 = row_keeps [OF row 1(2)] and P1 = persistsD(1) [OF P 1(2)]
  obtain m where n: "n = Suc (Suc (250 + m))" and m: "241 \<le> m"
    using fuel that [of "n - 252"] by simp
  let ?d = "now + 150 * second"
  have "attains E (Wake_loop n (main_waker st) i ?d) x1 Q"
  proof -
    from row_state [OF row] consider "e_state e = ''running''" | "waiting e"
      | "e_state e = ''suspended'' \<or> e_state e = ''failed''" by (auto simp: endpoint_states_def waiting_def)
    then show ?thesis
    proof cases
      case 1
      then show ?thesis
        using running_attains [OF E P(1) P1 start row1 1 verified [OF 1], where n = "250 + m" and deadline = ?d] m n now_law [OF E now]
        by (simp add: elapses_def)
    next
      case 2
      then show ?thesis
        using waiting_attains [OF E P(1) P1 start conjunct1 [OF stop [OF 2]] m row1, of 251 ?d] n now_law [OF E now] stop [OF 2]
        by (simp add: elapses_def staleAfter_def waiting_def)
    next
      case 3
      then show ?thesis
        using idle_attains [OF E P(1) P1 start row1 3, of "Suc (250 + m)" ?d] m n now_law [OF E now] by (simp add: elapses_def)
    qed
  qed
  with now show ?thesis by (simp add: Wake_def main_waker_simps)
qed

text \<open>The two aims.\<close>

definition startable :: "'x view \<Rightarrow> endpoint \<Rightarrow> 'x \<Rightarrow> bool" where
  "startable V e x \<longleftrightarrow> (if waiting e then gone V x else usable V x)"

lemma Wake_serves:
  assumes E: "responsive (st_namespace st) i boot grace V E" and boot: "boot \<le> 115 * second"
    and on_time: "timely boot grace V x" and row: "row_is V x i e" and "waiting e \<Longrightarrow> e_updated e \<le> vw_clock V x"
    and pod: "startable V e x" and fuel: "500 \<le> n"
  shows "attains E (Wake n (main_waker st) i) x (\<lambda>r x'. \<exists>addr. r = Inr addr \<and> serving V i addr x')"
proof (rule Wake_attains [OF E _ _ _ _ row fuel])
  let ?P = "\<lambda>y. timely boot grace V y \<and> startable V e y"
  let ?Q = "\<lambda>r x'. \<exists>addr. r = Inr addr \<and> serving V i addr x'"
  show "persists V ?P"
    by (auto simp: persists_def startable_def intro: timely_later gone_later usable_later)
  show "timely boot grace V x \<and> startable V e x" using on_time pod by simp
  show "starts_well st i V E ?P ?Q"
    using startCompute_attains [OF E boot] by (auto simp: starts_well_def startable_def usable_def split: if_splits)
  show "stops_well st i V E ?P \<and> e_updated e \<le> vw_clock V x" if "waiting e"
    using that assms(5) by (auto simp: stops_well_def startable_def intro!: attains_mono [OF Stop_attains [OF E]])
  fix y z ps addr
  assume "e_state e = ''running''" "?P y" "row_is V y i e" "seen_as V y ps" "e_addr e = Some addr" "ps_exists ps"
    "ps_phase ps = ''Running''" "HasPrefix addr (ps_ip ps @ '':'')" "keeps V y z"
  moreover from this have "row_is V z i e" by (blast intro: row_keeps)
  ultimately show "?Q (Inr addr) z"
    by (auto simp: serving_def startable_def waiting_def usable_def gone_def seen_as_def keeps_eqs split: pod_life.splits)
qed

lemma Wake_settles:
  assumes E: "responsive (st_namespace st) i boot grace V E"
    and on_time: "timely boot grace V x" and row: "row_is V x i e" and updated: "e_updated e \<le> vw_clock V x" and fuel: "500 \<le> n"
  shows "attains E (Wake n (main_waker st) i) x (\<lambda>_ x'. settled boot grace V i x')"
proof (rule Wake_attains [OF E, where P = "timely boot grace V" and e = e])
  let ?P = "timely boot grace V"
  show "timely boot grace V x" "row_is V x i e" "500 \<le> n" by (fact on_time row fuel)+
  show "persists V ?P" by (auto simp: persists_def intro: timely_later)
  show "starts_well st i V E ?P (\<lambda>_ x'. settled boot grace V i x')"
    using startCompute_settles [OF E] by (auto simp: starts_well_def)
  show "stops_well st i V E ?P \<and> e_updated e \<le> vw_clock V x" if "waiting e"
    using updated by (auto simp: stops_well_def intro!: attains_mono [OF Stop_attains [OF E]])
  fix y z ps addr
  assume h: "e_state e = ''running''" "?P y" "row_is V y i e" "seen_as V y ps" "ps_phase ps = ''Running''" "keeps V y z"
  then have "sound V y" by (auto simp: seen_as_def sound_def)
  with h show "settled boot grace V i z"
    unfolding settled_def by (blast intro: timely_later sound_later row_keeps keeps_later)
qed

section \<open>Properties\<close>

text \<open>C5. Two wakes heal. In an environment that is responsive as \<open>responsive\<close> says, where no other
  program writes the tables: calls take at most a second, transactions commit, a new pod's compute
  answers \<^verbatim>\<open>running\<close> within 115 seconds, and a deleted pod is gone within \<open>grace\<close>. Whatever state the
  endpoint's row was left in, by a crashed waker or suspender included, and whatever is under
  its pod's name, none, a pod that works, a dead one or a terminating one: a first \<^verbatim>\<open>Wake\<close> returns,
  with an address or an error, and a second one, \<open>grace\<close> later, returns an address. Then
  the row is running with this address, which is that of the endpoint's pod in the cluster.
  500 turns of the polling loops are enough for each.\<close>

theorem second_wake_heals:
  assumes "responsive (st_namespace st) i boot grace V E" and "boot \<le> 115 * second" and "0 \<le> grace"
    and "timely boot grace V x" and "row_is V x i e" and "e_updated e \<le> vw_clock V x" and "500 \<le> n"
    and "x1 = final E (Wake n (main_waker st) i) x" and "x2 = snd (env_sleep E grace x1)"
  shows "(\<exists>r. result E (Wake n (main_waker st) i) x = Returned r) \<and>
    (\<exists>addr. result E (Wake n (main_waker st) i) x2 = Returned (Inr addr) \<and>
       serving V i addr (final E (Wake n (main_waker st) i) x2))"
proof -
  note E = assms(1)
  from attains_result [OF Wake_settles [OF E assms(4-7)]] obtain r where
    r: "result E (Wake n (main_waker st) i) x = Returned r" and settled: "settled boot grace V i x1"
    using assms(8) by auto
  from settled obtain e1 where 1: "timely boot grace V x1" "sound V x1" "row_is V x1 i e1"
    and state: "e_state e1 = ''running'' \<or> e_state e1 = ''failed''" by (auto simp: settled_def)
  obtain c where "env_sleep E grace x1 = (c, x2)" using assms(9) by (cases "env_sleep E grace x1") simp
  from sleep_law [OF E this assms(3)] have 2: "vw_clock V x1 + grace \<le> vw_clock V x2" "keeps V x1 x2" by blast+
  with 1 have "timely boot grace V x2" "row_is V x2 i e1" by (blast intro: row_keeps timely_later keeps_later)+
  moreover from 1 2 have "usable V x2"
    by (auto simp: timely_def sound_def usable_def gone_def keeps_eqs split: pod_life.splits)
  ultimately show ?thesis
    using state attains_result [OF Wake_serves [OF E assms(2), of x2 e1 n]] assms(7) r
    by (auto simp: startable_def waiting_def)
qed

text \<open>C6. One wake heals when nothing blocks the pod's name. In the same environments: when the name
  is free, or when the pod under it works and the row is not in the middle of a start or a
  suspension, a single \<^verbatim>\<open>Wake\<close> returns an address from any state of the row, a crashed
  start or suspension included; then the row is running with this address, which is that of the
  endpoint's pod.\<close>

theorem wake_heals:
  assumes "responsive (st_namespace st) i boot grace V E" and "boot \<le> 115 * second"
    and "timely boot grace V x" and "row_is V x i e" and "e_updated e \<le> vw_clock V x" and "startable V e x" and "500 \<le> n"
  shows "\<exists>addr. result E (Wake n (main_waker st) i) x = Returned (Inr addr) \<and>
    serving V i addr (final E (Wake n (main_waker st) i) x)"
  using attains_result [OF Wake_serves [OF assms(1-5,6,7)]] by auto

section \<open>A responsive world\<close>

text \<open>A clock that only sleeping moves, the tables, the pod and the config map of the endpoint
  \<^verbatim>\<open>ep-1\<close>. A new pod's compute is up at once; a deleted pod keeps its name for 30 seconds; calls
  about anything else fail.\<close>

type_synonym world = "nat \<times> database \<times> pod_life \<times> bool"

definition world_view :: "world view" where
  "world_view =
     \<lparr>vw_clock = (\<lambda>(t, db, p, m). int t), vw_db = (\<lambda>(t, db, p, m). db), vw_pod = (\<lambda>(t, db, p, m). p),
      vw_map = (\<lambda>(t, db, p, m). m)\<rparr>"

fun world_k8s :: "k8s_call \<Rightarrow> world \<Rightarrow> (k8s_error + k8s_object) \<times> world" where
  "world_k8s (CreateConfigMap ns cm) (t, db, p, m) = (if m then Inl (AlreadyExists []) else Inr NoObject, t, db, p, True)"
| "world_k8s (GetConfigMap ns n) w =
     (Inr (ConfigMapObject \<lparr>cm_name = n, cm_namespace = ns, cm_labels = [], cm_data = [], cm_resource_version = []\<rparr>), w)"
| "world_k8s (UpdateConfigMap ns cm) w = (Inr NoObject, w)"
| "world_k8s (DeleteConfigMap ns n) (t, db, p, m) = (Inr NoObject, t, db, p, False)"
| "world_k8s (CreatePod ns q) (t, db, p, m) =
     (let new = (Inr NoObject, t, db, Alive ''10.0.0.1'' (int t), m); old = (Inl (AlreadyExists []), t, db, p, m) in
      case p of Absent \<Rightarrow> new | Terminating g \<Rightarrow> if int t < g then old else new | _ \<Rightarrow> old)"
| "world_k8s (DeletePod ns n) (t, db, p, m) =
     (case p of
        Absent \<Rightarrow> (Inl (DoesNotExist []), t, db, p, m)
      | Terminating g \<Rightarrow> (Inr NoObject, t, db, p, m)
      | _ \<Rightarrow> (Inr NoObject, t, db, Terminating (int t + 30 * second), m))"
| "world_k8s (GetPod ns n) (t, db, p, m) =
     (case p of
        Absent \<Rightarrow> Inl (DoesNotExist [])
      | Alive ip up \<Rightarrow> Inr (PodObject \<lparr>pv_ip = ip, pv_phase = ''Running''\<rparr>)
      | Dead ip \<Rightarrow> Inr (PodObject \<lparr>pv_ip = ip, pv_phase = ''Failed''\<rparr>)
      | Terminating g \<Rightarrow> if int t < g then Inr (PodObject \<lparr>pv_ip = [], pv_phase = ''Running''\<rparr>) else Inl (DoesNotExist []),
      t, db, p, m)"

definition up_status :: payload where
  "up_status = \<lparr>pl_text = [], pl_value = Some (JObj [(''status'', JStr ''running'')]), pl_trailing = False\<rparr>"

definition world_env :: "world env" where
  "world_env = quiet_env
     \<lparr>env_now := (\<lambda>(t, w). (int t, t, w)), env_sleep := (\<lambda>d (t, w). (None, t + nat d, w)),
      env_http := (\<lambda>q (t, db, p, m).
        (case p of Alive ip up \<Rightarrow> Inr \<lparr>rs_code = 200, rs_body = up_status\<rparr> | _ \<Rightarrow> Inl (ExtErr ''refused''), t, db, p, m)),
      env_k8s := (\<lambda>c w. if concerns (st_namespace default_settings) ''ep-1'' c then world_k8s c w else (Inl (K8sError []), w)),
      env_sql := (\<lambda>qs (t, db, w). let (r, db') = exec_tx (int t) qs db in (r, t, db', w))\<rparr>"

abbreviation world_responds :: bool where
  "world_responds \<equiv> responsive (st_namespace default_settings) ''ep-1'' 0 (30 * second) world_view world_env"

lemma world_law:
  assumes "world_k8s c w = (r, w')"
  shows "elapses second world_view w w'" "vw_db world_view w' = vw_db world_view w" "cluster_law world_view c w r w'"
    "timely 0 (30 * second) world_view w \<Longrightarrow> timely 0 (30 * second) world_view w'"
proof -
  show "elapses second world_view w w'" "vw_db world_view w' = vw_db world_view w"
    using assms by (cases "(c, w)" rule: world_k8s.cases;
        auto simp: elapses_def world_view_def Let_def split: if_splits pod_life.splits)+
  show "cluster_law world_view c w r w'"
    using assms by (cases "(c, w)" rule: world_k8s.cases)
      (auto simp: world_view_def same_cluster_def created_def taken_def text_ok_def Let_def split: if_splits pod_life.splits)
  show "timely 0 (30 * second) world_view w'" if "timely 0 (30 * second) world_view w"
    using assms that by (cases "(c, w)" rule: world_k8s.cases)
      (auto simp: world_view_def timely_def text_ok_def Let_def split: if_splits pod_life.splits)
qed

lemma world_responsive: world_responds
proof -
  have "prompt_clock world_view world_env" and "committing_db ''ep-1'' world_view world_env"
    by (auto simp: prompt_clock_def committing_db_def world_env_def world_view_def elapses_def same_cluster_def split_beta)
  moreover have "fst (decode_status up_status) = ''running''" by code_simp
  then have "booting_computes world_view world_env"
    by (auto simp: booting_computes_def compute_law_def world_env_def world_view_def elapses_def same_cluster_def
        split: pod_life.splits)
  moreover have "orderly_cluster (st_namespace default_settings) ''ep-1'' 0 (30 * second) world_view world_env"
    using world_law by (fastforce simp: orderly_cluster_def world_env_def elapses_def same_cluster_def split: prod.split)
  ultimately show ?thesis by (simp add: responsive_def)
qed

text \<open>Its endpoint was left starting by a waker that is gone, with a dead pod, or with none.\<close>

definition crashed_db :: database where
  "crashed_db = snd (exec_tx 8 [UpdateState ''ep-1'' ''suspended'' ''starting''] demo_db)"

definition crashed_row :: endpoint where
  "crashed_row = demo_endpoint\<lparr>e_state := ''starting'', e_suspend_after := 300, e_updated := 8\<rparr>"

lemma crashed_row_is: "row_is world_view (8, crashed_db, p, m) ''ep-1'' crashed_row"
proof -
  have "ep_row crashed_db ''ep-1'' = Some crashed_row" by code_simp
  with exec_tx_ok [OF demo_db_ok, of 8 "[UpdateState ''ep-1'' ''suspended'' ''starting'']"] show ?thesis
    by (simp add: row_is_def world_view_def crashed_db_def)
qed

definition dead_world :: world where
  "dead_world = (8, crashed_db, Dead ''10.0.0.7'', True)"

lemma second_wake_heals_witness:
  "(\<exists>r. result world_env (Wake 500 (main_waker default_settings) ''ep-1'') dead_world = Returned r) \<and>
   (\<exists>addr. result world_env (Wake 500 (main_waker default_settings) ''ep-1'')
       (snd (env_sleep world_env (30 * second)
         (final world_env (Wake 500 (main_waker default_settings) ''ep-1'') dead_world))) = Returned (Inr addr) \<and>
     serving world_view ''ep-1'' addr (final world_env (Wake 500 (main_waker default_settings) ''ep-1'')
       (snd (env_sleep world_env (30 * second)
         (final world_env (Wake 500 (main_waker default_settings) ''ep-1'') dead_world)))))"
  by (rule second_wake_heals [OF world_responsive _ _ _ crashed_row_is [of "Dead ''10.0.0.7''" True, folded dead_world_def]])
    (simp_all add: timely_def world_view_def dead_world_def text_ok_def crashed_row_def)

lemma wake_heals_witness:
  "\<exists>addr. result world_env (Wake 500 (main_waker default_settings) ''ep-1'') (8, crashed_db, Absent, False) = Returned (Inr addr) \<and>
    serving world_view ''ep-1'' addr (final world_env (Wake 500 (main_waker default_settings) ''ep-1'') (8, crashed_db, Absent, False))"
  by (rule wake_heals [OF world_responsive _ _ crashed_row_is])
    (simp_all add: timely_def world_view_def crashed_row_def startable_def waiting_def gone_def)

end
