(* ===== verification/Traces.thy ===== *)
theory Traces
  imports Clock
begin

text \<open>
  Statements about whole traces. \<open>audited G p Q\<close> says of the program \<open>p\<close>, whatever its
  environment replies: each effect \<open>ev\<close> is permitted by \<open>G\<close> after the effects before it, and a
  result \<open>a\<close> satisfies \<open>Q a tr\<close> with the whole trace. \<open>audited_run\<close> is what it means for
  a run.
\<close>

definition audit :: "(event list \<Rightarrow> event \<Rightarrow> bool) \<Rightarrow> event list monitor" where
  "audit G = \<lparr>mon_rely = \<lambda>s ev. True, mon_guar = G, mon_next = \<lambda>s ev. s @ [ev]\<rparr>"

definition audited ::
  "(event list \<Rightarrow> event \<Rightarrow> bool) \<Rightarrow> 'a prog \<Rightarrow> ('a \<Rightarrow> event list \<Rightarrow> bool) \<Rightarrow> bool" where
  "audited G p Q \<longleftrightarrow> wp (audit G) p Q []"

abbreviation unaudited :: "event list \<Rightarrow> event \<Rightarrow> bool" where
  "unaudited \<equiv> \<lambda>tr ev. True"

lemma audit_simps [simp]:
  "mon_rely (audit G) s ev" "mon_guar (audit G) s ev = G s ev" "mon_next (audit G) s ev = s @ [ev]"
  by (simp_all add: audit_def)

lemma after_audit [simp]: "after (audit G) ev Q s \<longleftrightarrow> G s ev \<and> Q (s @ [ev])"
  by (simp add: after_def)

lemma relies_audit [simp]: "relies (audit G) s tr"
  by (induction tr arbitrary: s) auto

lemma advance_audit: "advance (audit G) s tr = s @ tr"
  by (induction tr arbitrary: s) auto

lemma guards_audit:
  "guards (audit G) s tr \<longleftrightarrow> (\<forall>tr1 ev tr2. tr = tr1 @ ev # tr2 \<longrightarrow> G (s @ tr1) ev)"
proof (induction tr arbitrary: s)
  case (Cons e tr)
  have "(\<forall>tr1 ev tr2. e # tr = tr1 @ ev # tr2 \<longrightarrow> G (s @ tr1) ev) \<longleftrightarrow>
      G s e \<and> (\<forall>tr1 ev tr2. tr = tr1 @ ev # tr2 \<longrightarrow> G (s @ e # tr1) ev)"
    by (auto simp: Cons_eq_append_conv)
  with Cons show ?case by simp
qed simp

lemma audited_run:
  assumes "audited G p Q" and "run E p x = (out, tr, x')"
  shows "tr = tr1 @ ev # tr2 \<Longrightarrow> G tr1 ev" and "out = Returned a \<Longrightarrow> Q a tr"
  using wp_run [OF assms(1) [unfolded audited_def] assms(2)]
  by (auto simp: guards_audit advance_audit)

text \<open>Any program extends the trace; one with effects of a class the audit lets pass extends
  it by effects of that class.\<close>

lemma audit_emits_from:
  assumes "emits H p" and "\<And>u ev. H ev \<Longrightarrow> G (s @ u) ev"
  shows "wp (audit G) p (\<lambda>a s'. \<exists>u. s' = s @ u \<and> list_all H u) s"
proof -
  have gen: "wp (audit G) p (\<lambda>a s'. \<exists>u. s' = s @ u \<and> list_all H u) (s @ v)" if "list_all H v" for v
    using assms(1) that unfolding emits_def
  proof (induction p arbitrary: v)
    case (Return a)
    then show ?case by auto
  qed (use assms(2) in \<open>fastforce\<close>)+
  from gen [of "[]"] show ?thesis by simp
qed

lemma audit_emits:
  assumes "emits H p" and "\<And>s ev. H ev \<Longrightarrow> G s ev"
  shows "wp (audit G) p (\<lambda>a s'. \<exists>u. s' = s @ u \<and> list_all H u) s"
  by (rule audit_emits_from) (simp_all add: assms)

lemma audit_yields:
  assumes "emits H p" and "yields p R" and "\<And>s ev. H ev \<Longrightarrow> G s ev"
  shows "wp (audit G) p (\<lambda>a s'. R a \<and> (\<exists>u. s' = s @ u \<and> list_all H u)) s"
proof -
  have "wp M p P s \<Longrightarrow> yields p R \<Longrightarrow> (\<And>s ev. mon_rely M s ev) \<Longrightarrow> wp M p (\<lambda>a s. R a \<and> P a s) s" for M P s
    unfolding yields_def by (induction p arbitrary: s) (auto simp: after_def)
  from this [OF audit_emits [OF assms(1,3)] assms(2)] show ?thesis by simp
qed

text \<open>An audit that permits all from here on, an audit that permits more, and a monitor without assumptions read off the trace.\<close>

lemma audit_permits:
  assumes "wp (audit unaudited) p Q s" and "\<And>u ev. G (s @ u) ev"
  shows "wp (audit G) p Q s"
proof -
  have "wp (audit unaudited) p Q (s @ u) \<Longrightarrow> wp (audit G) p Q (s @ u)" for u
    by (induction p arbitrary: u) (auto simp: assms(2))
  from this [of "[]"] assms(1) show ?thesis by simp
qed

lemma audited_mono:
  assumes "audited G p Q" and "\<And>tr ev. G tr ev \<Longrightarrow> H tr ev"
  shows "audited H p Q"
proof -
  have "wp (audit G) p Q s \<Longrightarrow> wp (audit H) p Q s" for s
    by (induction p arbitrary: s) (auto simp: assms(2))
  with assms(1) show ?thesis by (simp add: audited_def)
qed

lemma wp_fold:
  assumes "wp M p Q t" and rely: "\<And>s ev. mon_rely M s ev" and "emits H p" and pass: "\<And>s ev. H ev \<Longrightarrow> G s ev"
  shows "wp (audit G) p (\<lambda>a s'. \<exists>u. s' = s @ u \<and> list_all H u \<and> Q a (advance M t u)) s"
proof -
  define R where "R s0 t0 s t \<longleftrightarrow> (\<exists>v. s = s0 @ v \<and> list_all H v \<and> t = advance M t0 v)" for s0 t0 s t
  have step: "R s0 t0 (s @ [ev]) (mon_next M t ev)" if "R s0 t0 s t" "H ev" for s0 t0 s t ev
  proof -
    from that obtain v where "s = s0 @ v" "list_all H v" "t = advance M t0 v" by (auto simp: R_def)
    with \<open>H ev\<close> show ?thesis unfolding R_def by (intro exI [of _ "v @ [ev]"]) (simp add: advance_def)
  qed
  have "wp (audit G) p (\<lambda>a s'. \<exists>t'. R s0 t0 s' t' \<and> Q a t') s" if "R s0 t0 s t" for s0 t0 s
    using assms(1,3) that unfolding emits_def
    by (induction p arbitrary: s t) (auto simp: after_def rely pass; blast intro: step)+
  from this [of s t s] show ?thesis by (simp add: R_def) (elim wp_mono, blast)
qed

lemma emits_any: "emits (\<lambda>ev. True) p"
  unfolding emits_def by (induction p) auto

lemma audit_extends: "wp (audit unaudited) p (\<lambda>a s'. \<exists>u. s' = s @ u) s"
  by (rule wp_mono [OF audit_emits [OF emits_any]]) auto

end
