(* ===== verification/Suspend_Facts.thy ===== *)
theory Suspend_Facts
  imports Traces Controlplane
begin

text \<open>
  What a sweep does, whatever the cluster and the computes answer: it suspends an endpoint
  only after it saw it idle for long enough, marks it suspended only when its pod is gone,
  looks at every running endpoint, and finds a compute at the address a wake stored.
\<close>

lemma suspender_parts [simp]:
  "su_runtime (main_suspender st) = NewK8sRuntime \<lparr>kr_namespace = st_namespace st, kr_image = st_image st\<rparr>"
  "su_statusURL (main_suspender st) addr = sprintf ''http://%s:3080/status'' [Str (ipOf addr)]"
  "su_terminateURL (main_suspender st) addr = sprintf ''http://%s:3080/terminate'' [Str (ipOf addr)]"
  "rt_Start (NewK8sRuntime r) = Start r" "rt_Stop (NewK8sRuntime r) = Stop r"
  "rt_Status (NewK8sRuntime r) = Status r"
  by (simp_all add: main_suspender_def main_runtime_def su_statusURL_def su_terminateURL_def NewK8sRuntime_def)

text \<open>A sweep always returns, whatever it is answered.\<close>

lemma store_returning:
  "returning (ListEndpointsByState s)" "returning (SetEndpointSuspended i)" "returning (TransitionEndpoint i a b)"
  by (simp_all add: store_defs)

lemma sweep_all_returning: "returning (sweep_all (main_suspender st) eps)"
proof -
  let ?s = "main_suspender st"
  have calls: "returning (fetchLastActive ?s addr)" "returning (terminate ?s addr)"
    "returning (Status r i)" "returning (Stop r i)" for addr r i
    by (auto simp: fetchLastActive_def terminate_def Status_def Stop_def deleteConfigMap_def split: sum.split k8s_object.split)
  then have idle: "returning (suspend_if_idle ?s ep addr t)" for ep addr t
    unfolding suspend_if_idle_def by (auto intro!: returning_check returning_bind simp: store_returning)
  have "returning (sweepOne ?s ep)" for ep
    unfolding sweepOne_def
    by (auto intro!: returning_check simp: calls idle store_returning split: option.split)
  then show ?thesis by (induction eps) (auto intro!: returning_bind)
qed

lemma sweep_returning: "returning (Sweep (main_suspender st))"
  unfolding Sweep_def by (intro returning_check sweep_all_returning) (simp_all add: store_returning)

section \<open>What a sweep may have seen\<close>

text \<open>The sweep listed the row \<open>ep\<close>; the compute at the row's address reported its last
  activity (the zero time when it has none); the pod's absence; the sweep's own
  compare-and-swap to suspending; and the deletion of the pod.\<close>

definition listed :: "endpoint \<Rightarrow> event list \<Rightarrow> bool" where
  "listed ep tr \<longleftrightarrow> (\<exists>eps. ESql [SelectEndpointsIn ''running''] (Inr (EndpointRows eps)) \<in> set tr \<and> ep \<in> set eps)"

definition reported_active :: "string \<Rightarrow> time \<Rightarrow> event list \<Rightarrow> bool" where
  "reported_active addr t tr \<longleftrightarrow>
     (\<exists>rs. EHttp \<lparr>rq_method = ''GET'', rq_url = sprintf ''http://%s:3080/status'' [Str (ipOf addr)], rq_body = None\<rparr>
         (Inr rs) \<in> set tr \<and> rs_code rs = 200 \<and> last_active_of (rs_body rs) = Inr t)"

definition active_since :: "endpoint \<Rightarrow> time \<Rightarrow> event list \<Rightarrow> bool" where
  "active_since ep t tr \<longleftrightarrow>
     (\<exists>addr t'. e_addr ep = Some addr \<and> reported_active addr t' tr \<and>
        (if IsZero t' then e_last_started ep = Some t else t = t'))"

definition idle_seen :: "endpoint \<Rightarrow> event list \<Rightarrow> bool" where
  "idle_seen ep tr \<longleftrightarrow>
     (\<exists>t now. active_since ep t tr \<and> ENow now \<in> set tr \<and> seconds (e_suspend_after ep) \<le> since now t)"

definition pod_absent :: "string \<Rightarrow> string \<Rightarrow> event list \<Rightarrow> bool" where
  "pod_absent ns i tr \<longleftrightarrow> (\<exists>e. EK8s (GetPod ns (podName i)) (Inl e) \<in> set tr \<and> IsNotFound e)"

definition pod_stopped :: "string \<Rightarrow> string \<Rightarrow> event list \<Rightarrow> bool" where
  "pod_stopped ns i tr \<longleftrightarrow>
     (\<exists>v tr1 r tr2. tr = tr1 @ EK8s (DeletePod ns (podName i)) r # tr2 \<and>
        (case r of Inl e \<Rightarrow> IsNotFound e | Inr _ \<Rightarrow> True) \<and>
        ESql [UpdateState i ''running'' ''suspending''] (Inr v) \<in> set tr1 \<and> rows_affected v = 1)"

text \<open>What a sweep may do: try to suspend an endpoint that it saw idle, and store \<^verbatim>\<open>suspended\<close>
  for one whose pod is gone.\<close>

definition suspends_idle :: "event list \<Rightarrow> event \<Rightarrow> bool" where
  "suspends_idle tr ev \<longleftrightarrow>
     (\<forall>i r. ev = ESql [UpdateState i ''running'' ''suspending''] r \<longrightarrow>
        (\<exists>ep. e_id ep = i \<and> listed ep tr \<and> idle_seen ep tr))"

definition stores_gone :: "string \<Rightarrow> event list \<Rightarrow> event \<Rightarrow> bool" where
  "stores_gone ns tr ev \<longleftrightarrow>
     (\<forall>i r. ev = ESql [UpdateSuspended i] r \<longrightarrow> pod_absent ns i tr \<or> pod_stopped ns i tr)"

definition sweep_audit :: "string \<Rightarrow> event list \<Rightarrow> event \<Rightarrow> bool" where
  "sweep_audit ns tr ev \<longleftrightarrow> suspends_idle tr ev \<and> stores_gone ns tr ev"

lemma seen_append:
  "listed ep (tr @ tr') \<longleftrightarrow> listed ep tr \<or> listed ep tr'"
  "reported_active a t (tr @ tr') \<longleftrightarrow> reported_active a t tr \<or> reported_active a t tr'"
  "pod_absent ns i (tr @ tr') \<longleftrightarrow> pod_absent ns i tr \<or> pod_absent ns i tr'"
  by (auto simp: listed_def reported_active_def pod_absent_def)

lemma active_since_append: "active_since ep t tr \<Longrightarrow> active_since ep t (tr @ tr')"
  unfolding active_since_def seen_append by blast

lemma pod_stopped_append: "pod_stopped ns i tr \<Longrightarrow> pod_stopped ns i (tr @ tr')"
  unfolding pod_stopped_def by force

lemma sweep_audit_simps [simp]:
  "sweep_audit ns tr (ENow t)" "sweep_audit ns tr (EHttp q h)" "sweep_audit ns tr (EK8s c ko)"
  "sweep_audit ns tr (ESql [SelectEndpointsIn s] v)"
  "sweep_audit ns tr (ESql [UpdateState i ''running'' ''suspending''] r) \<longleftrightarrow>
     (\<exists>ep. e_id ep = i \<and> listed ep tr \<and> idle_seen ep tr)"
  "sweep_audit ns tr (ESql [UpdateSuspended i] r) \<longleftrightarrow> pod_absent ns i tr \<or> pod_stopped ns i tr"
  by (simp_all add: sweep_audit_def suspends_idle_def stores_gone_def)

section \<open>The sweep keeps to it\<close>

text \<open>Later effects keep what was seen; every operation of the sweep extends the trace.\<close>

abbreviation grows :: "event list \<Rightarrow> 'a \<Rightarrow> event list \<Rightarrow> bool" where
  "grows s \<equiv> \<lambda>_ s'. \<exists>u. s' = s @ u"

lemma terminate_sweep: "wp (audit (sweep_audit ns)) (terminate su addr) (grows s) s"
  by (auto simp: terminate_def split: sum.split)

lemma Status_sweep:
  "wp (audit (sweep_audit (kr_namespace r))) (Status r i)
     (\<lambda>a s'. (\<exists>u. s' = s @ u) \<and> (\<forall>st. a = Inr st \<and> \<not> ps_exists st \<longrightarrow> pod_absent (kr_namespace r) i s')) s"
  by (auto simp: Status_def pod_absent_def split: sum.split k8s_object.split)

lemma Stop_sweep:
  assumes "ESql [UpdateState i ''running'' ''suspending''] (Inr v) \<in> set s" and "rows_affected v = 1"
  shows "wp (audit (sweep_audit (kr_namespace r))) (Stop r i)
     (\<lambda>a s'. (\<exists>u. s' = s @ u) \<and> (a = Inr () \<longrightarrow> pod_stopped (kr_namespace r) i s')) s"
proof -
  have "pod_stopped (kr_namespace r) i (s @ EK8s (DeletePod (kr_namespace r) (podName i)) q # tr)"
    if "case q of Inl e \<Rightarrow> IsNotFound e | Inr _ \<Rightarrow> True" for q tr
    using that assms unfolding pod_stopped_def by blast
  then show ?thesis
    by (auto simp: Stop_def deleteConfigMap_def split: sum.split)
qed

lemma fetch_sweep:
  "wp (audit (sweep_audit ns)) (fetchLastActive (main_suspender st) addr)
     (\<lambda>a s'. (\<exists>u. s' = s @ u) \<and> (\<forall>t. a = Inr t \<longrightarrow> reported_active addr t s')) s"
  by (auto simp: fetchLastActive_def reported_active_def split: sum.split)

lemma idle_suspended:
  assumes "listed ep s" and "active_since ep t s"
  shows "wp (audit (sweep_audit (st_namespace st))) (suspend_if_idle (main_suspender st) ep addr t) (grows s) s"
proof -
  let ?G = "sweep_audit (st_namespace st)" and ?r = "\<lparr>kr_namespace = st_namespace st, kr_image = st_image st\<rparr>"
  let ?cas = "ESql [UpdateState (e_id ep) ''running'' ''suspending'']"
  have stop: "wp (audit ?G) (bind (terminate (main_suspender st) addr) (\<lambda>_.
      check (Stop ?r (e_id ep)) fails (\<lambda>_. SetEndpointSuspended (e_id ep)))) (grows s) (s @ [ENow now, ?cas (Inr v)])"
    if won: "rows_affected v = 1" for now v
  proof (rule wp_bindI [OF terminate_sweep], rule wp_checkI)
    fix a s' assume "\<exists>u. s' = (s @ [ENow now, ?cas (Inr v)]) @ u"
    then have "?cas (Inr v) \<in> set s'" by auto
    from Stop_sweep [OF this won, of ?r]
    show "wp (audit ?G) (Stop ?r (e_id ep))
        (\<lambda>a s''. (\<exists>u. s'' = s @ u) \<and> (a = Inr () \<longrightarrow> pod_stopped (st_namespace st) (e_id ep) s'')) s'"
      using \<open>\<exists>u. s' = _ @ u\<close> by (auto elim!: wp_mono)
  qed (auto simp: SetEndpointSuspended_def)
  have idle: "?G (s @ [ENow now]) (?cas r)" if "seconds (e_suspend_after ep) \<le> since now t" for now r
    using assms(1) that active_since_append [OF assms(2), of "[ENow now]"]
    by (auto simp: idle_seen_def seen_append)
  have cas: "wp (audit ?G) (TransitionEndpoint (e_id ep) ''running'' ''suspending'')
      (\<lambda>a s'. (\<exists>u. s' = s @ u) \<and> (a = Inr True \<longrightarrow> (\<exists>v. s' = s @ [ENow now, ?cas (Inr v)] \<and> rows_affected v = 1)))
      (s @ [ENow now])" if "seconds (e_suspend_after ep) \<le> since now t" for now
    using idle [OF that] by (auto simp: TransitionEndpoint_def map_sum_def split: sum.splits)
  have "wp (audit ?G) (check (TransitionEndpoint (e_id ep) ''running'' ''suspending'') fails (\<lambda>ok.
      if \<not> ok then returns () else bind (terminate (main_suspender st) addr) (\<lambda>_.
        check (Stop ?r (e_id ep)) fails (\<lambda>_. SetEndpointSuspended (e_id ep))))) (grows s) (s @ [ENow now])"
    if "seconds (e_suspend_after ep) \<le> since now t" for now
    by (rule wp_checkI [OF cas [OF that]]) (use stop in \<open>auto simp del: wp_bind wp_check\<close>)
  then show ?thesis
    unfolding suspend_if_idle_def suspender_parts by (auto simp: not_less simp del: wp_check wp_bind)
qed

lemma sweepOne_sweep:
  assumes "listed ep s"
  shows "wp (audit (sweep_audit (st_namespace st))) (sweepOne (main_suspender st) ep) (grows s) s"
proof -
  let ?G = "sweep_audit (st_namespace st)" and ?r = "\<lparr>kr_namespace = st_namespace st, kr_image = st_image st\<rparr>"
  have idle: "wp (audit ?G) (suspend_if_idle (main_suspender st) ep addr t') (grows s) s1"
    if "\<exists>u. s1 = s @ u" "reported_active addr t s1" "e_addr ep = Some addr"
      "if IsZero t then e_last_started ep = Some t' else t' = t" for s1 t t' addr
  proof -
    have "listed ep s1" using assms that(1) by (auto simp: seen_append)
    moreover have "active_since ep t' s1" using that unfolding active_since_def by blast
    ultimately show ?thesis using that(1) by (auto elim!: wp_mono [OF idle_suspended])
  qed
  have fetch: "wp (audit ?G) (check (fetchLastActive (main_suspender st) addr)
      (\<lambda>e. fails (Wrapf ''fetch last_active: %w'' [] e))
      (\<lambda>t. if IsZero t then
          (case e_last_started ep of None \<Rightarrow> returns () | Some started \<Rightarrow> suspend_if_idle (main_suspender st) ep addr started)
        else suspend_if_idle (main_suspender st) ep addr t)) (grows s) s1"
    if "\<exists>u. s1 = s @ u" "e_addr ep = Some addr" for s1 addr
    by (rule wp_checkI [OF fetch_sweep]) (use that in \<open>auto split: option.split intro!: idle\<close>)
  show ?thesis
    unfolding sweepOne_def suspender_parts
  proof (rule wp_checkI)
    show "wp (audit ?G) (Status ?r (e_id ep)) (\<lambda>a s'. (\<exists>u. s' = s @ u) \<and>
        (\<forall>st'. a = Inr st' \<and> \<not> ps_exists st' \<longrightarrow> pod_absent (st_namespace st) (e_id ep) s')) s"
      using Status_sweep [of ?r "e_id ep" s] by simp
  qed (use fetch in \<open>auto simp: SetEndpointSuspended_def simp del: wp_check split: option.split\<close>)
qed

lemma sweep_all_sweep:
  "\<forall>ep \<in> set eps. listed ep s \<Longrightarrow>
     wp (audit (sweep_audit (st_namespace st))) (sweep_all (main_suspender st) eps) (grows s) s"
proof (induction eps arbitrary: s)
  case (Cons ep eps)
  show ?case
    unfolding sweep_all.simps
  proof (rule wp_bindI [OF sweepOne_sweep])
    fix s' assume "\<exists>u. s' = s @ u"
    with Cons.IH [of s'] Cons.prems
    show "wp (audit (sweep_audit (st_namespace st))) (sweep_all (main_suspender st) eps) (grows s) s'"
      by (auto simp: seen_append elim!: wp_mono)
  qed (use Cons.prems in simp)
qed simp

lemma Sweep_audit: "audited (sweep_audit (st_namespace st)) (Sweep (main_suspender st)) (\<lambda>_ _. True)"
  unfolding audited_def Sweep_def
proof (rule wp_checkI)
  show "wp (audit (sweep_audit (st_namespace st))) (ListEndpointsByState ''running'')
      (\<lambda>r s'. \<forall>eps. r = Inr eps \<longrightarrow> (\<forall>ep \<in> set eps. listed ep s')) []"
    by (auto simp: ListEndpointsByState_def query_reply_def listed_def split: sum.splits option.splits
        elim!: as_endpoints.elims)
  show "wp (audit (sweep_audit (st_namespace st))) (sweep_all (main_suspender st) eps) (\<lambda>_ _. True) s'"
    if "\<forall>es. Inr eps = Inr es \<longrightarrow> (\<forall>ep \<in> set es. listed ep s')" for eps :: "endpoint list" and s'
    using that by (intro wp_mono [OF sweep_all_sweep]) auto
qed simp

section \<open>No endpoint is left out\<close>

definition looked_at :: "string \<Rightarrow> string \<Rightarrow> event list \<Rightarrow> bool" where
  "looked_at ns i tr \<longleftrightarrow> (\<exists>r. EK8s (GetPod ns (podName i)) r \<in> set tr)"

lemma sweepOne_looks:
  "wp (audit unaudited) (sweepOne (main_suspender st) ep)
     (\<lambda>_ s'. (\<exists>u. s' = s @ u) \<and> looked_at (st_namespace st) (e_id ep) s') s"
  unfolding sweepOne_def suspender_parts
proof (rule wp_checkI)
  show "wp (audit unaudited) (Status \<lparr>kr_namespace = st_namespace st, kr_image = st_image st\<rparr> (e_id ep))
      (\<lambda>_ s'. (\<exists>u. s' = s @ u) \<and> looked_at (st_namespace st) (e_id ep) s') s"
    by (auto simp: Status_def looked_at_def split: sum.split k8s_object.split)
next
  fix st' s'
  assume "(\<exists>u. s' = s @ u) \<and> looked_at (st_namespace st) (e_id ep) s'"
  then show "wp (audit unaudited) (if \<not> ps_exists st' then SetEndpointSuspended (e_id ep)
      else (case e_addr ep of
          None \<Rightarrow> fails (Errorf ''running endpoint %s has no compute_addr'' [Str (e_id ep)])
        | Some addr \<Rightarrow> check (fetchLastActive (main_suspender st) addr)
            (\<lambda>e. fails (Wrapf ''fetch last_active: %w'' [] e))
            (\<lambda>t. if IsZero t then
                (case e_last_started ep of None \<Rightarrow> returns () | Some started \<Rightarrow> suspend_if_idle (main_suspender st) ep addr started)
              else suspend_if_idle (main_suspender st) ep addr t)))
      (\<lambda>_ s'. (\<exists>u. s' = s @ u) \<and> looked_at (st_namespace st) (e_id ep) s') s'"
    by (intro wp_mono [OF audit_extends [where s = s']]) (auto simp: looked_at_def)
qed simp

lemma sweep_all_looks:
  "wp (audit unaudited) (sweep_all (main_suspender st) eps)
     (\<lambda>r s'. (\<exists>u. s' = s @ u) \<and> r = Inr () \<and> (\<forall>ep \<in> set eps. looked_at (st_namespace st) (e_id ep) s')) s"
proof (induction eps arbitrary: s)
  case (Cons ep eps)
  show ?case
    unfolding sweep_all.simps
    by (rule wp_bindI [OF sweepOne_looks], rule wp_mono [OF Cons.IH]) (auto simp: looked_at_def)
qed simp

section \<open>Properties\<close>

text \<open>C21. A sweep tries to suspend an endpoint only when it listed the endpoint as running, and
  the compute at the stored address reported its last activity, or no activity since the
  stored start, longer ago than the endpoint's suspend time.\<close>

theorem sweep_suspends_only_idle:
  "audited suspends_idle (Sweep (main_suspender st)) (\<lambda>_ _. True)"
  by (rule audited_mono [OF Sweep_audit]) (simp add: sweep_audit_def)

text \<open>C22. A sweep stores \<^verbatim>\<open>suspended\<close> for an endpoint only after its pod was found absent, or
  after this sweep itself moved the endpoint from running to suspending and then deleted the pod
  (or found it already deleted).\<close>

theorem suspended_only_without_pod:
  "audited (stores_gone (st_namespace st)) (Sweep (main_suspender st)) (\<lambda>_ _. True)"
  by (rule audited_mono [OF Sweep_audit]) (simp add: sweep_audit_def)

text \<open>C33. A sweep fails only when listing the endpoints fails, before it does anything else;
  otherwise it looks at the pod of every listed endpoint, whatever errors the others meet.\<close>

theorem sweep_covers_every_endpoint:
  "audited unaudited (Sweep (main_suspender st)) (\<lambda>r tr.
     case r of
       Inl e \<Rightarrow> length tr = 1
     | Inr _ \<Rightarrow> \<exists>v eps tr'. tr = ESql [SelectEndpointsIn ''running''] (Inr v) # tr' \<and> as_endpoints v = Some eps
         \<and> list_all (\<lambda>ep. looked_at (st_namespace st) (e_id ep) tr') eps)"
  unfolding audited_def Sweep_def
proof (rule wp_checkI)
  show "wp (audit unaudited) (ListEndpointsByState ''running'') (\<lambda>r s'. length s' = 1 \<and>
      (\<forall>eps. r = Inr eps \<longrightarrow> (\<exists>v. s' = [ESql [SelectEndpointsIn ''running''] (Inr v)] \<and> as_endpoints v = Some eps))) []"
    by (auto simp: ListEndpointsByState_def query_reply_def split: sum.splits option.splits)
qed (auto intro!: wp_mono [OF sweep_all_looks] simp: looked_at_def list_all_iff)

text \<open>C34. For every row the schema admits, the idle test compares exact times: the 64-bit
  arithmetic of \<^verbatim>\<open>time.Since\<close> and of the product with \<^verbatim>\<open>time.Second\<close> neither wraps around nor
  saturates to another outcome.\<close>

theorem idle_test_exact:
  assumes "0 < e_suspend_after ep" and "int4_ok (e_suspend_after ep)"
    and "env_now E x = (now, x')"
  shows "trace E (suspend_if_idle s ep addr lastActive) x = [ENow now] \<longleftrightarrow>
    now - lastActive < e_suspend_after ep * second"
proof -
  have "since now lastActive < seconds (e_suspend_after ep) \<longleftrightarrow> now - lastActive < e_suspend_after ep * second"
    using assms(1,2) seconds_exact [of "e_suspend_after ep"]
    by (auto simp: since_def int4_ok_def)
  then show ?thesis
    using assms(3)
    by (simp add: suspend_if_idle_def TransitionEndpoint_def check_def trace_def split_beta Let_def)
qed

lemma idle_test_exact_witness:
  "trace clock_env (suspend_if_idle (main_suspender default_settings)
     \<lparr>e_id = ''ep-1'', e_branch = ''br-1'', e_state = ''running'', e_addr = Some ''10.0.0.7:55433'',
      e_suspend_after = 300, e_last_started = Some 0, e_last_active = Some 0, e_updated = 0\<rparr>
     ''10.0.0.7:55433'' 0) (299 * second) = [ENow (299 * second)]"
  by (subst idle_test_exact [where now = "299 * second" and x' = "299 * second + 1"])
    (simp_all add: int4_ok_def clock_env_def)

text \<open>The address a start stores leads the suspender back to the compute: for every pod IP,
  an IPv6 one included, the suspender asks for the status at the URL the waker polled, and
  terminates at the same host.\<close>

lemma stored_address_leads_back:
  "su_statusURL (main_suspender st) (sprintf ''%s:%d'' [Str ip, Num ComputePort]) = statusURL (main_waker st) ip \<and>
   su_terminateURL (main_suspender st) (sprintf ''%s:%d'' [Str ip, Num ComputePort]) =
     ''http://'' @ ip @ '':3080/terminate''"
proof -
  have "sprintf ''%s:%d'' [Str ip, Num ComputePort] = ip @ CHR '':'' # dec ComputePort"
    by (simp add: verb_def)
  moreover have "CHR '':'' \<notin> set (dec ComputePort)"
    by (simp add: ComputePort_def dec_def) (use dec_nat_set in force)
  ultimately have "ipOf (sprintf ''%s:%d'' [Str ip, Num ComputePort]) = ip" by (metis ipOf_port)
  then show ?thesis
    unfolding suspender_parts by (simp add: main_waker_def statusURL_def verb_def)
qed

end
