(* ===== verification/Reclaim.thy ===== *)
theory Reclaim
  imports Healing Suspend_Facts
begin

text \<open>
  Progress of the suspender, in the responsive environments of \<open>Responsive\<close>: a sweep gives the
  pod of an idle endpoint back, whatever it meets at the other endpoints.
\<close>

section \<open>Bystanders\<close>

text \<open>Effects that leave the row and the pod of endpoint \<open>i\<close> alone.\<close>

fun spares_row :: "string \<Rightarrow> stmt \<Rightarrow> bool" where
  "spares_row i (UpdateState j src dst) = (j \<noteq> i)"
| "spares_row i (UpdateSuspended j) = (j \<noteq> i)"
| "spares_row i q = reads_only q"

fun spares :: "string \<Rightarrow> string \<Rightarrow> event \<Rightarrow> bool" where
  "spares ns i (ENow r) = True"
| "spares ns i (EHttp q r) = True"
| "spares ns i (EK8s c r) = (\<not> concerns ns i c)"
| "spares ns i (ESql qs r) = (case qs of [q] \<Rightarrow> spares_row i q | _ \<Rightarrow> False)"
| "spares ns i _ = False"

definition left_alone :: "'x view \<Rightarrow> string \<Rightarrow> endpoint \<Rightarrow> 'x \<Rightarrow> 'x \<Rightarrow> bool" where
  "left_alone V i e x x' \<longleftrightarrow> row_is V x' i e \<and> later V x x'"

lemma spared_row:
  assumes ok: "schema_ok db" and q: "spares_row i q" and tx: "exec_tx t [q] db = (r, db')"
  shows "ep_row db' i = ep_row db i"
proof (cases "reads_only q")
  case True
  with read_outcome tx show ?thesis by metis
next
  case False
  have same: "ep_row (update_endpoints P f db) i = ep_row db i"
    if "\<And>e. e_id (f e) = e_id e" "\<And>e. e_id e = i \<Longrightarrow> \<not> P e" for P f
    unfolding ep_row_update [of f, OF that(1)]
    by (cases "ep_row db i") (use that(2) in \<open>auto dest: ep_row_key\<close>)
  from False q consider j src dst where "q = UpdateState j src dst" "j \<noteq> i" | j where "q = UpdateSuspended j" "j \<noteq> i"
    by (cases q) auto
  then show ?thesis
    by cases (use tx in \<open>auto simp: exec_tx_single Let_def same split: if_splits\<close>)
qed

lemma bystander:
  assumes E: "responsive ns i boot grace V E"
  shows "returning p \<Longrightarrow> emits (spares ns i) p \<Longrightarrow> row_is V x i e \<Longrightarrow> attains E p x (\<lambda>_ x'. left_alone V i e x x')"
proof (induction p arbitrary: x)
  case (Return a)
  then show ?case by (simp add: left_alone_def later_def same_cluster_def)
next
  case (Now k)
  obtain t x1 where s: "env_now E x = (t, x1)" by (cases "env_now E x")
  from now_law [OF E s] have 1: "keeps V x x1" by blast
  have "attains E (k t) x1 (\<lambda>_ x'. left_alone V i e x1 x')"
    using Now.prems row_keeps [OF Now.prems(3) 1] by (intro Now.IH) (auto simp: emits_def)
  with s 1 show ?case by (auto elim!: attains_mono simp: left_alone_def intro: later_trans keeps_later)
next
  case (Http q k)
  obtain t x1 where s: "env_http E q x = (t, x1)" by (cases "env_http E q x")
  from http_law [OF E s] have 1: "keeps V x x1" by blast
  have "attains E (k t) x1 (\<lambda>_ x'. left_alone V i e x1 x')"
    using Http.prems row_keeps [OF Http.prems(3) 1] by (intro Http.IH) (auto simp: emits_def)
  with s 1 show ?case by (auto elim!: attains_mono simp: left_alone_def intro: later_trans keeps_later)
next
  case (K8s c k)
  obtain t x1 where s: "env_k8s E c x = (t, x1)" by (cases "env_k8s E c x")
  from K8s.prems(2) have c: "\<not> concerns ns i c" by (auto simp: emits_def)
  from k8s_law(1,2) [OF E s] k8s_law(5) [OF E s c] have 1: "keeps V x x1"
    by (auto simp: keeps_def intro: elapses_later)
  have "attains E (k t) x1 (\<lambda>_ x'. left_alone V i e x1 x')"
    using K8s.prems row_keeps [OF K8s.prems(3) 1] by (intro K8s.IH) (auto simp: emits_def)
  with s 1 show ?case by (auto elim!: attains_mono simp: left_alone_def intro: later_trans keeps_later)
next
  case (Sql qs k)
  obtain r x1 where s: "env_sql E qs x = (r, x1)" by (cases "env_sql E qs x")
  from Sql.prems(2) obtain q where q: "qs = [q]" "spares_row i q"
    by (auto simp: emits_def split: list.splits)
  from Sql.prems(3) have ok: "schema_ok (vw_db V x)" by (simp add: row_is_def)
  from sql_law(2) [OF E s] have 1: "later V x x1" by (auto intro: elapses_later)
  have row1: "row_is V x1 i e"
  proof (cases "vw_db V x1 = vw_db V x")
    case True
    with Sql.prems(3) show ?thesis by (rule row_keeps_db)
  next
    case False
    with sql_law(1) [OF E s] obtain t where tx: "exec_tx t [q] (vw_db V x) = (r, vw_db V x1)" by (auto simp: q)
    from exec_tx_ok [OF ok, of t "[q]"] spared_row [OF ok q(2) tx] Sql.prems(3) tx show ?thesis
      by (simp add: row_is_def)
  qed
  have "attains E (k r) x1 (\<lambda>_ x'. left_alone V i e x1 x')"
    using Sql.prems row1 by (intro Sql.IH) (auto simp: emits_def)
  with s 1 show ?case by (auto elim!: attains_mono simp: left_alone_def intro: later_trans)
qed (simp_all add: emits_def)

section \<open>The sweep of one endpoint\<close>

text \<open>The row is suspended and without an address, and the pod is gone or terminating.\<close>

definition given_back :: "'x view \<Rightarrow> 'x \<Rightarrow> bool" where
  "given_back V x \<longleftrightarrow> vw_pod V x = Absent \<or> (\<exists>g. vw_pod V x = Terminating g)"

definition reclaimed :: "duration \<Rightarrow> duration \<Rightarrow> 'x view \<Rightarrow> string \<Rightarrow> 'x \<Rightarrow> bool" where
  "reclaimed boot grace V i x \<longleftrightarrow>
     (\<exists>e. row_is V x i e \<and> e_state e = ''suspended'' \<and> e_addr e = None) \<and> given_back V x \<and> timely boot grace V x"

text \<open>As long as the pod is what it is in \<open>x\<close>, the compute at the row's address reports \<open>t\<close> as its last
  activity, or none, and then it was started at \<open>t\<close>.\<close>

definition reports_active :: "'x view \<Rightarrow> 'x env \<Rightarrow> 'x \<Rightarrow> endpoint \<Rightarrow> time \<Rightarrow> bool" where
  "reports_active V E x e t \<longleftrightarrow>
     (\<exists>addr. e_addr e = Some addr \<and> (\<forall>y. vw_pod V y = vw_pod V x \<longrightarrow> (\<exists>rs t'.
        fst (env_http E \<lparr>rq_method = ''GET'', rq_url = sprintf ''http://%s:3080/status'' [Str (ipOf addr)],
                         rq_body = None\<rparr> y) = Inr rs \<and>
        rs_code rs = 200 \<and> last_active_of (rs_body rs) = Inr t' \<and>
        (if IsZero t' then e_last_started e = Some t else t' = t))))"

lemma reports_later: "reports_active V E x e t \<Longrightarrow> later V x x' \<Longrightarrow> reports_active V E x' e t"
  by (simp add: reports_active_def later_eqs)

lemma SetSuspended_attains:
  assumes E: "responsive ns i boot grace V E" and row: "row_is V x i e" and pod: "given_back V x" "timely boot grace V x"
  shows "attains E (SetEndpointSuspended i) x (\<lambda>r x'. r = Inr () \<and> reclaimed boot grace V i x')"
  unfolding SetEndpointSuspended_def
proof (rule write_attains [OF E])
  show "\<not> elsewhere i [UpdateSuspended i]" by simp
  show "schema_ok (vw_db V x)" using row by (simp add: row_is_def)
  fix x' t r
  assume tx: "exec_tx t [UpdateSuspended i] (vw_db V x) = (r, vw_db V x')"
    and rest: "elapses second V x x'" "same_cluster V x x'" "schema_ok (vw_db V x')"
  let ?f = "\<lambda>e. e\<lparr>e_state := ''suspended'', e_addr := None, e_updated := t\<rparr>"
  from tx have r: "exec_reply r = Inr ()" and db: "vw_db V x' = update_endpoints (\<lambda>e. e_id e = i) ?f (vw_db V x)"
    by (auto simp: exec_tx_single Let_def exec_reply_def)
  have "ep_row (vw_db V x') i = Some (?f e)"
    by (rule updated_row [OF row db]) (use row in \<open>auto simp: row_is_def dest: ep_row_key\<close>)
  moreover from timely_later [OF pod(2) elapses_later [OF rest(1,2)]] have "timely boot grace V x'" .
  ultimately show "attains E (Return (exec_reply r)) x' (\<lambda>r x'. r = Inr () \<and> reclaimed boot grace V i x')"
    using r rest pod by (auto simp: reclaimed_def row_is_def same_cluster_def given_back_def)
qed

lemma idle_long_enough:
  assumes "row_is V x i e" and "t + e_suspend_after e * second \<le> now"
  shows "\<not> since now t < seconds (e_suspend_after e)"
proof -
  from assms(1) have "0 < e_suspend_after e" "int4_ok (e_suspend_after e)"
    by (auto simp: row_is_def schema_ok_def dest: find_key)
  with assms(2) seconds_exact [of "e_suspend_after e"] show ?thesis by (auto simp: since_def int4_ok_def)
qed

lemma terminate_attains:
  assumes E: "responsive ns i boot grace V E"
  shows "attains E (terminate su addr) x (\<lambda>_ x'. keeps V x x')"
proof -
  let ?q = "\<lparr>rq_method = ''POST'', rq_url = su_terminateURL su addr @ ''?mode=fast'', rq_body = None\<rparr>"
  obtain r x1 where s: "env_http E ?q x = (r, x1)" by (cases "env_http E ?q x")
  from http_law [OF E s] s show ?thesis by (cases r) (auto simp: terminate_def)
qed

lemma stop_suspends:
  assumes E: "responsive (st_namespace st) i boot grace V E" and row: "row_is V x i e" and on_time: "timely boot grace V x"
  shows "attains E (check (Stop \<lparr>kr_namespace = st_namespace st, kr_image = st_image st\<rparr> i) fails
      (\<lambda>_. SetEndpointSuspended i)) x (\<lambda>r x'. r = Inr () \<and> reclaimed boot grace V i x')"
proof (rule attains_callI [OF Stop_attains [OF E]])
  fix u :: unit and x'
  assume "Inr u = Inr () \<and> elapses (2 * second) V x x' \<and> vw_db V x' = vw_db V x \<and>
    (vw_pod V x' = Absent \<or> (\<exists>g. vw_pod V x' = Terminating g)) \<and>
    (timely boot grace V x \<longrightarrow> timely boot grace V x') \<and> (gone V x \<longrightarrow> gone V x')"
  then show "attains E (SetEndpointSuspended i) x' (\<lambda>r x'. r = Inr () \<and> reclaimed boot grace V i x')"
    using on_time by (intro SetSuspended_attains [OF E row_keeps_db [OF row]]) (auto simp: given_back_def)
qed auto

lemma suspend_attains:
  assumes E: "responsive (st_namespace st) i boot grace V E" and row: "row_is V x i e" and running: "e_state e = ''running''"
    and on_time: "timely boot grace V x" and idle: "t + e_suspend_after e * second \<le> vw_clock V x"
  shows "attains E (suspend_if_idle (main_suspender st) e addr t) x (\<lambda>r x'. r = Inr () \<and> reclaimed boot grace V i x')"
proof -
  let ?Q = "\<lambda>r x'. r = Inr () \<and> reclaimed boot grace V i x'" and ?s = "main_suspender st"
  have i: "e_id e = i" using row by (auto simp: row_is_def dest: ep_row_key)
  obtain now x1 where now: "env_now E x = (now, x1)" by (cases "env_now E x")
  from now_law [OF E this] have 1: "vw_clock V x \<le> now" "keeps V x x1" by auto
  with idle have "\<not> since now t < seconds (e_suspend_after e)" by (intro idle_long_enough [OF row]) simp
  moreover have "attains E (check (TransitionEndpoint i ''running'' ''suspending'') fails (\<lambda>ok.
      if \<not> ok then returns () else bind (terminate ?s addr) (\<lambda>_.
        check (Stop \<lparr>kr_namespace = st_namespace st, kr_image = st_image st\<rparr> i) fails (\<lambda>_. SetEndpointSuspended i)))) x1 ?Q"
  proof (rule attains_callI [OF Transition_attains [OF E row_keeps [OF row 1(2)] running]])
    fix ok :: bool and x2
    assume 2: "Inr ok = Inr True \<and> elapses second V x1 x2 \<and> same_cluster V x1 x2 \<and> (\<exists>t. vw_clock V x1 \<le> t \<and>
        t \<le> vw_clock V x2 \<and> row_is V x2 i (e\<lparr>e_state := ''suspending'', e_updated := t\<rparr>))"
    then obtain t where ok: "ok" and row2: "row_is V x2 i (e\<lparr>e_state := ''suspending'', e_updated := t\<rparr>)" by auto
    from 2 have "later V x1 x2" by (auto intro: elapses_later)
    with 1 on_time have time2: "timely boot grace V x2" by (blast intro: timely_later keeps_later)
    have "attains E (bind (terminate ?s addr) (\<lambda>_. check (Stop \<lparr>kr_namespace = st_namespace st, kr_image = st_image st\<rparr> i)
        fails (\<lambda>_. SetEndpointSuspended i))) x2 ?Q"
      by (rule attains_bindI [OF terminate_attains [OF E]])
        (rule stop_suspends [OF E row_keeps [OF row2] timely_later [OF time2 keeps_later]])
    with ok show "attains E (if \<not> ok then returns () else bind (terminate ?s addr) (\<lambda>_.
        check (Stop \<lparr>kr_namespace = st_namespace st, kr_image = st_image st\<rparr> i) fails (\<lambda>_. SetEndpointSuspended i))) x2 ?Q"
      by simp
  qed (auto simp: endpoint_states_def)
  ultimately show ?thesis
    using now unfolding suspend_if_idle_def suspender_parts i by simp
qed

lemma sweepOne_attains:
  assumes E: "responsive (st_namespace st) i boot grace V E" and row: "row_is V x i e" and running: "e_state e = ''running''"
    and on_time: "timely boot grace V x" and active: "reports_active V E x e t"
    and idle: "t + e_suspend_after e * second \<le> vw_clock V x"
  shows "attains E (sweepOne (main_suspender st) e) x (\<lambda>r x'. r = Inr () \<and> reclaimed boot grace V i x')"
proof -
  let ?Q = "\<lambda>r x'. r = Inr () \<and> reclaimed boot grace V i x'" and ?s = "main_suspender st"
  have i: "e_id e = i" using row by (auto simp: row_is_def dest: ep_row_key)
  from active obtain addr where addr: "e_addr e = Some addr" and report: "\<And>y. vw_pod V y = vw_pod V x \<Longrightarrow> \<exists>rs t'.
        fst (env_http E \<lparr>rq_method = ''GET'', rq_url = sprintf ''http://%s:3080/status'' [Str (ipOf addr)],
                         rq_body = None\<rparr> y) = Inr rs \<and>
        rs_code rs = 200 \<and> last_active_of (rs_body rs) = Inr t' \<and>
        (if IsZero t' then e_last_started e = Some t else t' = t)"
    unfolding reports_active_def by blast
  let ?rest = "\<lambda>lastActive. if IsZero lastActive then (case e_last_started e of None \<Rightarrow> returns ()
      | Some t0 \<Rightarrow> suspend_if_idle ?s e addr t0) else suspend_if_idle ?s e addr lastActive"
  have fetch: "attains E (check (fetchLastActive ?s addr) (\<lambda>e. fails (Wrapf ''fetch last_active: %w'' [] e)) ?rest) x1 ?Q"
    if 1: "keeps V x x1" for x1
  proof -
    let ?q = "\<lparr>rq_method = ''GET'', rq_url = sprintf ''http://%s:3080/status'' [Str (ipOf addr)], rq_body = None\<rparr>"
    obtain r x2 where s: "env_http E ?q x1 = (r, x2)" by (cases "env_http E ?q x1")
    from report [of x1] s 1 obtain rs t' where rs: "r = Inr rs" "rs_code rs = 200" "last_active_of (rs_body rs) = Inr t'"
      and t': "if IsZero t' then e_last_started e = Some t else t' = t" by (auto simp: keeps_eqs)
    from http_law [OF E s] 1 have 2: "keeps V x x2" by (blast intro: keeps_trans)
    have "attains E (suspend_if_idle ?s e addr t) x2 ?Q"
      by (rule suspend_attains [OF E row_keeps [OF row 2] running timely_later [OF on_time keeps_later [OF 2]]])
        (use idle keeps_clock [OF 2] in simp)
    with rs s t' show ?thesis by (auto simp: fetchLastActive_def check_def simp del: sprintf.simps split: if_splits)
  qed
  show ?thesis
    unfolding sweepOne_def suspender_parts addr option.case i
  proof (rule attains_callI [OF Status_attains [OF E]])
    fix ps x1
    assume "\<exists>st'. Inr ps = Inr st' \<and> elapses second V x x1 \<and> keeps V x x1 \<and> seen_as V x st'"
    then have 1: "keeps V x x1" and seen: "seen_as V x ps" by auto
    have "attains E (SetEndpointSuspended i) x1 ?Q" if "\<not> ps_exists ps"
      by (rule SetSuspended_attains [OF E row_keeps [OF row 1] _ timely_later [OF on_time keeps_later [OF 1]]])
        (use that seen 1 in \<open>auto simp: seen_as_def given_back_def keeps_eqs split: pod_life.splits\<close>)
    with fetch [OF 1] show "attains E (if \<not> ps_exists ps then SetEndpointSuspended i
        else check (fetchLastActive ?s addr) (\<lambda>e. fails (Wrapf ''fetch last_active: %w'' [] e)) ?rest) x1 ?Q"
      by simp
  qed auto
qed

section \<open>The whole sweep\<close>

lemma sweepOne_spares: "e_id ep \<noteq> i \<Longrightarrow> emits (spares (st_namespace st) i) (sweepOne (main_suspender st) ep)"
  by (auto simp: emits_def sweepOne_def suspend_if_idle_def fetchLastActive_def terminate_def Status_def Stop_def
      deleteConfigMap_def TransitionEndpoint_def SetEndpointSuspended_def inj_eq [OF configMapName_inj]
      split: sum.split k8s_object.split option.split)

lemma sweep_all_spares:
  "i \<notin> e_id ` set eps \<Longrightarrow> emits (spares (st_namespace st) i) (sweep_all (main_suspender st) eps)"
proof (induction eps)
  case (Cons ep eps)
  then show ?case by (auto intro!: emits_bindI sweepOne_spares)
qed (simp add: emits_def)

lemma sweep_all_app: "sweep_all su (xs @ ys) = bind (sweep_all su xs) (\<lambda>_. sweep_all su ys)"
  by (induction xs) (simp_all add: bind_assoc)

lemma sweep_all_succeeds:
  "attains E (sweep_all su eps) x Q \<Longrightarrow> attains E (sweep_all su eps) x (\<lambda>r x'. r = Inr () \<and> Q r x')"
proof (induction eps arbitrary: x)
  case (Cons ep eps)
  from Cons.prems show ?case
    unfolding sweep_all.simps attains_bind by (rule attains_mono) (rule Cons.IH)
qed simp

lemma sweep_list_attains:
  assumes E: "responsive (st_namespace st) i boot grace V E" and row: "row_is V x i e" and running: "e_state e = ''running''"
    and on_time: "timely boot grace V x" and active: "reports_active V E x e t"
    and idle: "t + e_suspend_after e * second \<le> vw_clock V x"
    and eps: "e \<in> set eps" "distinct (map e_id eps)"
  shows "attains E (sweep_all (main_suspender st) eps) x (\<lambda>r x'. r = Inr () \<and> reclaimed boot grace V i x')"
proof -
  have i: "e_id e = i" using row by (auto simp: row_is_def dest: ep_row_key)
  from eps(1) obtain xs ys where split: "eps = xs @ e # ys" by (meson split_list)
  with eps(2) i have others: "i \<notin> e_id ` set xs" "i \<notin> e_id ` set ys" by auto
  note others = bystander [OF E sweep_all_returning sweep_all_spares [OF others(1)]]
    bystander [OF E sweep_all_returning sweep_all_spares [OF others(2)]]
  have last: "attains E (sweep_all (main_suspender st) ys) x2 (\<lambda>r x'. r = Inr () \<and> reclaimed boot grace V i x')"
    if done_i: "reclaimed boot grace V i x2" for x2
  proof -
    from done_i obtain e' where e': "row_is V x2 i e'" "e_state e' = ''suspended''" "e_addr e' = None"
      and pod: "given_back V x2" "timely boot grace V x2" by (auto simp: reclaimed_def)
    have "reclaimed boot grace V i x'" if "left_alone V i e' x2 x'" for x'
      using that e'(2,3) pod(1) timely_later [OF pod(2)]
      by (auto simp: left_alone_def reclaimed_def given_back_def later_eqs)
    with sweep_all_succeeds [OF others(2) [OF e'(1)]] show ?thesis by (auto elim!: attains_mono)
  qed
  show ?thesis
    unfolding split sweep_all_app sweep_all.simps
  proof (rule attains_bindI [OF others(1) [OF row]])
    fix r x1
    assume "left_alone V i e x x1"
    then have 1: "row_is V x1 i e" "later V x x1" by (simp_all add: left_alone_def)
    have "t + e_suspend_after e * second \<le> vw_clock V x1" using idle later_eqs(3) [OF 1(2)] by simp
    from sweepOne_attains [OF E 1(1) running timely_later [OF on_time 1(2)] reports_later [OF active 1(2)] this]
    show "attains E (bind (sweepOne (main_suspender st) e) (\<lambda>_. sweep_all (main_suspender st) ys)) x1
        (\<lambda>r x'. r = Inr () \<and> reclaimed boot grace V i x')"
      by (rule attains_bindI) (simp add: last)
  qed
qed

section \<open>Properties\<close>

text \<open>C7. An idle endpoint is reclaimed. In an environment that is responsive for it in the sense of
  \<open>responsive\<close>, where no other program writes the tables, one sweep suspends a running endpoint whose
  compute reports no activity for the endpoint's suspend time: afterwards its row is suspended and
  without an address, and its pod is gone or terminating, so that after the grace period its name is
  free. What the sweep meets at the other running endpoints does not matter, errors of the cluster,
  of their computes and of the updates of their rows included.\<close>

theorem sweep_reclaims:
  assumes "responsive (st_namespace st) i boot grace V E" and "0 \<le> grace" and "timely boot grace V x"
    and "row_is V x i e" and "e_state e = ''running''"
    and "reports_active V E x e t" and "t + e_suspend_after e * second \<le> vw_clock V x"
    and "x1 = final E (Sweep (main_suspender st)) x"
  shows "result E (Sweep (main_suspender st)) x = Returned (Inr ()) \<and>
    (\<exists>e'. row_is V x1 i e' \<and> e_state e' = ''suspended'' \<and> e_addr e' = None) \<and>
    (vw_pod V x1 = Absent \<or> (\<exists>g. vw_pod V x1 = Terminating g)) \<and> gone V (snd (env_sleep E grace x1))"
proof -
  note E = assms(1)
  let ?eps = "filter (\<lambda>e. e_state e = ''running'') (endpoints (vw_db V x))"
  from assms(4) have ok: "schema_ok (vw_db V x)" and e: "ep_row (vw_db V x) i = Some e" by (simp_all add: row_is_def)
  from find_key [OF e] assms(5) schema_keys(3) [OF ok] have eps: "e \<in> set ?eps" "distinct (map e_id ?eps)"
    by (auto simp: distinct_map_filter)
  have "attains E (Sweep (main_suspender st)) x (\<lambda>r x'. r = Inr () \<and> reclaimed boot grace V i x')"
    unfolding Sweep_def ListEndpointsByState_def
  proof (rule attains_checkI [OF query_attains [OF E]])
    show "\<not> elsewhere i [SelectEndpointsIn ''running'']" by simp
    show "exec_tx t [SelectEndpointsIn ''running''] (vw_db V x) = (Inr (EndpointRows ?eps), vw_db V x)" for t
      by (simp add: exec_tx_single)
    show "query_reply as_endpoints (Inr (EndpointRows ?eps)) = Inr ?eps" by (simp add: query_reply_def)
    fix eps x1
    assume "eps = ?eps \<and> elapses second V x x1 \<and> keeps V x x1"
    then have [simp]: "eps = ?eps" and 1: "keeps V x x1" by auto
    have "t + e_suspend_after e * second \<le> vw_clock V x1" using assms(7) keeps_clock [OF 1] by simp
    from sweep_list_attains [OF E row_keeps [OF assms(4) 1] assms(5) timely_later [OF assms(3) keeps_later [OF 1]]
        reports_later [OF assms(6) keeps_later [OF 1]] this eps]
    show "attains E (sweep_all (main_suspender st) eps) x1 (\<lambda>r x'. r = Inr () \<and> reclaimed boot grace V i x')" by simp
  qed
  from attains_result [OF this] have 1: "result E (Sweep (main_suspender st)) x = Returned (Inr ())"
    and 2: "reclaimed boot grace V i x1" using assms(8) by auto
  obtain c x2 where s: "env_sleep E grace x1 = (c, x2)" by (cases "env_sleep E grace x1")
  from sleep_law [OF E s assms(2)] have 3: "vw_clock V x1 + grace \<le> vw_clock V x2" "keeps V x1 x2" by blast+
  with 2 have "gone V x2" by (auto simp: reclaimed_def given_back_def gone_def timely_def keeps_eqs)
  with 1 2 s show ?thesis by (auto simp: reclaimed_def given_back_def)
qed

text \<open>In the world of \<open>wake_heals\<close> no compute reports an activity, so the time of the start counts.\<close>

definition running_db :: database where
  "running_db = snd (exec_tx 8 [UpdateRunning ''ep-1'' ''10.0.0.1:55433''] demo_db)"

definition running_row :: endpoint where
  "running_row = \<lparr>e_id = ''ep-1'', e_branch = ''br-1'', e_state = ''running'', e_addr = Some ''10.0.0.1:55433'',
     e_suspend_after = 300, e_last_started = Some 8, e_last_active = Some 8, e_updated = 8\<rparr>"

definition running_world :: world where
  "running_world = (301000000000, running_db, Alive ''10.0.0.1'' 7, True)"

lemma sweep_reclaims_witness:
  "result world_env (Sweep (main_suspender default_settings)) running_world = Returned (Inr ()) \<and>
   (\<exists>e'. row_is world_view (final world_env (Sweep (main_suspender default_settings)) running_world) ''ep-1'' e' \<and>
      e_state e' = ''suspended'' \<and> e_addr e' = None) \<and>
   (vw_pod world_view (final world_env (Sweep (main_suspender default_settings)) running_world) = Absent \<or>
    (\<exists>g. vw_pod world_view (final world_env (Sweep (main_suspender default_settings)) running_world) = Terminating g)) \<and>
   gone world_view (snd (env_sleep world_env (30 * second)
     (final world_env (Sweep (main_suspender default_settings)) running_world)))"
proof (rule sweep_reclaims [OF world_responsive])
  have "ep_row running_db ''ep-1'' = Some running_row" by code_simp
  with exec_tx_ok [OF demo_db_ok, of 8 "[UpdateRunning ''ep-1'' ''10.0.0.1:55433'']"]
  show "row_is world_view running_world ''ep-1'' running_row"
    by (simp add: row_is_def world_view_def running_db_def running_world_def)
  have "last_active_of up_status = Inr time_zero" by code_simp
  then show "reports_active world_view world_env running_world running_row 8"
    by (simp add: reports_active_def running_row_def running_world_def world_env_def world_view_def IsZero_def split: prod.split)
qed (simp_all add: running_row_def running_world_def world_view_def timely_def text_ok_def)

end
