(* ===== verification/Compute_Facts.thy ===== *)
theory Compute_Facts
  imports Store_Facts Traces Controlplane
begin

text \<open>
  From the rows to the pod: the configuration the spec builder makes of an endpoint's rows,
  and that a start has put this configuration in place before it creates the pod.
\<close>

section \<open>The configuration in place\<close>

text \<open>The endpoint's config map holds the configuration: either the start created it, or it
  updated the object it read, leaving everything but data and labels as it was.\<close>

definition config_in_place :: "k8s_runtime \<Rightarrow> string \<Rightarrow> compute_config \<Rightarrow> event list \<Rightarrow> bool" where
  "config_in_place r i cfg tr \<longleftrightarrow>
     (\<exists>ob. EK8s (CreateConfigMap (kr_namespace r) (configMapFor r i cfg)) (Inr ob) \<in> set tr) \<or>
     (\<exists>old ob. EK8s (GetConfigMap (kr_namespace r) (configMapName i)) (Inr (ConfigMapObject old)) \<in> set tr \<and>
        EK8s (UpdateConfigMap (kr_namespace r)
          (old\<lparr>cm_data := [(''config.json'', marshal_config cfg)],
               cm_labels := [(''app'', ''compute''), (''endpoint'', i)]\<rparr>)) (Inr ob) \<in> set tr)"

definition start_audit :: "k8s_runtime \<Rightarrow> string \<Rightarrow> compute_config \<Rightarrow> event list \<Rightarrow> event \<Rightarrow> bool" where
  "start_audit r i cfg tr ev \<longleftrightarrow>
     (\<forall>ns p q. ev = EK8s (CreatePod ns p) q \<longrightarrow>
        ns = kr_namespace r \<and> p = buildPod r i \<and> config_in_place r i cfg tr)"

definition pod_in_place :: "k8s_runtime \<Rightarrow> string \<Rightarrow> event list \<Rightarrow> bool" where
  "pod_in_place r i tr \<longleftrightarrow>
     (\<exists>q. EK8s (CreatePod (kr_namespace r) (buildPod r i)) q \<in> set tr \<and>
        (case q of Inl e \<Rightarrow> IsAlreadyExists e | Inr _ \<Rightarrow> True))"

lemma createPod_audit:
  "config_in_place r i cfg s \<Longrightarrow>
     wp (audit (start_audit r i cfg)) (createPod r i) (\<lambda>a s'. a = Inr () \<longrightarrow> pod_in_place r i s') s"
  by (auto simp: createPod_def start_audit_def pod_in_place_def split: sum.split)

lemma start_audit_other [simp]:
  "start_audit r i cfg tr (EK8s (CreateConfigMap ns cm) q)" "start_audit r i cfg tr (EK8s (GetConfigMap ns n) q)"
  "start_audit r i cfg tr (EK8s (UpdateConfigMap ns cm) q)"
  by (simp_all add: start_audit_def)

lemma Start_audit:
  "wp (audit (start_audit r i cfg)) (Start r i cfg) (\<lambda>a s'. a = Inr () \<longrightarrow> pod_in_place r i s') s"
  unfolding Start_def Let_def
  by (auto split: sum.split k8s_object.split intro!: createPod_audit)
    (auto simp: config_in_place_def configMapFor_def)

section \<open>Properties\<close>

text \<open>C24. A start creates the endpoint's pod, and no other, only after this endpoint's current
  configuration is in its config map, whether the map is new or left over; and it reports
  success only when the pod was created or exists.\<close>

theorem start_installs_config_first:
  "audited (start_audit r i cfg) (Start r i cfg) (\<lambda>a tr. case a of Inl e \<Rightarrow> True | Inr _ \<Rightarrow> pod_in_place r i tr)"
  using Start_audit [of r i cfg "[]"] unfolding audited_def by (rule wp_mono) (auto split: sum.split)

text \<open>C25. For an endpoint of the database the spec builder returns a configuration whose JSON
  names the project's tenant, the branch's timeline, the project's role with its verifier,
  the database \<^verbatim>\<open>appdb\<close> owned by the role and the configured page server and safekeepers; for an
  unknown endpoint it reports \<^verbatim>\<open>ErrNotFound\<close>.\<close>

theorem specBuilder_from_rows:
  assumes "faultless fault" and "schema_ok db"
  shows "case ct_endpoints (catalog_of db) i of
      None \<Rightarrow> result (with_db fault E) (specBuilder st i) (db, x) = Returned (Inl ErrNotFound)
    | Some e \<Rightarrow> \<exists>b p cfg. ct_branches (catalog_of db) (e_branch e) = Some b \<and> ct_projects (catalog_of db) (b_project b) = Some p \<and>
        result (with_db fault E) (specBuilder st i) (db, x) = Returned (Inr cfg) \<and>
        (let j = marshal_config cfg in
           members [''spec'', ''tenant_id''] j = Some (JStr (p_tenant p)) \<and>
           members [''spec'', ''timeline_id''] j = Some (JStr (b_timeline b)) \<and>
           members [''spec'', ''pageserver_connstring''] j = Some (JStr (st_pageserver_connstring st)) \<and>
           members [''spec'', ''safekeeper_connstrings''] j = Some (JArr (map JStr (st_safekeepers st))) \<and>
           members [''spec'', ''cluster'', ''databases''] j =
             Some (JArr [JObj [(''name'', JStr ''appdb''), (''owner'', JStr (p_role p)), (''options'', JNull)]]) \<and>
           (\<exists>admin. members [''spec'', ''cluster'', ''roles''] j =
             Some (JArr [admin, JObj [(''name'', JStr (p_role p)), (''encrypted_password'', JStr (p_verifier p)), (''options'', JNull)]])))"
proof -
  obtain y1 where y1: "final (with_db fault E) (GetAccessControl i) (db, x) = (db, y1)"
    using read_result [OF assms(1), THEN conjunct2, of "SelectAccess i" db]
    unfolding GetAccessControl_def by (metis exec_stmt.simps(12) prod.collapse)
  have y2: "\<exists>y2. final (with_db fault E) (GetProjectByID j) (db, y1) = (db, y2)" for j
    using read_result [OF assms(1), THEN conjunct2, of "SelectProject j" db]
    unfolding GetProjectByID_def by (metis exec_stmt.simps(5) prod.collapse)
  show ?thesis
  proof (cases "lookup e_id (endpoints db) i")
    case None
    then have "result (with_db fault E) (GetAccessControl i) (db, x) = Returned (Inl ErrNotFound)"
      by (simp add: access_result [OF assms] access_of_def)
    with None show ?thesis
      by (simp add: specBuilder_def check_def result_bind)
  next
    case (Some e)
    obtain b p where rows: "lookup b_id (branches db) (e_branch e) = Some b" "b_id b = e_branch e"
      "lookup p_id (projects db) (b_project b) = Some p" "p_id p = b_project b"
      by (rule endpoint_rows [OF assms(2) Some])
    then have "result (with_db fault E) (GetAccessControl i) (db, x) = Returned (Inr
        \<lparr>ac_role = p_role p, ac_verifier = p_verifier p, ac_project = p_id p, ac_branch = b_id b\<rparr>)"
      using Some by (simp add: access_result [OF assms] access_of_def)
    then have "result (with_db fault E) (specBuilder st i) (db, x) = Returned (Inr (BuildComputeConfig
         \<lparr>sp_tenant = p_tenant p, sp_timeline = b_timeline b, sp_role = p_role p,
          sp_verifier = p_verifier p, sp_database = ''appdb'',
          sp_pageserver = st_pageserver_connstring st, sp_safekeepers = st_safekeepers st\<rparr>))"
      using rows y1 y2 [of "p_id p"] by (auto simp: specBuilder_def check_result lookup_results [OF assms])
    with Some rows show ?thesis
      by (simp add: Let_def BuildComputeConfig_def marshal_config_def marshal_spec_def marshal_cluster_def
          marshal_role_def marshal_database_def)
  qed
qed

lemma specBuilder_from_rows_witness:
  "\<exists>cfg. result demo_db_env (specBuilder default_settings ''ep-1'') (demo_db, 8) = Returned (Inr cfg) \<and>
     members [''spec'', ''timeline_id''] (marshal_config cfg) = Some (JStr ''tl1'')"
proof -
  have "map_option e_branch (ct_endpoints (catalog_of demo_db) ''ep-1'') = Some ''br-1''"
    "map_option b_timeline (ct_branches (catalog_of demo_db) ''br-1'') = Some ''tl1''" by code_simp+
  then show ?thesis
    using specBuilder_from_rows [OF demo_faultless demo_db_ok, where i = "''ep-1''" and E = quiet_env and st = default_settings and x = 8]
    by (auto simp: demo_db_env_def Let_def)
qed

end
