(* ===== verification/Api_Facts.thy ===== *)
theory Api_Facts
  imports Traces Controlplane
begin

text \<open>
  What the REST handlers do in which order, whatever the pageserver, the safekeepers, the
  cluster and the database answer: a project is created completely or compensated for, a
  branch starts at an ingested commit position, and a deletion removes rows only after the
  storage they describe is gone.
\<close>

section \<open>What a trace shows\<close>

definition requested :: "string \<Rightarrow> string \<Rightarrow> json option \<Rightarrow> (http_response \<Rightarrow> bool) \<Rightarrow> event list \<Rightarrow> bool" where
  "requested m url body P tr \<longleftrightarrow>
     (\<exists>rs. EHttp \<lparr>rq_method = m, rq_url = url, rq_body = body\<rparr> (Inr rs) \<in> set tr \<and> P rs)"

definition is_2xx :: "http_response \<Rightarrow> bool" where
  "is_2xx rs \<longleftrightarrow> 200 \<le> rs_code rs \<and> rs_code rs \<le> 299"

abbreviation tenant_url :: "pageserver_client \<Rightarrow> string \<Rightarrow> string" where
  "tenant_url c tn \<equiv> ps_base_url c @ ''/v1/tenant/'' @ tn"

abbreviation timeline_url :: "pageserver_client \<Rightarrow> string \<Rightarrow> string \<Rightarrow> string" where
  "timeline_url c tn tm \<equiv> tenant_url c tn @ ''/timeline/'' @ tm"

lemma requested_append [simp]:
  "requested m url body P (tr @ tr') \<longleftrightarrow> requested m url body P tr \<or> requested m url body P tr'"
  by (auto simp: requested_def)

text \<open>A call of the page server is one request; success is a 2xx answer.\<close>

lemma expect2xx_audit:
  assumes "\<And>h. G s (EHttp \<lparr>rq_method = m, rq_url = ps_base_url c @ path, rq_body = body\<rparr> h)"
  shows "wp (audit G) (expect2xx c m path body) (\<lambda>r s'.
     (\<exists>h. s' = s @ [EHttp \<lparr>rq_method = m, rq_url = ps_base_url c @ path, rq_body = body\<rparr> h] \<and>
        (r = Inr () \<longleftrightarrow> (\<exists>rs. h = Inr rs \<and> is_2xx rs)))) s"
  using assms by (auto simp: expect2xx_def do_request_def is_2xx_def not_less split: sum.split)

text \<open>A transaction is one effect; it has happened exactly when the store reports no error.\<close>

lemma exec_audit:
  assumes "\<And>v. G s (ESql qs v)"
  shows "wp (audit G) (Sql qs (\<lambda>r. Return (exec_reply r)))
     (\<lambda>r s'. (\<exists>e. r = Inl e \<and> s' = s @ [ESql qs (Inl e)]) \<or> (\<exists>w. r = Inr () \<and> s' = s @ [ESql qs (Inr w)])) s"
  using assms by (auto simp: exec_reply_def map_sum_def split: sum.splits)

text \<open>Drawing identifiers and secrets leaves no other effects in the trace.\<close>

lemma draw_bind:
  assumes "emits is_rand p" and "list_all is_rand s" and "\<And>s ev. is_rand ev \<Longrightarrow> G s ev"
    and "\<And>a s'. list_all is_rand s' \<Longrightarrow> wp (audit G) (f a) Q s'"
  shows "wp (audit G) (bind p f) Q s"
  by (rule wp_bindI [OF audit_emits [OF assms(1,3)]]) (use assms(2,4) in auto)

lemma draw_check:
  assumes "emits is_rand p" and "list_all is_rand s" and "\<And>s ev. is_rand ev \<Longrightarrow> G s ev"
    and "\<And>e s'. list_all is_rand s' \<Longrightarrow> wp (audit G) (h e) Q s'"
    and "\<And>a s'. list_all is_rand s' \<Longrightarrow> wp (audit G) (k a) Q s'"
  shows "wp (audit G) (check p h k) Q s"
  by (rule wp_checkI [OF audit_emits [OF assms(1,3)]]) (use assms(2,4,5) in auto)

section \<open>Creating a project\<close>

definition stored_project :: "project \<Rightarrow> branch \<Rightarrow> endpoint \<Rightarrow> err + sql_result \<Rightarrow> event" where
  "stored_project p b ep v = ESql (InsertProject p # insertBranchAndEndpoint b ep) v"

text \<open>The outcome of \<^verbatim>\<open>createProject\<close>: a 201 names the project stored last, after the tenant and
  the timeline were created; a failing transaction is followed by the deletion of the tenant
  and answered by 500; any other answer stored nothing and deleted nothing.\<close>

definition harmless :: "event \<Rightarrow> bool" where
  "harmless ev \<longleftrightarrow> \<not> is_sql ev \<and> \<not> is_http (\<lambda>q. rq_method q = ''DELETE'') ev"

definition project_outcome :: "server \<Rightarrow> response \<Rightarrow> event list \<Rightarrow> bool" where
  "project_outcome s resp tr \<longleftrightarrow>
     (\<exists>p b ep v u. resp_status resp = 201 \<and> tr = u @ [stored_project p b ep (Inr v)] \<and> (\<forall>ev \<in> set u. harmless ev) \<and>
        member ''project_id'' (resp_body resp) = Some (JStr (p_id p)) \<and>
        member ''endpoint_id'' (resp_body resp) = Some (JStr (e_id ep)) \<and>
        b_project b = p_id p \<and> e_branch ep = b_id b \<and> b_default b \<and> e_state ep = ''suspended'' \<and>
        (\<exists>body. requested ''PUT'' (tenant_url (sv_pageserver s) (p_tenant p) @ ''/location_config'') body is_2xx u) \<and>
        (\<exists>body. member ''new_timeline_id'' body = Some (JStr (b_timeline b)) \<and>
           requested ''POST'' (tenant_url (sv_pageserver s) (p_tenant p) @ ''/timeline/'') (Some body) is_2xx u)) \<or>
     (\<exists>p b ep e h u. resp_status resp = 500 \<and> (\<forall>ev \<in> set u. harmless ev) \<and>
        tr = u @ [stored_project p b ep (Inl e),
                  EHttp \<lparr>rq_method = ''DELETE'', rq_url = tenant_url (sv_pageserver s) (p_tenant p), rq_body = None\<rparr> h]) \<or>
     resp_status resp \<in> {400, 500, 502} \<and> (\<forall>ev \<in> set tr. harmless ev)"

lemma rand_harmless: "list_all is_rand tr \<Longrightarrow> ev \<in> set tr \<Longrightarrow> harmless ev"
  by (cases ev) (auto simp: list_all_iff harmless_def)

lemma or_502:
  assumes "\<forall>ev \<in> set s. harmless ev" and "m \<noteq> ''DELETE''"
    and "\<And>rs. is_2xx rs \<Longrightarrow> wp (audit unaudited) (k ()) (project_outcome sv)
      (s @ [EHttp \<lparr>rq_method = m, rq_url = ps_base_url c @ path, rq_body = body\<rparr> (Inr rs)])"
  shows "wp (audit unaudited) (check (expect2xx c m path body) (\<lambda>e. writeErr 502 (f e)) k) (project_outcome sv) s"
proof (rule wp_checkI [OF expect2xx_audit])
  fix e s'
  assume "\<exists>h. s' = s @ [EHttp \<lparr>rq_method = m, rq_url = ps_base_url c @ path, rq_body = body\<rparr> h] \<and>
      ((Inl e :: err + unit) = Inr () \<longleftrightarrow> (\<exists>rs. h = Inr rs \<and> is_2xx rs))"
  then show "wp (audit unaudited) (writeErr 502 (f e)) (project_outcome sv) s'"
    using assms(1,2) by (auto simp: writeErr_def writeJSON_def project_outcome_def harmless_def)
qed (use assms(3) in \<open>auto simp del: wp_check\<close>)

lemma provision_outcome:
  assumes "list_all is_rand s"
  shows "wp (audit unaudited) (provision_project sv name secs ids password verifier) (project_outcome sv) s"
proof -
  obtain tn tm pid bid eid where ids: "ids = (tn, tm, pid, bid, eid)" by (cases ids)
  have quiet: "\<forall>ev \<in> set s. harmless ev" using rand_harmless [OF assms] by blast
  let ?put = "EHttp \<lparr>rq_method = ''PUT'', rq_url = tenant_url (sv_pageserver sv) tn @ ''/location_config'',
      rq_body = Some (JObj [(''generation'', JInt 1), (''mode'', JStr ''AttachedSingle''), (''tenant_conf'', JObj [])])\<rparr>"
  let ?post = "EHttp \<lparr>rq_method = ''POST'', rq_url = tenant_url (sv_pageserver sv) tn @ ''/timeline/'',
      rq_body = Some (JObj [(''new_timeline_id'', JStr tm), (''pg_version'', JInt 17)])\<rparr>"
  let ?p = "\<lparr>p_id = pid, p_name = name, p_tenant = tn, p_pg_version = 17, p_role = ''firth'', p_verifier = verifier\<rparr>"
  let ?b = "\<lparr>b_id = bid, b_project = pid, b_name = ''main'', b_timeline = tm, b_parent = None, b_default = True\<rparr>"
  let ?e = "new_endpoint eid bid (if secs > 0 then secs else 0)"
  have fine: "project_outcome sv \<lparr>resp_status = 201, resp_body = j\<rparr>
      ((s @ [?put (Inr r1), ?post (Inr r2)]) @ [stored_project ?p ?b ?e (Inr v)])"
    if "is_2xx r1" "is_2xx r2" "member ''project_id'' j = Some (JStr pid)"
      "member ''endpoint_id'' j = Some (JStr eid)" for r1 r2 j v
  proof -
    let ?u = "s @ [?put (Inr r1), ?post (Inr r2)]"
    have put: "\<exists>body. requested ''PUT'' (tenant_url (sv_pageserver sv) (p_tenant ?p) @ ''/location_config'') body is_2xx ?u"
      using that(1) by (auto simp: requested_def)
    have post: "\<exists>body. member ''new_timeline_id'' body = Some (JStr (b_timeline ?b)) \<and>
        requested ''POST'' (tenant_url (sv_pageserver sv) (p_tenant ?p) @ ''/timeline/'') (Some body) is_2xx ?u"
      using that(2) by (intro exI [of _ "JObj [(''new_timeline_id'', JStr tm), (''pg_version'', JInt 17)]"])
        (auto simp: requested_def)
    show ?thesis
      unfolding project_outcome_def
      by (intro disjI1 exI [of _ ?p] exI [of _ ?b] exI [of _ ?e] exI [of _ v] exI [of _ ?u] conjI put post)
        (use quiet that(3,4) in \<open>simp_all add: new_endpoint_def harmless_def\<close>)
  qed
  have undo: "project_outcome sv \<lparr>resp_status = 500, resp_body = j\<rparr>
      ((s @ [?put r1, ?post r2]) @ [stored_project ?p ?b ?e (Inl e),
        EHttp \<lparr>rq_method = ''DELETE'', rq_url = tenant_url (sv_pageserver sv) tn, rq_body = None\<rparr> h])" for r1 r2 e h j
    unfolding project_outcome_def using quiet
    by (intro disjI2 disjI1 exI [of _ ?p] exI [of _ ?b] exI [of _ ?e] exI [of _ e] exI [of _ h]
        exI [of _ "s @ [?put r1, ?post r2]"] conjI) (simp_all add: harmless_def)
  let ?answer = "case connectionURI sv eid ''firth'' password ''appdb'' of (host, uri) \<Rightarrow>
          writeJSON 201 (JObj
            [(''branch_id'', JStr bid), (''connection_uri'', JStr uri), (''database'', JStr ''appdb''),
             (''endpoint_id'', JStr eid), (''host'', JStr host), (''password'', JStr password),
             (''port'', JInt (cf_proxy_port (sv_cfg sv))), (''project_id'', JStr pid), (''role'', JStr ''firth'')])"
  let ?persist = "check (CreateProject ?p ?b ?e)
      (\<lambda>e. bind (DeleteTenant (sv_pageserver sv) tn) (\<lambda>_. writeErr 500 (Error e))) (\<lambda>_. ?answer)"
  have persist: "wp (audit unaudited) ?persist (project_outcome sv) (s @ [?put (Inr r1), ?post (Inr r2)])"
    if "is_2xx r1" "is_2xx r2" for r1 r2
    unfolding CreateProject_def
  proof (rule wp_checkI [OF exec_audit], simp)
    fix e s'
    assume "(\<exists>e'. Inl e = Inl e' \<and> s' = (s @ [?put (Inr r1), ?post (Inr r2)]) @
          [ESql (InsertProject ?p # insertBranchAndEndpoint ?b ?e) (Inl e')]) \<or>
        (\<exists>w. Inl e = Inr () \<and> s' = (s @ [?put (Inr r1), ?post (Inr r2)]) @
          [ESql (InsertProject ?p # insertBranchAndEndpoint ?b ?e) (Inr w)])"
    then have "s' = (s @ [?put (Inr r1), ?post (Inr r2)]) @ [stored_project ?p ?b ?e (Inl e)]"
      by (simp add: stored_project_def)
    then show "wp (audit unaudited) (bind (DeleteTenant (sv_pageserver sv) tn) (\<lambda>_. writeErr 500 (Error e))) (project_outcome sv) s'"
      using undo unfolding DeleteTenant_def
      by (intro wp_bindI [OF expect2xx_audit]) (auto simp: writeErr_def writeJSON_def)
  next
    fix u :: unit and s'
    assume "(\<exists>e'. Inr u = Inl e' \<and> s' = (s @ [?put (Inr r1), ?post (Inr r2)]) @
          [ESql (InsertProject ?p # insertBranchAndEndpoint ?b ?e) (Inl e')]) \<or>
        (\<exists>w. Inr u = Inr () \<and> s' = (s @ [?put (Inr r1), ?post (Inr r2)]) @
          [ESql (InsertProject ?p # insertBranchAndEndpoint ?b ?e) (Inr w)])"
    then obtain w where "s' = (s @ [?put (Inr r1), ?post (Inr r2)]) @ [stored_project ?p ?b ?e (Inr w)]"
      by (auto simp: stored_project_def)
    moreover obtain host uri where "connectionURI sv eid ''firth'' password ''appdb'' = (host, uri)"
      by (cases "connectionURI sv eid ''firth'' password ''appdb''")
    ultimately show "wp (audit unaudited) ?answer (project_outcome sv) s'"
      by (simp only: prod.case writeJSON_def wp.simps) (rule fine [OF that]; simp)
  qed
  have timeline: "wp (audit unaudited) (check (expect2xx (sv_pageserver sv) ''POST'' (''/v1/tenant/'' @ tn @ ''/timeline/'')
        (Some (JObj [(''new_timeline_id'', JStr tm), (''pg_version'', JInt 17)])))
        (\<lambda>e. writeErr 502 (''pageserver: '' @ Error e)) (\<lambda>_. ?persist)) (project_outcome sv) (s @ [?put (Inr r1)])"
    if "is_2xx r1" for r1
    by (rule or_502) (use persist [OF that] quiet in \<open>simp_all add: harmless_def del: wp_check\<close>)
  show ?thesis
    unfolding ids provision_project_def prod.case AttachTenant_def CreateTimeline_def
    by (rule or_502 [OF quiet]) (use timeline in \<open>simp_all del: wp_check\<close>)
qed

lemma createProject_outcome: "audited unaudited (createProject s r) (project_outcome s)"
proof -
  have err: "project_outcome s \<lparr>resp_status = c, resp_body = j\<rparr> tr"
    if "c \<in> {400, 500, 502}" "list_all is_rand tr" for c j tr
    using that rand_harmless unfolding project_outcome_def by (intro disjI2) auto
  show ?thesis
  proof (cases "decode_create_project (in_body r)")
    case None
    then show ?thesis by (simp add: audited_def createProject_def writeErr_def writeJSON_def err)
  next
    case (Some ns)
    obtain name secs where ns: "ns = (name, secs)" by (cases ns)
    show ?thesis
      unfolding audited_def createProject_def Some ns option.case prod.case
      by (intro draw_bind [OF rand_emits(1)] draw_bind [OF rand_emits(2)] draw_bind [OF rand_emits(3)]
          draw_bind [OF rand_emits(4)] draw_check [OF rand_emits(5)] draw_check [OF rand_emits(6)] provision_outcome)
        (simp_all add: writeErr_def writeJSON_def err)
  qed
qed

section \<open>Creating a branch\<close>

text \<open>The safekeepers were asked for the timeline's commit position, and the highest one that
  parses is \<open>l\<close>.\<close>

definition asks :: "safekeeper_client \<Rightarrow> string \<Rightarrow> string \<Rightarrow> event \<Rightarrow> bool" where
  "asks c tn tm ev \<longleftrightarrow>
     is_http (\<lambda>q. rq_method q = ''GET'' \<and> (\<exists>base \<in> set (sk_base_urls c).
       rq_url q = base @ ''/v1/tenant/'' @ tn @ ''/timeline/'' @ tm)) ev"

definition highest_commit :: "safekeeper_client \<Rightarrow> string \<Rightarrow> string \<Rightarrow> string \<Rightarrow> event list \<Rightarrow> bool" where
  "highest_commit c tn tm l u \<longleftrightarrow>
     list_all (asks c tn tm) u \<and> length u = length (sk_base_urls c) \<and>
     (\<exists>v. Inr l \<in> set (advance replies [] u) \<and> Parse l = Inr v \<and> (\<forall>w \<in> positions (advance replies [] u). w \<le> v))"

lemma max_loop_asks:
  "set bases \<subseteq> set (sk_base_urls c) \<Longrightarrow> emits (asks c tn tm) (max_loop bases tn tm b)"
  by (induction bases arbitrary: b)
    (auto simp: emits_def commitLSN_def asks_def split: sum.split)

lemma MaxCommitLSN_asks: "emits (asks c tn tm) (MaxCommitLSN c tn tm)"
  unfolding MaxCommitLSN_def by (rule emits_bindI [OF max_loop_asks]) (auto simp: emits_def)

lemma replies_rely: "mon_rely replies s ev"
  by (simp add: replies_def)

lemma asks_replies: "list_all (asks c tn tm) u \<Longrightarrow> length (advance replies t u) = length t + length u"
proof (induction u arbitrary: t)
  case (Cons ev u)
  then show ?case by (cases ev) (auto simp: asks_def replies_def)
qed simp

text \<open>Effects that store nothing and create no timeline.\<close>

fun calm :: "event \<Rightarrow> bool" where
  "calm (ESql qs r) = list_all reads_only qs"
| "calm (EHttp q h) = (rq_method q \<noteq> ''POST'')"
| "calm _ = True"

definition ingested :: "pageserver_client \<Rightarrow> string \<Rightarrow> string \<Rightarrow> string \<Rightarrow> event list \<Rightarrow> bool" where
  "ingested ps tn tm l tr \<longleftrightarrow> requested ''GET'' (timeline_url ps tn tm) None (\<lambda>rs. rs_code rs = 200 \<and>
     (\<exists>d. decode_detail (rs_body rs) = Inr d \<and> AtLeast (td_last_record_lsn d) l = Inr True)) tr"

definition branch_point ::
  "safekeeper_client \<Rightarrow> pageserver_client \<Rightarrow> string \<Rightarrow> string \<Rightarrow> string \<Rightarrow> event list \<Rightarrow> bool" where
  "branch_point c ps tn tm l tr \<longleftrightarrow>
     (\<exists>tr1 u tr2. tr = tr1 @ u @ tr2 \<and> highest_commit c tn tm l u \<and> ingested ps tn tm l tr2)"

definition branch_audit :: "safekeeper_client \<Rightarrow> pageserver_client \<Rightarrow> event list \<Rightarrow> event \<Rightarrow> bool" where
  "branch_audit c ps tr ev \<longleftrightarrow>
     (\<forall>q h. ev = EHttp q h \<and> rq_method q = ''POST'' \<longrightarrow>
        (\<exists>tn tm l body. rq_url q = tenant_url ps tn @ ''/timeline/'' \<and> rq_body q = Some body \<and>
           member ''ancestor_timeline_id'' body = Some (JStr tm) \<and>
           member ''ancestor_start_lsn'' body = Some (JStr l) \<and> branch_point c ps tn tm l tr))"

lemma calm_audit: "calm ev \<Longrightarrow> branch_audit c ps tr ev"
  by (auto simp: branch_audit_def)

lemma sql_audit: "branch_audit c ps tr (ESql qs r)" "branch_audit c ps tr (ERand n b)"
  by (simp_all add: branch_audit_def)

lemma branch_point_append: "branch_point c ps tn tm l tr \<Longrightarrow> branch_point c ps tn tm l (tr0 @ tr)"
  unfolding branch_point_def by (metis append.assoc)

lemma GetTimeline_audit:
  "wp (audit (branch_audit c ps)) (GetTimeline ps tn tm) (\<lambda>r s'. \<exists>w. s' = s @ w \<and> list_all calm w \<and>
     (\<forall>d l. r = Inr d \<and> AtLeast (td_last_record_lsn d) l = Inr True \<longrightarrow> ingested ps tn tm l w)) s"
  by (auto simp: GetTimeline_def do_request_def StatusNotFound_def StatusOK_def calm_audit ingested_def requested_def
      split: sum.split)

lemma ingest_audit:
  assumes "sv_pageserver sv = ps"
  shows "wp (audit (branch_audit c ps)) (ingest_loop n sv tn tm l dl) (\<lambda>r s'. \<exists>w. s' = s @ w \<and> list_all calm w \<and>
     (\<forall>l'. r = Inr l' \<longrightarrow> l' = l \<and> ingested ps tn tm l w)) s"
proof (induction n arbitrary: s)
  case (Suc n)
  show ?case
    unfolding ingest_loop.simps assms
  proof (rule wp_checkI [OF GetTimeline_audit])
    fix d s'
    assume "\<exists>w. s' = s @ w \<and> list_all calm w \<and> (\<forall>d' l. Inr d = Inr d' \<and>
        AtLeast (td_last_record_lsn d') l = Inr True \<longrightarrow> ingested ps tn tm l w)"
    then obtain w where w: "s' = s @ w" "list_all calm w"
      "\<And>l. AtLeast (td_last_record_lsn d) l = Inr True \<Longrightarrow> ingested ps tn tm l w" by auto
    have again: "wp (audit (branch_audit c ps)) (ingest_loop n sv tn tm l dl) (\<lambda>r s''. \<exists>w. s'' = s @ w \<and> list_all calm w \<and>
        (\<forall>l'. r = Inr l' \<longrightarrow> l' = l \<and> ingested ps tn tm l w)) (s' @ v)" if "list_all calm v" for v
      by (rule wp_mono [OF Suc.IH]) (use w that in \<open>auto simp: ingested_def\<close>)
    show "wp (audit (branch_audit c ps)) (case AtLeast (td_last_record_lsn d) l of
         Inl e \<Rightarrow> fails e
       | Inr caught \<Rightarrow>
           if caught then returns l
           else Now (\<lambda>now.
             if now > dl
             then fails (Errorf ''pageserver did not reach lsn %s (at %s)'' [Str l, Str (td_last_record_lsn d)])
             else Sleep (200 * millisecond) (\<lambda>c.
               case c of Some e \<Rightarrow> fails e | None \<Rightarrow> ingest_loop n sv tn tm l dl)))
        (\<lambda>r s''. \<exists>w. s'' = s @ w \<and> list_all calm w \<and> (\<forall>l'. r = Inr l' \<longrightarrow> l' = l \<and> ingested ps tn tm l w)) s'"
      using w again [of "[_, _]"] by (auto simp: calm_audit split: sum.split option.split)
  qed auto
qed simp

lemma wait_audit:
  assumes ps: "sv_pageserver sv = ps" and sk: "sv_safekeeper sv = MaxCommitLSN c"
  shows "wp (audit (branch_audit c ps)) (waitAncestorIngested n sv tn tm) (\<lambda>r s'. \<exists>w. s' = s @ w \<and> list_all calm w \<and>
     (\<forall>l. r = Inr l \<longrightarrow> branch_point c ps tn tm l w)) s"
  unfolding waitAncestorIngested_def sk
proof (rule wp_checkI)
  have calm: "asks c tn tm ev \<Longrightarrow> calm ev" for ev
    by (cases ev) (auto simp: asks_def)
  then show "wp (audit (branch_audit c ps)) (MaxCommitLSN c tn tm) (\<lambda>r s'. \<exists>u. s' = s @ u \<and> list_all calm u \<and>
      (\<forall>l. r = Inr l \<longrightarrow> highest_commit c tn tm l u)) s"
    by (intro wp_mono [OF wp_fold [OF MaxCommitLSN_best replies_rely MaxCommitLSN_asks]])
      (auto simp: calm_audit highest_commit_def asks_replies [of c tn tm _ "[]", simplified] list_all_iff)
next
  fix l s'
  assume "\<exists>u. s' = s @ u \<and> list_all calm u \<and> (\<forall>l'. Inr l = Inr l' \<longrightarrow> highest_commit c tn tm l' u)"
  then obtain u where u: "s' = s @ u" "list_all calm u" "highest_commit c tn tm l u" by auto
  have "branch_point c ps tn tm l (u @ ENow t # w)" if "ingested ps tn tm l w" for t w
    unfolding branch_point_def using u(3) that
    by (intro exI [of _ "[]"] exI [of _ u] exI [of _ "ENow t # w"]) (auto simp: ingested_def requested_def)
  then show "wp (audit (branch_audit c ps)) (Now (\<lambda>now. ingest_loop n sv tn tm l (now + 30 * second)))
      (\<lambda>r s'. \<exists>w. s' = s @ w \<and> list_all calm w \<and> (\<forall>l. r = Inr l \<longrightarrow> branch_point c ps tn tm l w)) s'"
    using u by (auto simp: calm_audit intro!: wp_mono [OF ingest_audit [OF ps]])
qed auto

text \<open>Deleting a timeline begins with the request and is calm.\<close>

lemma DeleteTimeline_audit:
  assumes "\<And>tr ev. calm ev \<Longrightarrow> G tr ev"
  shows "wp (audit G) (DeleteTimeline n ps tn tm) (\<lambda>r s'. \<exists>h w.
     s' = s @ EHttp \<lparr>rq_method = ''DELETE'', rq_url = timeline_url ps tn tm, rq_body = None\<rparr> h # w \<and> list_all calm w) s"
proof -
  have loop: "emits calm (await_gone n ps path tm d)" for n path d
  proof (induction n)
    case (Suc n)
    then show ?case by (auto simp: emits_def do_request_def split: sum.split option.split)
  qed (simp add: emits_def)
  have rest: "wp (audit G) (await_gone n ps path tm d) (\<lambda>r s'. \<exists>h w.
     s' = s @ EHttp \<lparr>rq_method = ''DELETE'', rq_url = timeline_url ps tn tm, rq_body = None\<rparr> h # w \<and> list_all calm w)
     (s @ [EHttp \<lparr>rq_method = ''DELETE'', rq_url = timeline_url ps tn tm, rq_body = None\<rparr> h, ENow t])" for path d h t
    by (rule wp_mono [OF audit_emits [OF loop assms]]) auto
  show ?thesis
    using rest by (auto simp: DeleteTimeline_def do_request_def Let_def assms split: sum.split)
qed

fun stores :: "event \<Rightarrow> bool" where
  "stores (ESql qs r) = (\<not> list_all reads_only qs)"
| "stores _ = False"

definition stored_branch :: "branch \<Rightarrow> endpoint \<Rightarrow> err + sql_result \<Rightarrow> event" where
  "stored_branch b ep v = ESql (insertBranchAndEndpoint b ep) v"

text \<open>The row of project \<open>i\<close> was read as \<open>p\<close>.\<close>

definition read_project :: "string \<Rightarrow> project \<Rightarrow> event list \<Rightarrow> bool" where
  "read_project i p tr \<longleftrightarrow> (\<exists>rest. ESql [SelectProject i] (Inr (ProjectRows (p # rest))) \<in> set tr)"

text \<open>The timeline of branch \<open>b\<close> was created at the tenant of the project that was read.\<close>

definition timeline_created :: "string \<Rightarrow> pageserver_client \<Rightarrow> project \<Rightarrow> branch \<Rightarrow> event list \<Rightarrow> bool" where
  "timeline_created i ps p b tr \<longleftrightarrow>
     read_project i p tr \<and> b_project b = p_id p \<and>
     (\<exists>body. member ''new_timeline_id'' body = Some (JStr (b_timeline b)) \<and>
        requested ''POST'' (tenant_url ps (p_tenant p) @ ''/timeline/'') (Some body) is_2xx tr)"

definition branch_outcome :: "string \<Rightarrow> pageserver_client \<Rightarrow> response \<Rightarrow> event list \<Rightarrow> bool" where
  "branch_outcome i ps resp tr \<longleftrightarrow>
     (\<exists>p b ep v u. resp_status resp = 201 \<and> tr = u @ [stored_branch b ep (Inr v)] \<and> (\<forall>ev \<in> set u. \<not> stores ev) \<and>
        timeline_created i ps p b u \<and>
        member ''branch_id'' (resp_body resp) = Some (JStr (b_id b)) \<and>
        member ''endpoint_id'' (resp_body resp) = Some (JStr (e_id ep)) \<and>
        e_branch ep = b_id b \<and> \<not> b_default b \<and> e_state ep = ''suspended'') \<or>
     (\<exists>p b ep e h u w. resp_status resp = 500 \<and> (\<forall>ev \<in> set (u @ w). \<not> stores ev) \<and> timeline_created i ps p b u \<and>
        tr = u @ stored_branch b ep (Inl e) #
          EHttp \<lparr>rq_method = ''DELETE'', rq_url = timeline_url ps (p_tenant p) (b_timeline b), rq_body = None\<rparr> h # w) \<or>
     resp_status resp \<in> {400, 404, 500, 502} \<and> (\<forall>ev \<in> set tr. \<not> stores ev)"

text \<open>The trace from the reading of the project to the creation of the timeline.\<close>

definition begun :: "string \<Rightarrow> project \<Rightarrow> event list \<Rightarrow> bool" where
  "begun i p tr \<longleftrightarrow> list_all calm tr \<and> read_project i p tr"

lemma begun_append: "begun i p tr \<Longrightarrow> list_all calm u \<Longrightarrow> begun i p (tr @ u)"
  by (auto simp: begun_def read_project_def)

lemma calm_not_stores: "list_all calm tr \<Longrightarrow> \<forall>ev \<in> set tr. \<not> stores ev"
proof
  fix ev assume "list_all calm tr" "ev \<in> set tr"
  then show "\<not> stores ev" by (cases ev) (auto simp: list_all_iff)
qed

lemma begun_not_stores: "begun i p tr \<Longrightarrow> \<forall>ev \<in> set tr. \<not> stores ev"
  unfolding begun_def using calm_not_stores by blast

lemma branch_refused:
  "c \<in> {400, 404, 500, 502} \<Longrightarrow> \<forall>ev \<in> set tr. \<not> stores ev \<Longrightarrow>
     branch_outcome i ps \<lparr>resp_status = c, resp_body = j\<rparr> tr"
  by (simp add: branch_outcome_def)

lemma provision_branch_audit:
  assumes ps: "sv_pageserver sv = ps" and sk: "sv_safekeeper sv = MaxCommitLSN c" and s: "begun i p s"
  shows "wp (audit (branch_audit c ps)) (provision_branch n sv p parent name ids) (branch_outcome i ps) s"
proof -
  obtain bid eid tm where ids: "ids = (bid, eid, tm)" by (cases ids)
  let ?G = "branch_audit c ps" and ?tn = "p_tenant p" and ?anc = "b_timeline parent"
  let ?b = "\<lparr>b_id = bid, b_project = p_id p, b_name = name, b_timeline = tm, b_parent = Some (b_id parent), b_default = False\<rparr>"
  let ?e = "new_endpoint eid bid 0"
  let ?body = "\<lambda>l. JObj [(''ancestor_start_lsn'', JStr l), (''ancestor_timeline_id'', JStr ?anc), (''new_timeline_id'', JStr tm)]"
  let ?post = "\<lambda>l. EHttp \<lparr>rq_method = ''POST'', rq_url = tenant_url ps ?tn @ ''/timeline/'', rq_body = Some (?body l)\<rparr>"
  have timeline: "timeline_created i ps p ?b (u @ [?post l (Inr rs)])" if "begun i p u" "is_2xx rs" for u l rs
    using that unfolding timeline_created_def
    by (intro conjI exI [of _ "?body l"]) (auto simp: begun_def read_project_def requested_def)
  have created: "branch_outcome i ps \<lparr>resp_status = 201, resp_body = j\<rparr> ((u @ [?post l (Inr rs)]) @ [stored_branch ?b ?e (Inr v)])"
    if "begun i p u" "is_2xx rs" "member ''branch_id'' j = Some (JStr bid)" "member ''endpoint_id'' j = Some (JStr eid)"
    for u l rs j v
    unfolding branch_outcome_def
    by (intro disjI1 exI [of _ p] exI [of _ ?b] exI [of _ ?e] exI [of _ v] exI [of _ "u @ [?post l (Inr rs)]"] conjI)
      (use that(3,4) begun_not_stores [OF that(1)] timeline [OF that(1,2)] in \<open>simp_all add: new_endpoint_def\<close>)
  have undone: "branch_outcome i ps \<lparr>resp_status = 500, resp_body = j\<rparr> ((u @ [?post l (Inr rs)]) @ stored_branch ?b ?e (Inl e) #
      EHttp \<lparr>rq_method = ''DELETE'', rq_url = timeline_url ps ?tn tm, rq_body = None\<rparr> h' # w)"
    if "begun i p u" "is_2xx rs" "list_all calm w" for u w l rs h' e j
    unfolding branch_outcome_def
    by (intro disjI2 disjI1 exI [of _ p] exI [of _ ?b] exI [of _ ?e] exI [of _ e] exI [of _ h']
        exI [of _ "u @ [?post l (Inr rs)]"] exI [of _ w] conjI)
      (use begun_not_stores [OF that(1)] calm_not_stores [OF that(3)] timeline [OF that(1,2)] in auto)
  let ?answer = "let host = sprintf ''%s.%s'' [Str eid, Str (cf_domain (sv_cfg sv))] in
          writeJSON 201 (JObj
            [(''branch_id'', JStr bid),
             (''connection_uri'', JStr (sprintf ''postgresql://%s@%s:%d/appdb?sslmode=require''
                [Str (p_role p), Str host, Num (cf_proxy_port (sv_cfg sv))])),
             (''database'', JStr ''appdb''), (''endpoint_id'', JStr eid), (''host'', JStr host), (''password'', JNull),
             (''port'', JInt (cf_proxy_port (sv_cfg sv))), (''role'', JStr (p_role p))])"
  let ?persist = "check (CreateBranch ?b ?e)
      (\<lambda>e. bind (DeleteTimeline n ps ?tn tm) (\<lambda>_. writeErr 500 (Error e))) (\<lambda>_. ?answer)"
  have persist: "wp (audit ?G) ?persist (branch_outcome i ps) (u @ [?post l (Inr rs)])"
    if u: "begun i p u" "is_2xx rs" for u l rs
  proof (rule wp_checkI)
    show "wp (audit ?G) (CreateBranch ?b ?e) (\<lambda>r s'. \<exists>v. s' = (u @ [?post l (Inr rs)]) @ [stored_branch ?b ?e v] \<and>
           (case r of Inl e \<Rightarrow> v = Inl e | Inr _ \<Rightarrow> \<exists>w. v = Inr w)) (u @ [?post l (Inr rs)])"
      by (auto simp: CreateBranch_def stored_branch_def exec_reply_def map_sum_def sql_audit split: sum.splits)
  next
    fix e s'
    assume "\<exists>v. s' = (u @ [?post l (Inr rs)]) @ [stored_branch ?b ?e v] \<and>
           (case Inl e of Inl e \<Rightarrow> v = Inl e | Inr _ \<Rightarrow> \<exists>w. v = Inr w)"
    then have s': "s' = (u @ [?post l (Inr rs)]) @ [stored_branch ?b ?e (Inl e)]" by auto
    show "wp (audit ?G) (bind (DeleteTimeline n ps ?tn tm) (\<lambda>_. writeErr 500 (Error e))) (branch_outcome i ps) s'"
      by (rule wp_bindI [OF DeleteTimeline_audit [OF calm_audit]])
        (use undone [OF u] s' in \<open>auto simp: writeErr_def writeJSON_def\<close>)
  next
    fix x :: unit and s'
    assume "\<exists>v. s' = (u @ [?post l (Inr rs)]) @ [stored_branch ?b ?e v] \<and>
           (case Inr x of Inl e \<Rightarrow> v = Inl e | Inr _ \<Rightarrow> \<exists>w. v = Inr w)"
    then obtain v where "s' = (u @ [?post l (Inr rs)]) @ [stored_branch ?b ?e (Inr v)]" by auto
    then show "wp (audit ?G) ?answer (branch_outcome i ps) s'"
      by (simp only: Let_def writeJSON_def wp.simps) (rule created [OF u]; simp)
  qed
  let ?create = "\<lambda>l. check (CreateBranchAtLSN ps ?tn tm ?anc l)
      (\<lambda>e. writeErr 502 (''pageserver: '' @ Error e)) (\<lambda>_. ?persist)"
  have create: "wp (audit ?G) (?create l) (branch_outcome i ps) u"
    if u: "begun i p u" "branch_point c ps ?tn ?anc l u" for u l
  proof -
    have "?G u (?post l h)" for h
      unfolding branch_audit_def using u(2) by (intro allI impI) (auto intro!: exI [of _ ?tn])
    then show ?thesis
      unfolding CreateBranchAtLSN_def
      by (intro wp_checkI [OF expect2xx_audit])
        (use persist [OF u(1)] begun_not_stores [OF u(1)] in
          \<open>auto simp: writeErr_def writeJSON_def simp del: wp_check intro!: branch_refused\<close>)
  qed
  show ?thesis
    unfolding ids provision_branch_def prod.case ps
  proof (rule wp_checkI [OF wait_audit [OF ps sk]])
    fix e :: err and s'
    assume "\<exists>w. s' = s @ w \<and> list_all calm w \<and> (\<forall>l. Inl e = Inr l \<longrightarrow> branch_point c ps ?tn ?anc l w)"
    then have "begun i p s'" using s begun_append by auto
    then show "wp (audit ?G) (writeErr 502 (''branch point not ready: '' @ Error e)) (branch_outcome i ps) s'"
      by (simp add: writeErr_def writeJSON_def branch_refused begun_not_stores)
  next
    fix l s'
    assume "\<exists>w. s' = s @ w \<and> list_all calm w \<and> (\<forall>l'. Inr l = Inr l' \<longrightarrow> branch_point c ps ?tn ?anc l' w)"
    then have "begun i p s'" "branch_point c ps ?tn ?anc l s'" using s begun_append by (auto simp: branch_point_append)
    then show "wp (audit ?G) (?create l) (branch_outcome i ps) s'" by (rule create)
  qed
qed

text \<open>The lookups and draws before it are calm.\<close>

lemma calm_lookups:
  "emits calm (GetProjectByID i)" "emits calm (GetBranchByID i)" "emits calm (ListBranchesByProject i)"
  "emits calm (GetEndpointByBranch i)"
  by (simp_all add: emits_def GetProjectByID_def GetBranchByID_def ListBranchesByProject_def GetEndpointByBranch_def)

lemma calm_draws: "emits is_rand p \<Longrightarrow> emits calm p"
  by (erule emits_mono) (case_tac ev; simp)

lemma calm_bind:
  assumes "emits calm f" and "begun i p s" and "\<And>a s'. begun i p s' \<Longrightarrow> wp (audit (branch_audit c ps)) (k a) Q s'"
  shows "wp (audit (branch_audit c ps)) (bind f k) Q s"
  by (rule wp_bindI [OF audit_emits [OF assms(1) calm_audit]]) (use assms(2,3) begun_append in auto)

lemma calm_check:
  assumes "emits calm f" and "begun i p s"
    and "\<And>e s'. begun i p s' \<Longrightarrow> wp (audit (branch_audit c ps)) (h e) Q s'"
    and "\<And>a s'. begun i p s' \<Longrightarrow> wp (audit (branch_audit c ps)) (k a) Q s'"
  shows "wp (audit (branch_audit c ps)) (check f h k) Q s"
  by (rule wp_checkI [OF audit_emits [OF assms(1) calm_audit]]) (use assms(2-) begun_append in auto)

lemma read_project_reply:
  assumes "or_not_found (query_row_reply as_projects v) = Inr p"
  shows "begun i p [ESql [SelectProject i] v]"
  using assms
  by (auto simp: begun_def read_project_def or_not_found_def query_row_reply_def query_reply_def
      split: sum.splits option.splits list.splits if_splits elim!: as_projects.elims)

lemma createBranch_audit:
  assumes "sv_pageserver sv = ps" and "sv_safekeeper sv = MaxCommitLSN c"
  shows "audited (branch_audit c ps) (createBranch n sv r) (branch_outcome (in_id r) ps)"
proof -
  let ?G = "branch_audit c ps" and ?Q = "branch_outcome (in_id r) ps"
  have err: "wp (audit ?G) (writeErr code m) ?Q s" if "\<forall>ev \<in> set s. \<not> stores ev" "code \<in> {400, 404, 500, 502}" for s code m
    using that by (simp add: writeErr_def writeJSON_def branch_refused)
  have provision: "wp (audit ?G) (bind NewBranchID (\<lambda>b. bind NewEndpointID (\<lambda>e. bind NewHex32 (\<lambda>t.
      provision_branch n sv p parent name (b, e, t))))) ?Q s"
    if "begun (in_id r) p s" for p parent name s
    by (rule calm_bind [OF calm_draws [OF rand_emits(3)] that], rule calm_bind [OF calm_draws [OF rand_emits(4)]], assumption,
        rule calm_bind [OF calm_draws [OF rand_emits(1)]], assumption, rule provision_branch_audit [OF assms])
  have resolve: "wp (audit ?G) (resolve_parent p parentID k) ?Q s"
    if "begun (in_id r) p s" "\<And>parent s'. begun (in_id r) p s' \<Longrightarrow> wp (audit ?G) (k parent) ?Q s'"
    for p parentID k s
    unfolding resolve_parent_def
    using that by (auto intro!: calm_check calm_lookups err begun_not_stores split: option.split simp del: wp_check)
  show ?thesis
  proof (cases "decode_create_branch (in_body r)")
    case None
    then show ?thesis by (simp add: audited_def createBranch_def err del: wp.simps)
  next
    case (Some np)
    obtain name parentID where np: "np = (name, parentID)" by (cases np)
    have "wp (audit ?G) (resolve_parent p parentID (\<lambda>parent. bind NewBranchID (\<lambda>b. bind NewEndpointID (\<lambda>e. bind NewHex32 (\<lambda>t.
        provision_branch n sv p parent name (b, e, t)))))) ?Q [ESql [SelectProject (in_id r)] v]"
      if "or_not_found (query_row_reply as_projects v) = Inr p" for v p
      by (intro resolve provision read_project_reply that)
    then show ?thesis
      unfolding audited_def createBranch_def Some np option.case prod.case with_project_def GetProjectByID_def check_def
      by (auto intro!: err simp: calm_audit simp del: wp_check wp_bind split: sum.split)
  qed
qed

section \<open>Properties\<close>

text \<open>C18. \<^verbatim>\<open>POST /v1/projects\<close> is all or nothing in the state database. A 201 names a project that was
  stored, with its branch and its suspended endpoint, in one transaction, after the page server
  accepted the tenant and the timeline. When storing fails, the deletion of the tenant is requested
  at once, whatever comes of it, and the answer is 500. With any other answer, 400, 500 or 502, no
  statement and no deletion was sent: in particular a tenant whose timeline was refused stays at
  the page server.\<close>

theorem project_creation_all_or_nothing:
  "audited unaudited (createProject s r) (project_outcome s)"
  by (rule createProject_outcome)

text \<open>C15. A branch is created at a committed and ingested position: the only request that
  creates a timeline carries the highest commit position the safekeepers reported for the
  parent's timeline, and the page server had reported a last record at or after it.\<close>

theorem branch_point_is_ingested:
  "audited (branch_audit \<lparr>sk_base_urls = safekeeper_http (st_safekeepers st)\<rparr> \<lparr>ps_base_url = st_pageserver_url st\<rparr>)
     (createBranch n (main_server m st f) r) (\<lambda>_ _. True)"
  using createBranch_audit [OF main_server_parts(1,2)]
  unfolding audited_def by (rule wp_mono) simp

text \<open>C28. \<^verbatim>\<open>POST /v1/projects/{id}/branches\<close> is all or nothing in the state database. A 201 names a
  non-default branch of the project that was read, stored with its suspended endpoint in one
  transaction, after the page server accepted its timeline at that project's tenant. When storing
  fails, the deletion of this timeline, at this tenant, is requested at once and the answer is 500.
  With any other answer nothing was stored.\<close>

theorem branch_creation_all_or_nothing:
  "audited unaudited (createBranch n (main_server m st f) r)
     (branch_outcome (in_id r) \<lparr>ps_base_url = st_pageserver_url st\<rparr>)"
  using createBranch_audit [OF main_server_parts(1,2)] by (rule audited_mono) simp

end
