(* ===== verification/Delete_Facts.thy ===== *)
theory Delete_Facts
  imports Api_Facts
begin

text \<open>
  The two deletions of the REST API, whatever the environment answers: what they may touch,
  in which order, and what an error leaves behind.
\<close>

section \<open>What was read\<close>

definition found_branch :: "string \<Rightarrow> branch \<Rightarrow> event list \<Rightarrow> bool" where
  "found_branch i b tr \<longleftrightarrow> (\<exists>rows. ESql [SelectBranch i] (Inr (BranchRows (b # rows))) \<in> set tr)"

definition found_project :: "string \<Rightarrow> project \<Rightarrow> event list \<Rightarrow> bool" where
  "found_project i p tr \<longleftrightarrow> (\<exists>rows. ESql [SelectProject i] (Inr (ProjectRows (p # rows))) \<in> set tr)"

definition found_endpoint :: "string \<Rightarrow> endpoint \<Rightarrow> event list \<Rightarrow> bool" where
  "found_endpoint b ep tr \<longleftrightarrow> (\<exists>rows. ESql [SelectEndpointOfBranch b] (Inr (EndpointRows (ep # rows))) \<in> set tr)"

definition timeline_gone :: "pageserver_client \<Rightarrow> string \<Rightarrow> string \<Rightarrow> event list \<Rightarrow> bool" where
  "timeline_gone ps tn tm tr \<longleftrightarrow>
     (\<exists>m \<in> {''GET'', ''DELETE''}. requested m (timeline_url ps tn tm) None (\<lambda>rs. rs_code rs = 404) tr)"

lemma found_append [simp]:
  "found_branch i b (tr @ tr') \<longleftrightarrow> found_branch i b tr \<or> found_branch i b tr'"
  "found_project i p (tr @ tr') \<longleftrightarrow> found_project i p tr \<or> found_project i p tr'"
  "found_endpoint i e (tr @ tr') \<longleftrightarrow> found_endpoint i e tr \<or> found_endpoint i e tr'"
  "timeline_gone ps tn tm (tr @ tr') \<longleftrightarrow> timeline_gone ps tn tm tr \<or> timeline_gone ps tn tm tr'"
  by (auto simp: found_branch_def found_project_def found_endpoint_def timeline_gone_def)

lemma row_found:
  "or_not_found (query_row_reply sel v) = Inr x \<longleftrightarrow> (\<exists>w rows. v = Inr w \<and> sel w = Some (x # rows))"
  by (auto simp: or_not_found_def query_row_reply_def query_reply_def ErrNoRows_def scan_error_def
      split: sum.splits option.splits list.splits)

lemma as_rows:
  "as_branches w = Some bs \<longleftrightarrow> w = BranchRows bs" "as_projects w = Some ps \<longleftrightarrow> w = ProjectRows ps"
  "as_endpoints w = Some es \<longleftrightarrow> w = EndpointRows es"
  by (cases w; simp)+

text \<open>Each lookup is one statement; what it returns was found.\<close>

lemma lookup_audit:
  assumes "\<And>q v. reads_only q \<Longrightarrow> G s (ESql [q] v)"
  shows "wp (audit G) (GetBranchByID i) (\<lambda>r s'. \<exists>v. s' = s @ [ESql [SelectBranch i] v] \<and>
      (\<forall>b. r = Inr b \<longleftrightarrow> found_branch i b [ESql [SelectBranch i] v])) s"
    and "wp (audit G) (GetProjectByID i) (\<lambda>r s'. \<exists>v. s' = s @ [ESql [SelectProject i] v] \<and>
      (\<forall>p. r = Inr p \<longleftrightarrow> found_project i p [ESql [SelectProject i] v])) s"
    and "wp (audit G) (GetEndpointByBranch i) (\<lambda>r s'. \<exists>v. s' = s @ [ESql [SelectEndpointOfBranch i] v] \<and>
      (\<forall>ep. r = Inr ep \<longleftrightarrow> found_endpoint i ep [ESql [SelectEndpointOfBranch i] v])) s"
  using assms
  by (auto simp: GetBranchByID_def GetProjectByID_def GetEndpointByBranch_def scanEndpoint_def row_found as_rows
      found_branch_def found_project_def found_endpoint_def)

section \<open>Deleting a timeline\<close>

text \<open>The effects of \<^verbatim>\<open>DeleteTimeline\<close>: its own requests and the clock.\<close>

fun on_timeline :: "string \<Rightarrow> event \<Rightarrow> bool" where
  "on_timeline url (EHttp q h) \<longleftrightarrow> rq_url q = url \<and> rq_method q \<in> {''GET'', ''DELETE''} \<and> rq_body q = None"
| "on_timeline url (ENow t) \<longleftrightarrow> True"
| "on_timeline url (ESleep d r) \<longleftrightarrow> True"
| "on_timeline url ev \<longleftrightarrow> False"

lemma DeleteTimeline_gone:
  assumes "\<And>u ev. on_timeline (timeline_url ps tn tm) ev \<Longrightarrow> G (s @ u) ev"
  shows "wp (audit G) (DeleteTimeline n ps tn tm) (\<lambda>r s'. (\<exists>u. s' = s @ u \<and> list_all (on_timeline (timeline_url ps tn tm)) u) \<and>
      (r = Inr () \<longrightarrow> timeline_gone ps tn tm s')) s"
proof -
  let ?path = "''/v1/tenant/'' @ tn @ ''/timeline/'' @ tm"
  let ?Q = "\<lambda>r s'. (\<exists>u. s' = s @ u \<and> list_all (on_timeline (timeline_url ps tn tm)) u) \<and>
      (r = Inr () \<longrightarrow> timeline_gone ps tn tm s')"
  have loop: "wp (audit G) (await_gone k ps ?path tm d) ?Q (s @ v)"
    if "list_all (on_timeline (timeline_url ps tn tm)) v" for v k d
    using that
  proof (induction k arbitrary: v)
    case (Suc k)
    have again: "wp (audit G) (await_gone k ps ?path tm d) ?Q (s @ v @ w)"
      if "list_all (on_timeline (timeline_url ps tn tm)) w" for w
      using Suc.IH [of "v @ w"] Suc.prems that by simp
    have "timeline_gone ps tn tm [ENow t, EHttp \<lparr>rq_method = ''GET'', rq_url = timeline_url ps tn tm, rq_body = None\<rparr> (Inr rs)]"
      if "rs_code rs = 404" for t rs
      using that by (auto simp: timeline_gone_def requested_def)
    then show ?case
      using Suc.prems assms [where u = v] assms [where u = "v @ [_]"] assms [where u = "v @ [_, _]"] again [of "[_, _, _]"]
      by (auto simp: do_request_def StatusNotFound_def split: sum.split option.split)
  qed simp
  have "timeline_gone ps tn tm [EHttp \<lparr>rq_method = ''DELETE'', rq_url = timeline_url ps tn tm, rq_body = None\<rparr> (Inr rs)]"
    if "rs_code rs = 404" for rs
    using that by (auto simp: timeline_gone_def requested_def)
  then show ?thesis
    using assms [where u = "[]"] assms [where u = "[_]"] loop [of "[_, _]"]
    by (auto simp: DeleteTimeline_def do_request_def Let_def StatusNotFound_def split: sum.split)
qed

section \<open>Deleting a branch\<close>

text \<open>The branch in the scope of the request: the one the path names, of the project the path
  names, and not its default branch.\<close>

definition in_scope :: "request \<Rightarrow> branch \<Rightarrow> event list \<Rightarrow> bool" where
  "in_scope r b tr \<longleftrightarrow> found_branch (in_bid r) b tr \<and> b_project b = in_id r \<and> \<not> b_default b"

definition branch_deletion :: "pageserver_client \<Rightarrow> request \<Rightarrow> event list \<Rightarrow> event \<Rightarrow> bool" where
  "branch_deletion ps r tr ev \<longleftrightarrow>
     (\<forall>qs x. ev = ESql qs x \<longrightarrow> list_all reads_only qs \<or>
        (\<exists>b p. qs = [DeleteBranchRow (b_id b)] \<and> in_scope r b tr \<and> found_project (in_id r) p tr \<and>
           timeline_gone ps (p_tenant p) (b_timeline b) tr)) \<and>
     (\<forall>q h. ev = EHttp q h \<longrightarrow> rq_method q = ''GET'' \<or> rq_method q = ''DELETE'' \<and>
        (\<exists>b p. in_scope r b tr \<and> found_project (in_id r) p tr \<and> rq_url q = timeline_url ps (p_tenant p) (b_timeline b))) \<and>
     (\<forall>c x. ev = EK8s c x \<longrightarrow>
        (\<exists>b ep. in_scope r b tr \<and> found_endpoint (b_id b) ep tr \<and>
           (pod_deleted c = Some (podName (e_id ep)) \<or> (\<exists>ns. c = DeleteConfigMap ns (configMapName (e_id ep))))))"

lemma branch_deletion_simps [simp]:
  "branch_deletion ps r tr (ENow t)" "branch_deletion ps r tr (ESleep d e)"
  "reads_only q \<Longrightarrow> branch_deletion ps r tr (ESql [q] v)"
  by (simp_all add: branch_deletion_def)

lemma branch_deletion_http:
  "branch_deletion ps r tr (EHttp q h) \<longleftrightarrow> rq_method q = ''GET'' \<or> rq_method q = ''DELETE'' \<and>
     (\<exists>b p. in_scope r b tr \<and> found_project (in_id r) p tr \<and> rq_url q = timeline_url ps (p_tenant p) (b_timeline b))"
  by (simp add: branch_deletion_def)

lemma in_scope_append: "in_scope r b tr \<Longrightarrow> in_scope r b (tr @ tr')"
  by (simp add: in_scope_def)

lemma Stop_deletes:
  assumes "in_scope r b s" and "found_endpoint (b_id b) ep s"
  shows "wp (audit (branch_deletion ps r)) (Stop kr (e_id ep)) (\<lambda>_ s'. \<exists>u. s' = s @ u) s"
proof -
  have "branch_deletion ps r (s @ u) ev" if "is_k8s (k8s_deletes (kr_namespace kr) (e_id ep)) ev" for u ev
  proof -
    from that obtain c x where ev: "ev = EK8s c x" "k8s_deletes (kr_namespace kr) (e_id ep) c"
      by (auto elim: is_k8s_elim)
    moreover have "in_scope r b (s @ u)" "found_endpoint (b_id b) ep (s @ u)"
      using assms by (simp_all add: in_scope_append)
    ultimately show ?thesis by (cases c) (auto simp: branch_deletion_def)
  qed
  then show ?thesis by (rule wp_mono [OF audit_emits_from [OF Stop_emits]]) auto
qed

lemma stop_branch_deletes:
  assumes rt: "sv_runtime sv = NewK8sRuntime kr" and "in_scope r b s"
  shows "wp (audit (branch_deletion ps r)) (stop_branch sv (b_id b)) (\<lambda>_ s'. \<exists>u. s' = s @ u) s"
  unfolding stop_branch_def rt
proof (rule wp_checkI [OF lookup_audit(3)])
  fix ep s'
  assume "\<exists>v. s' = s @ [ESql [SelectEndpointOfBranch (b_id b)] v] \<and>
      (\<forall>e. Inr ep = Inr e \<longleftrightarrow> found_endpoint (b_id b) e [ESql [SelectEndpointOfBranch (b_id b)] v])"
  then obtain v where s': "s' = s @ v" and "found_endpoint (b_id b) ep s'" by auto
  with assms(2) have "wp (audit (branch_deletion ps r)) (Stop kr (e_id ep)) (\<lambda>_ s''. \<exists>u. s'' = s' @ u) s'"
    by (intro Stop_deletes) (auto simp: in_scope_append)
  then show "wp (audit (branch_deletion ps r)) (bind (rt_Stop (NewK8sRuntime kr) (e_id ep)) (\<lambda>_. Return ()))
      (\<lambda>_ s'. \<exists>u. s' = s @ u) s'"
    unfolding NewK8sRuntime_def runtime.simps by (rule wp_bindI) (auto simp: s')
qed auto

lemma deleteBranch_audit:
  assumes rt: "sv_runtime sv = NewK8sRuntime kr"
  shows "audited (branch_deletion (sv_pageserver sv) r) (deleteBranch n sv r)
    (\<lambda>resp tr. resp_status resp = 200 \<longrightarrow> (\<exists>b v. in_scope r b tr \<and> ESql [DeleteBranchRow (b_id b)] (Inr v) \<in> set tr))"
proof -
  let ?ps = "sv_pageserver sv" and ?G = "branch_deletion (sv_pageserver sv) r"
  let ?Q = "\<lambda>resp tr. resp_status resp = 200 \<longrightarrow> (\<exists>b v. in_scope r b tr \<and> ESql [DeleteBranchRow (b_id b)] (Inr v) \<in> set tr)"
  let ?row = "\<lambda>b. check (DeleteBranch (b_id b)) (\<lambda>e. writeErr 500 (Error e))
      (\<lambda>_. writeJSON 200 (JObj [(''deleted'', JStr (b_id b))]))"
  have row: "wp (audit ?G) (?row b) ?Q s"
    if "in_scope r b s" "found_project (in_id r) p s" "timeline_gone ?ps (p_tenant p) (b_timeline b) s" for b p s
  proof -
    have "?G s (ESql [DeleteBranchRow (b_id b)] v)" for v
      using that by (auto simp: branch_deletion_def)
    then show ?thesis
      unfolding DeleteBranch_def
      by (rule wp_checkI [OF exec_audit]) (use that(1) in_scope_append in \<open>force simp: writeErr_def writeJSON_def\<close>)+
  qed
  let ?storage = "\<lambda>b p. check (DeleteTimeline n ?ps (p_tenant p) (b_timeline b))
      (\<lambda>e. writeErr 502 (''pageserver: '' @ Error e)) (\<lambda>_. ?row b)"
  have storage: "wp (audit ?G) (?storage b p) ?Q s"
    if "in_scope r b s" "found_project (in_id r) p s" for b p s
  proof (rule wp_checkI [OF DeleteTimeline_gone])
    show "?G (s @ u) ev" if "on_timeline (timeline_url ?ps (p_tenant p) (b_timeline b)) ev" for u ev
    proof -
      have "in_scope r b (s @ u)" "found_project (in_id r) p (s @ u)"
        using \<open>in_scope r b s\<close> \<open>found_project (in_id r) p s\<close> by (simp_all add: in_scope_append)
      note seen = this
      show ?thesis
      proof (cases ev)
        case (EHttp q h)
        with that have "rq_url q = timeline_url ?ps (p_tenant p) (b_timeline b)" "rq_method q \<in> {''GET'', ''DELETE''}"
          by (simp_all only: on_timeline.simps)
        with seen show ?thesis unfolding EHttp branch_deletion_http by blast
      qed (use that in simp_all)
    qed
  next
    fix x :: unit and s'
    assume "(\<exists>u. s' = s @ u \<and> list_all (on_timeline (timeline_url ?ps (p_tenant p) (b_timeline b))) u) \<and>
        (Inr x = Inr () \<longrightarrow> timeline_gone ?ps (p_tenant p) (b_timeline b) s')"
    with that have "in_scope r b s'" "found_project (in_id r) p s'" "timeline_gone ?ps (p_tenant p) (b_timeline b) s'"
      by (auto simp: in_scope_append)
    then show "wp (audit ?G) (?row b) ?Q s'" by (rule row)
  qed (simp add: writeErr_def writeJSON_def)
  have lookup: "?G s (ESql [q] v)" if "reads_only q" for s q v
    using that by simp
  show ?thesis
    unfolding audited_def deleteBranch_def
  proof (rule wp_checkI [OF lookup_audit(1) [where G = ?G, OF lookup]])
    fix b s'
    assume "\<exists>v. s' = [] @ [ESql [SelectBranch (in_bid r)] v] \<and>
        (\<forall>b'. Inr b = Inr b' \<longleftrightarrow> found_branch (in_bid r) b' [ESql [SelectBranch (in_bid r)] v])"
    then have b: "found_branch (in_bid r) b s'" by auto
    have "wp (audit ?G) (check (GetProjectByID (b_project b)) (\<lambda>e. writeErr 500 (Error e)) (\<lambda>p.
        bind (stop_branch sv (b_id b)) (\<lambda>_. ?storage b p))) ?Q s'"
      if "b_project b = in_id r" "\<not> b_default b"
    proof (rule wp_checkI [OF lookup_audit(2) [where G = ?G, OF lookup]])
      fix p s2
      assume "\<exists>v. s2 = s' @ [ESql [SelectProject (b_project b)] v] \<and>
          (\<forall>p'. Inr p = Inr p' \<longleftrightarrow> found_project (b_project b) p' [ESql [SelectProject (b_project b)] v])"
      then have "in_scope r b s2" "found_project (in_id r) p s2" using b that by (auto simp: in_scope_def)
      then show "wp (audit ?G) (bind (stop_branch sv (b_id b)) (\<lambda>_. ?storage b p)) ?Q s2"
        by (intro wp_bindI [OF stop_branch_deletes [OF rt]]) (assumption, clarify, rule storage, simp_all add: in_scope_append)
    qed (simp_all add: writeErr_def writeJSON_def)
    then show "wp (audit ?G) (if b_project b \<noteq> in_id r then writeErr 404 ''branch not found''
        else if b_default b then writeErr 400 ''cannot delete the default branch; delete the project instead''
        else check (GetProjectByID (b_project b)) (\<lambda>e. writeErr 500 (Error e)) (\<lambda>p.
          bind (stop_branch sv (b_id b)) (\<lambda>_. ?storage b p))) ?Q s'"
      by (simp add: writeErr_def writeJSON_def del: wp_check wp_bind)
  qed (simp_all add: writeErr_def writeJSON_def)
qed

section \<open>Deleting a project\<close>

definition stop_tried :: "string \<Rightarrow> branch \<Rightarrow> event list \<Rightarrow> bool" where
  "stop_tried ns b tr \<longleftrightarrow>
     (\<exists>x. ESql [SelectEndpointOfBranch (b_id b)] x \<in> set tr \<and>
        (\<forall>ep. found_endpoint (b_id b) ep [ESql [SelectEndpointOfBranch (b_id b)] x] \<longrightarrow>
           (\<exists>y. EK8s (DeletePod ns (podName (e_id ep))) y \<in> set tr)))"

definition computes_stopped :: "string \<Rightarrow> project \<Rightarrow> event list \<Rightarrow> bool" where
  "computes_stopped ns p tr \<longleftrightarrow>
     (\<exists>bs. ESql [SelectBranchesOf (p_id p)] (Inr (BranchRows bs)) \<in> set tr \<and> (\<forall>b \<in> set bs. stop_tried ns b tr))"

definition project_deletion :: "pageserver_client \<Rightarrow> string \<Rightarrow> request \<Rightarrow> event list \<Rightarrow> event \<Rightarrow> bool" where
  "project_deletion ps ns r tr ev \<longleftrightarrow>
     (\<forall>qs x. ev = ESql qs x \<longrightarrow> list_all reads_only qs \<or>
        (\<exists>p. qs = [DeleteProjectRow (p_id p)] \<and> found_project (in_id r) p tr \<and>
           requested ''DELETE'' (tenant_url ps (p_tenant p)) None is_2xx tr)) \<and>
     (\<forall>q h. ev = EHttp q h \<longrightarrow>
        (\<exists>p. q = \<lparr>rq_method = ''DELETE'', rq_url = tenant_url ps (p_tenant p), rq_body = None\<rparr> \<and>
           found_project (in_id r) p tr \<and> computes_stopped ns p tr))"

text \<open>The answers: 200 when the rows were deleted, 502 when the page server refused, and then
  nothing was stored.\<close>

definition deletion_answer :: "request \<Rightarrow> response \<Rightarrow> event list \<Rightarrow> bool" where
  "deletion_answer r resp tr \<longleftrightarrow>
     (resp_status resp = 200 \<longrightarrow> (\<exists>p v. found_project (in_id r) p tr \<and> ESql [DeleteProjectRow (p_id p)] (Inr v) \<in> set tr)) \<and>
     (\<forall>m url body. requested m url body (\<lambda>rs. \<not> is_2xx rs) tr \<longrightarrow>
        resp_status resp = 502 \<and> (\<forall>ev \<in> set tr. \<not> stores ev))"

fun is_local :: "event \<Rightarrow> bool" where
  "is_local (ESql qs v) = list_all reads_only qs"
| "is_local (EK8s c v) = True"
| "is_local _ = False"

lemma local_allowed: "is_local ev \<Longrightarrow> project_deletion ps ns r tr ev"
  by (cases ev) (simp_all add: project_deletion_def)

lemma local_silent: "list_all is_local tr \<Longrightarrow> \<not> requested m url body P tr" "list_all is_local tr \<Longrightarrow> ev \<in> set tr \<Longrightarrow> \<not> stores ev"
  by (auto simp: requested_def list_all_iff) (metis is_local.simps(1) stores.elims(2))

lemma stop_tried_mono: "stop_tried ns b tr \<Longrightarrow> set tr \<subseteq> set tr' \<Longrightarrow> stop_tried ns b tr'"
  unfolding stop_tried_def by blast

lemma stop_tried_append: "stop_tried ns b u \<or> stop_tried ns b u' \<Longrightarrow> stop_tried ns b (u @ u')"
  by (auto elim: stop_tried_mono)

lemma first_row: "or_not_found (query_row_reply as_endpoints (Inr (EndpointRows (ep # rows)))) = Inr ep"
  by (simp add: row_found)

lemma stop_branch_tried:
  assumes rt: "sv_runtime sv = NewK8sRuntime kr"
  shows "wp (audit (project_deletion ps ns r)) (stop_branch sv (b_id b))
    (\<lambda>_ s'. \<exists>u. s' = s @ u \<and> list_all is_local u \<and> stop_tried (kr_namespace kr) b u) s"
proof -
  have ok: "project_deletion ps ns r tr (EK8s c v)" "project_deletion ps ns r tr (ESql [SelectEndpointOfBranch i] x)" for tr c v i x
    by (simp_all add: project_deletion_def)
  show ?thesis
    by (auto simp: stop_branch_def rt NewK8sRuntime_def Stop_def deleteConfigMap_def GetEndpointByBranch_def scanEndpoint_def
        row_found as_rows first_row ok stop_tried_def found_endpoint_def split: sum.split)
qed

lemma stop_branches_tried:
  assumes rt: "sv_runtime sv = NewK8sRuntime kr"
  shows "wp (audit (project_deletion ps ns r)) (stop_branches sv bs)
    (\<lambda>_ s'. \<exists>u. s' = s @ u \<and> list_all is_local u \<and> (\<forall>b \<in> set bs. stop_tried (kr_namespace kr) b u)) s"
proof (induction bs arbitrary: s)
  case (Cons b bs)
  show ?case
    unfolding stop_branches.simps
    by (rule wp_bindI [OF stop_branch_tried [OF rt]], clarify, rule wp_mono [OF Cons.IH])
      (auto intro!: stop_tried_append)
qed simp

lemma deleteProject_audit:
  assumes rt: "sv_runtime sv = NewK8sRuntime kr"
  shows "audited (project_deletion (sv_pageserver sv) (kr_namespace kr) r) (deleteProject sv r) (deletion_answer r)"
proof -
  let ?ps = "sv_pageserver sv" and ?G = "project_deletion (sv_pageserver sv) (kr_namespace kr) r"
  let ?url = "\<lambda>p. \<lparr>rq_method = ''DELETE'', rq_url = tenant_url ?ps (p_tenant p), rq_body = None\<rparr>"
  have refused: "wp (audit ?G) (writeErr c m) (deletion_answer r) s" if "list_all is_local s" "c \<noteq> 200" for c m s
    using that by (simp add: writeErr_def writeJSON_def deletion_answer_def local_silent)
  have rows: "wp (audit ?G) (check (DeleteProject (p_id p)) (\<lambda>e. writeErr 500 (Error e))
      (\<lambda>_. writeJSON 200 (JObj [(''deleted'', JStr (p_id p))]))) (deletion_answer r) (s @ [EHttp (?url p) (Inr rs)])"
    if s: "list_all is_local s" "found_project (in_id r) p s" and rs: "is_2xx rs" for p s rs
  proof -
    let ?s = "s @ [EHttp (?url p) (Inr rs)]"
    have ok: "?G ?s (ESql [DeleteProjectRow (p_id p)] v)" for v
      using that unfolding project_deletion_def by (auto simp: requested_def)
    have quiet: "\<not> requested m u body (\<lambda>rs. \<not> is_2xx rs) (?s @ [ESql qs v])" for m u body qs v
      using local_silent(1) [OF s(1), of m u body "\<lambda>rs. \<not> is_2xx rs"] rs by simp (auto simp: requested_def)
    show ?thesis
      unfolding DeleteProject_def
    proof (rule wp_checkI [OF exec_audit [where G = ?G, OF ok]])
      fix e s'
      assume "(\<exists>e'. Inl e = Inl e' \<and> s' = ?s @ [ESql [DeleteProjectRow (p_id p)] (Inl e')]) \<or>
          (\<exists>w. Inl e = Inr () \<and> s' = ?s @ [ESql [DeleteProjectRow (p_id p)] (Inr w)])"
      with quiet show "wp (audit ?G) (writeErr 500 (Error e)) (deletion_answer r) s'"
        by (auto simp: writeErr_def writeJSON_def deletion_answer_def simp del: requested_append append_assoc)
    next
      fix x :: unit and s'
      assume "(\<exists>e'. Inr x = Inl e' \<and> s' = ?s @ [ESql [DeleteProjectRow (p_id p)] (Inl e')]) \<or>
          (\<exists>w. Inr x = Inr () \<and> s' = ?s @ [ESql [DeleteProjectRow (p_id p)] (Inr w)])"
      then obtain w where s': "s' = ?s @ [ESql [DeleteProjectRow (p_id p)] (Inr w)]" by auto
      have "found_project (in_id r) p s'" "ESql [DeleteProjectRow (p_id p)] (Inr w) \<in> set s'" using s' s(2) by simp_all
      with quiet show "wp (audit ?G) (writeJSON 200 (JObj [(''deleted'', JStr (p_id p))])) (deletion_answer r) s'"
        unfolding writeJSON_def deletion_answer_def s' wp.simps by blast
    qed
  qed
  let ?rows = "\<lambda>p. check (DeleteProject (p_id p)) (\<lambda>e. writeErr 500 (Error e))
      (\<lambda>_. writeJSON 200 (JObj [(''deleted'', JStr (p_id p))]))"
  let ?tenant = "\<lambda>p. check (DeleteTenant ?ps (p_tenant p)) (\<lambda>e. writeErr 502 (''pageserver: '' @ Error e)) (\<lambda>_. ?rows p)"
  have tenant: "wp (audit ?G) (?tenant p) (deletion_answer r) s"
    if s: "list_all is_local s" "found_project (in_id r) p s" "computes_stopped (kr_namespace kr) p s" for p s
    unfolding DeleteTenant_def
  proof (rule wp_checkI [OF expect2xx_audit])
    fix h
    show "?G s (EHttp \<lparr>rq_method = ''DELETE'', rq_url = ps_base_url ?ps @ ''/v1/tenant/'' @ p_tenant p, rq_body = None\<rparr> h)"
      using s(2,3) unfolding project_deletion_def by blast
  next
    fix e s'
    assume "\<exists>h. s' = s @ [EHttp \<lparr>rq_method = ''DELETE'', rq_url = ps_base_url ?ps @ ''/v1/tenant/'' @ p_tenant p, rq_body = None\<rparr> h] \<and>
        ((Inl e :: err + unit) = Inr () \<longleftrightarrow> (\<exists>rs. h = Inr rs \<and> is_2xx rs))"
    then show "wp (audit ?G) (writeErr 502 (''pageserver: '' @ Error e)) (deletion_answer r) s'"
      using local_silent(2) [OF s(1)] by (auto simp: writeErr_def writeJSON_def deletion_answer_def)
  next
    fix x s'
    assume "\<exists>h. s' = s @ [EHttp \<lparr>rq_method = ''DELETE'', rq_url = ps_base_url ?ps @ ''/v1/tenant/'' @ p_tenant p, rq_body = None\<rparr> h] \<and>
        (Inr x = Inr () \<longleftrightarrow> (\<exists>rs. h = Inr rs \<and> is_2xx rs))"
    then obtain rs where "s' = s @ [EHttp (?url p) (Inr rs)]" "is_2xx rs" by auto
    then show "wp (audit ?G) (?rows p) (deletion_answer r) s'" using rows [OF s(1,2)] by (simp only:)
  qed
  have ok: "?G s (ESql [q] v)" if "reads_only q" for s q v
    using that by (simp add: local_allowed)
  show ?thesis
    unfolding audited_def deleteProject_def with_project_def
  proof (rule wp_checkI [OF lookup_audit(2) [where G = ?G, OF ok]])
    fix p s1
    assume "\<exists>v. s1 = [] @ [ESql [SelectProject (in_id r)] v] \<and>
        (\<forall>p'. Inr p = Inr p' \<longleftrightarrow> found_project (in_id r) p' [ESql [SelectProject (in_id r)] v])"
    then have s1: "list_all is_local s1" "found_project (in_id r) p s1" by auto
    show "wp (audit ?G) (check (ListBranchesByProject (p_id p)) (\<lambda>e. writeErr 500 (Error e)) (\<lambda>bs.
        bind (stop_branches sv bs) (\<lambda>_. ?tenant p))) (deletion_answer r) s1"
    proof (rule wp_checkI)
      show "wp (audit ?G) (ListBranchesByProject (p_id p)) (\<lambda>res s'. \<exists>v. s' = s1 @ [ESql [SelectBranchesOf (p_id p)] v] \<and>
          (\<forall>bs. res = Inr bs \<longrightarrow> v = Inr (BranchRows bs))) s1"
        by (auto simp: ListBranchesByProject_def query_reply_def as_rows local_allowed split: sum.splits option.splits)
    next
      fix bs s2
      assume "\<exists>v. s2 = s1 @ [ESql [SelectBranchesOf (p_id p)] v] \<and> (\<forall>bs'. Inr bs = Inr bs' \<longrightarrow> v = Inr (BranchRows bs'))"
      then have s2: "list_all is_local s2" "found_project (in_id r) p s2"
        "ESql [SelectBranchesOf (p_id p)] (Inr (BranchRows bs)) \<in> set s2" using s1 by auto
      show "wp (audit ?G) (bind (stop_branches sv bs) (\<lambda>_. ?tenant p)) (deletion_answer r) s2"
      proof (rule wp_bindI [OF stop_branches_tried [OF rt]])
        fix a s3
        assume "\<exists>u. s3 = s2 @ u \<and> list_all is_local u \<and> (\<forall>b \<in> set bs. stop_tried (kr_namespace kr) b u)"
        then obtain u where u: "s3 = s2 @ u" "list_all is_local u" "\<forall>b \<in> set bs. stop_tried (kr_namespace kr) b u" by auto
        then have "computes_stopped (kr_namespace kr) p s3"
          unfolding computes_stopped_def using s2(3) by (intro exI [of _ bs]) (auto intro!: stop_tried_append)
        with s2 u show "wp (audit ?G) (?tenant p) (deletion_answer r) s3" by (intro tenant) simp_all
      qed
    qed (use s1 in \<open>auto intro!: refused simp del: wp.simps\<close>)
  qed (auto intro!: refused)
qed

section \<open>Properties\<close>

text \<open>\<^verbatim>\<open>DeleteTimeline\<close> reports success only when the page server answered 404 for the
  timeline, to the deletion or to a later look; and it asks for nothing but this timeline.\<close>

lemma timeline_deletion_confirmed:
  "audited (\<lambda>tr ev. on_timeline (timeline_url ps tn tm) ev) (DeleteTimeline n ps tn tm)
     (\<lambda>r tr. case r of Inl e \<Rightarrow> True | Inr _ \<Rightarrow> timeline_gone ps tn tm tr)"
  unfolding audited_def by (rule wp_mono [OF DeleteTimeline_gone]) (auto split: sum.split)

text \<open>C17. \<^verbatim>\<open>DELETE /v1/projects/{id}/branches/{bid}\<close> touches only the branch the path names, and
  only when it belongs to the project the path names and is not its default branch: it stops
  only this branch's compute, deletes only its timeline, and removes its row, the only
  write to the database, only once the page server knows the timeline no more.\<close>

theorem branch_deletion_in_scope:
  "audited (branch_deletion \<lparr>ps_base_url = st_pageserver_url st\<rparr> r) (deleteBranch n (main_server m st f) r)
    (\<lambda>resp tr. if resp_status resp = 200
       then \<exists>b v. in_scope r b tr \<and> ESql [DeleteBranchRow (b_id b)] (Inr v) \<in> set tr else True)"
  using deleteBranch_audit [OF main_server_parts(3)] by simp

text \<open>C20. \<^verbatim>\<open>DELETE /v1/projects/{id}\<close> asks the page server to delete the tenant only after it looked up
  the endpoint of every listed branch and, where it found one, requested the deletion of its pod; it
  deletes the rows, its only write, only after the page server confirmed. When the page server refuses, with a 404 as with any other answer
  outside 2xx, the rows stay and the answer is 502: a project whose tenant is already gone
  cannot be deleted.\<close>

theorem project_deleted_after_tenant:
  "audited (project_deletion \<lparr>ps_base_url = st_pageserver_url st\<rparr> (st_namespace st) r)
    (deleteProject (main_server m st f) r) (deletion_answer r)"
  using deleteProject_audit [OF main_server_parts(3)] by simp

end
