(* ===== verification/Waker.thy ===== *)
theory Waker
  imports Traces Proxycontract
begin

text \<open>
  The interface \<^verbatim>\<open>Waker\<close>, which \<^verbatim>\<open>internal/api\<close> and \<^verbatim>\<open>internal/proxycontract\<close> both declare and
  the waker of \<^verbatim>\<open>internal/wake\<close> provides: a client gets an error, or an address that the effects
  up to then back. The locale states the contract; its lemmas are what the two clients make of it.
\<close>

text \<open>The first row of the access control query, as the endpoint's lookup returns it.\<close>

lemma row_access:
  "or_not_found (query_row_reply as_access v) = Inr ac \<longleftrightarrow> (\<exists>rows. v = Inr (AccessRows (ac # rows)))"
  by (auto simp: or_not_found_def query_row_reply_def query_reply_def ErrNoRows_def scan_error_def
      split: sum.splits option.splits list.splits elim!: as_access.elims)

definition looked_up :: "string \<Rightarrow> event list \<Rightarrow> event \<Rightarrow> bool" where
  "looked_up i tr ev \<longleftrightarrow>
     (case tr of [] \<Rightarrow> \<exists>v. ev = ESql [SelectAccess i] v
      | ev1 # _ \<Rightarrow> \<exists>ac rows. ev1 = ESql [SelectAccess i] (Inr (AccessRows (ac # rows))))"

definition answers_address :: "(string \<Rightarrow> event list \<Rightarrow> bool) \<Rightarrow> response \<Rightarrow> event list \<Rightarrow> bool" where
  "answers_address backed resp tr \<longleftrightarrow>
     (if resp_status resp = 200
      then \<exists>addr. member ''address'' (resp_body resp) = Some (JStr addr) \<and> backed addr tr else True)"

locale waker_interface =
  fixes wake :: "string \<Rightarrow> (err + string) prog"
    and backed :: "string \<Rightarrow> string \<Rightarrow> event list \<Rightarrow> bool"
  assumes wake_backed:
    "wp (audit unaudited) (wake i) (\<lambda>r tr. case r of Inl e \<Rightarrow> True | Inr addr \<Rightarrow> backed i addr tr) s"
begin

lemma debugStart_answers:
  assumes "sv_waker s = wake"
  shows "audited unaudited (debugStart s r) (answers_address (backed (in_id r)))"
  unfolding audited_def debugStart_def assms
  by (rule wp_checkI [OF wake_backed]) (simp_all add: answers_address_def writeErr_def writeJSON_def)

lemma wakeCompute_answers:
  "audited (looked_up (in_query r ''endpointish'')) (wakeCompute wake r)
     (answers_address (backed (in_query r ''endpointish'')))"
proof -
  let ?i = "in_query r ''endpointish''"
  let ?G = "looked_up ?i" and ?Q = "answers_address (backed ?i)"
  have woken: "wp (audit ?G) (wake ?i) (\<lambda>r tr. case r of Inl e \<Rightarrow> True | Inr addr \<Rightarrow> backed ?i addr tr)
      [ESql [SelectAccess ?i] (Inr (AccessRows (ac # rows)))]" for ac rows
    by (rule audit_permits [OF wake_backed]) (simp add: looked_up_def)
  have access: "wp (audit ?G) (GetAccessControl ?i) (\<lambda>a s'. \<exists>v. s' = [ESql [SelectAccess ?i] v] \<and>
      (\<forall>ac. a = Inr ac \<longrightarrow> (\<exists>rows. v = Inr (AccessRows (ac # rows))))) []"
    by (auto simp: GetAccessControl_def row_access looked_up_def)
  show ?thesis
    unfolding audited_def wakeCompute_def with_access_def Let_def
  proof (rule wp_checkI [OF access], goal_cases)
    case (2 a s')
    then obtain rows where "s' = [ESql [SelectAccess ?i] (Inr (AccessRows (a # rows)))]" by auto
    then show ?case
      by (simp only:) (rule wp_checkI [OF woken]; simp add: writeCPError_def writeJSON_def answers_address_def)
  qed (simp add: writeCPError_def writeJSON_def answers_address_def)
qed

end

end
