(* ===== verification/Wake_Facts.thy ===== *)
theory Wake_Facts
  imports Waker Controlplane
begin

text \<open>
  What a single wake does and returns, whatever happens around it: the address it returns is
  confirmed, a failed start sends its clean-up, a takeover follows a look at a stale row, and the
  polling loops end.
\<close>

section \<open>The address is confirmed\<close>

text \<open>A wake's answer rests on a pod seen \<^verbatim>\<open>Running\<close> at the stored address, or on a start that
  first saw the pod's \<^verbatim>\<open>/status\<close> report \<^verbatim>\<open>running\<close> and then, last of all, stored the address.\<close>

definition saw_pod :: "string \<Rightarrow> string \<Rightarrow> (pod_view \<Rightarrow> bool) \<Rightarrow> event list \<Rightarrow> bool" where
  "saw_pod ns i P tr \<longleftrightarrow> (\<exists>p. EK8s (GetPod ns (podName i)) (Inr (PodObject p)) \<in> set tr \<and> P p)"

definition reported_running :: "string \<Rightarrow> event list \<Rightarrow> bool" where
  "reported_running ip tr \<longleftrightarrow>
     (\<exists>rs. EHttp \<lparr>rq_method = ''GET'', rq_url = sprintf ''http://%s:3080/status'' [Str ip], rq_body = None\<rparr> (Inr rs)
        \<in> set tr \<and> fst (decode_status (rs_body rs)) = ''running'')"

definition confirmed :: "string \<Rightarrow> string \<Rightarrow> string \<Rightarrow> event list \<Rightarrow> bool" where
  "confirmed ns i addr tr \<longleftrightarrow>
     addr \<noteq> [] \<and> saw_pod ns i (\<lambda>p. pv_phase p = ''Running'' \<and> HasPrefix addr (pv_ip p @ '':'')) tr \<or>
     (\<exists>ip. ip \<noteq> [] \<and> addr = sprintf ''%s:%d'' [Str ip, Num ComputePort] \<and>
        (\<exists>u v. tr = u @ [ESql [UpdateRunning i addr] (Inr v)] \<and>
           saw_pod ns i (\<lambda>p. pv_ip p = ip) u \<and> reported_running ip u))"

lemma saw_pod_simps [simp]:
  "saw_pod ns i P (tr @ tr') \<longleftrightarrow> saw_pod ns i P tr \<or> saw_pod ns i P tr'"
  "saw_pod ns i P (ev # tr) \<longleftrightarrow>
     (\<exists>p. ev = EK8s (GetPod ns (podName i)) (Inr (PodObject p)) \<and> P p) \<or> saw_pod ns i P tr"
  "\<not> saw_pod ns i P []"
  by (auto simp: saw_pod_def)

lemma saw_pod_mono: "saw_pod ns i P tr \<Longrightarrow> (\<And>p. P p \<Longrightarrow> Q p) \<Longrightarrow> saw_pod ns i Q tr"
  by (auto simp: saw_pod_def)

lemma reported_simps [simp]:
  "reported_running ip (tr @ tr') \<longleftrightarrow> reported_running ip tr \<or> reported_running ip tr'"
  "reported_running ip (ev # tr) \<longleftrightarrow>
     (\<exists>rs. ev = EHttp \<lparr>rq_method = ''GET'', rq_url = sprintf ''http://%s:3080/status'' [Str ip], rq_body = None\<rparr> (Inr rs)
        \<and> fst (decode_status (rs_body rs)) = ''running'') \<or> reported_running ip tr"
  "\<not> reported_running ip []"
  by (auto simp: reported_running_def)

text \<open>A result that is good after some trace is good after a longer one.\<close>

definition ready :: "string \<Rightarrow> string \<Rightarrow> err + string \<Rightarrow> event list \<Rightarrow> bool" where
  "ready ns i r tr \<longleftrightarrow>
     (case r of Inl e \<Rightarrow> True
      | Inr ip \<Rightarrow> ip \<noteq> [] \<and> saw_pod ns i (\<lambda>p. pv_ip p = ip) tr \<and> reported_running ip tr)"

lemma main_parts [simp]:
  "wk_runtime (main_waker st) = NewK8sRuntime \<lparr>kr_namespace = st_namespace st, kr_image = st_image st\<rparr>"
  "wk_spec (main_waker st) = specBuilder st"
  "statusURL (main_waker st) ip = sprintf ''http://%s:3080/status'' [Str ip]"
  "readyTimeout (main_waker st) = 120 * second"
  "pollInterval (main_waker st) = 500 * millisecond"
  by (simp_all add: main_waker_def main_runtime_def statusURL_def readyTimeout_def pollInterval_def)

lemma runtime_parts [simp]:
  "rt_Start (NewK8sRuntime r) = Start r" "rt_Stop (NewK8sRuntime r) = Stop r"
  "rt_Status (NewK8sRuntime r) = Status r"
  by (simp_all add: NewK8sRuntime_def)

lemma Status_saw:
  "wp (audit unaudited) (Status r i) (\<lambda>a s'. (\<exists>u. s' = s @ u) \<and>
     (\<forall>st. a = Inr st \<and> ps_exists st \<longrightarrow>
        saw_pod (kr_namespace r) i (\<lambda>p. pv_ip p = ps_ip st) s' \<and>
        saw_pod (kr_namespace r) i (\<lambda>p. pv_ip p = ps_ip st \<and> pv_phase p = ps_phase st) s')) s"
  by (auto simp: Status_def split: sum.split k8s_object.split)

lemma ready_simps [simp]:
  "ready ns i (Inl e) tr"
  "ready ns i (Inr ip) tr \<longleftrightarrow> ip \<noteq> [] \<and> saw_pod ns i (\<lambda>p. pv_ip p = ip) tr \<and> reported_running ip tr"
  by (simp_all add: ready_def)

lemma probe_ready:
  "wp (audit unaudited) (probe (main_waker st) i) (\<lambda>v s'.
     \<forall>r. v = Some r \<longrightarrow> ready (st_namespace st) i r s') s"
  unfolding probe_def wp_bind main_parts runtime_parts
  by (rule wp_mono [OF Status_saw]) (auto split: sum.split prod.split)

lemma waitReady_ready:
  "wp (audit unaudited) (waitReady n (main_waker st) i) (\<lambda>r s'. ready (st_namespace st) i r s') s"
proof -
  have loop: "wp (audit unaudited) (waitReady_loop n (main_waker st) i d) (\<lambda>r s'. ready (st_namespace st) i r s') s" for d s
  proof (induction n arbitrary: s)
    case (Suc n)
    then show ?case
      unfolding waitReady_loop.simps
      by (auto split: option.split intro!: wp_mono [OF probe_ready])
  qed simp
  then show ?thesis by (simp add: waitReady_def)
qed

definition confirmed_result :: "string \<Rightarrow> string \<Rightarrow> err + string \<Rightarrow> event list \<Rightarrow> bool" where
  "confirmed_result ns i r tr \<longleftrightarrow> (case r of Inl e \<Rightarrow> True | Inr addr \<Rightarrow> confirmed ns i addr tr)"

lemma confirmed_simps [simp]:
  "confirmed_result ns i (Inl e) tr" "confirmed_result ns i (Inr addr) tr \<longleftrightarrow> confirmed ns i addr tr"
  by (simp_all add: confirmed_result_def)

lemma confirmed_pod:
  "addr \<noteq> [] \<Longrightarrow> HasPrefix addr (ip @ '':'') \<Longrightarrow>
     saw_pod ns i (\<lambda>p. pv_ip p = ip \<and> pv_phase p = ''Running'') tr \<Longrightarrow> confirmed ns i addr tr"
  by (auto simp: confirmed_def elim: saw_pod_mono)

lemma confirmed_start:
  "ready ns i (Inr ip) tr \<Longrightarrow> addr = sprintf ''%s:%d'' [Str ip, Num ComputePort] \<Longrightarrow>
     confirmed ns i addr (tr @ [ESql [UpdateRunning i addr] (Inr v)])"
  unfolding confirmed_def by (intro disjI2 exI [of _ ip]) simp

lemma start_fail_confirmed:
  "wp (audit unaudited) (start_fail w i e) (\<lambda>r s'. confirmed_result ns i r s') s"
  unfolding start_fail_def wp_bind
  by (rule wp_mono [OF audit_extends], rule wp_mono [OF audit_extends]) simp

lemma startCompute_confirmed:
  "wp (audit unaudited) (startCompute n (main_waker st) i) (\<lambda>r s'. confirmed_result (st_namespace st) i r s') s"
proof -
  note failed = start_fail_confirmed
  have run: "wp (audit unaudited) (check (SetEndpointRunning i addr) (\<lambda>e. start_fail (main_waker st) i e)
      (\<lambda>_. returns addr)) (\<lambda>r s'. confirmed_result (st_namespace st) i r s') s"
    if "ready (st_namespace st) i (Inr ip) s" "addr = sprintf ''%s:%d'' [Str ip, Num ComputePort]" for ip addr s
  proof -
    have "(case exec_reply r of Inl e \<Rightarrow> wp (audit unaudited) (start_fail (main_waker st) i e)
             (\<lambda>r s'. confirmed_result (st_namespace st) i r s')
           | Inr _ \<Rightarrow> wp (audit unaudited) (returns addr) (\<lambda>r s'. confirmed_result (st_namespace st) i r s'))
        (s @ [ESql [UpdateRunning i addr] r])" for r
      using confirmed_start [OF that] by (cases r) (simp_all add: failed exec_reply_def)
    then show ?thesis by (simp add: SetEndpointRunning_def)
  qed
  have ready: "wp (audit unaudited) (check (waitReady n (main_waker st) i) (\<lambda>e. start_fail (main_waker st) i e)
      (\<lambda>podIP. (let addr = sprintf ''%s:%d'' [Str podIP, Num ComputePort] in
         check (SetEndpointRunning i addr) (\<lambda>e. start_fail (main_waker st) i e) (\<lambda>_. returns addr))))
      (\<lambda>r s'. confirmed_result (st_namespace st) i r s') s" for s
    unfolding wp_check [of _ "waitReady n (main_waker st) i"] Let_def
    by (rule wp_mono [OF waitReady_ready])
      (auto simp del: wp_check ready_simps(2) sprintf.simps intro!: run failed split: sum.split)
  have start: "wp (audit unaudited) (check (rt_Start rt i cfg) (\<lambda>e. start_fail (main_waker st) i (f e))
      (\<lambda>_. check (waitReady n (main_waker st) i) (\<lambda>e. start_fail (main_waker st) i e)
      (\<lambda>podIP. (let addr = sprintf ''%s:%d'' [Str podIP, Num ComputePort] in
         check (SetEndpointRunning i addr) (\<lambda>e. start_fail (main_waker st) i e) (\<lambda>_. returns addr)))))
      (\<lambda>r s'. confirmed_result (st_namespace st) i r s') s" for rt cfg f s
    unfolding wp_check [of _ "rt_Start rt i cfg"]
    by (rule wp_mono [OF audit_extends]) (simp only: failed ready split: sum.split, simp)
  show ?thesis
    unfolding startCompute_def wp_check [of _ "wk_spec (main_waker st) i"]
    by (rule wp_mono [OF audit_extends]) (simp only: failed start split: sum.split, simp)
qed

lemma Wake_loop_confirmed:
  "wp (audit unaudited) (Wake_loop n (main_waker st) i d) (\<lambda>r s'. confirmed_result (st_namespace st) i r s') s"
proof (induction n arbitrary: s)
  case (Suc n)
  have again: "wp (audit unaudited) (check p fails (\<lambda>_. Wake_loop n (main_waker st) i d))
      (\<lambda>r s'. confirmed_result (st_namespace st) i r s') s" for p :: "(err + 'b) prog" and s
    unfolding wp_check by (rule wp_mono [OF audit_extends]) (simp add: Suc split: sum.split)
  have verify: "wp (audit unaudited) (check (rt_Status (wk_runtime (main_waker st)) i) fails (\<lambda>ps.
      if ps_exists ps \<and> ps_phase ps = ''Running'' \<and> addr \<noteq> [] \<and> HasPrefix addr (ps_ip ps @ '':'')
      then returns addr
      else check (TransitionEndpoint i ''running'' ''suspended'') fails
             (\<lambda>_. Wake_loop n (main_waker st) i d))) (\<lambda>r s'. confirmed_result (st_namespace st) i r s') s" for addr s
    unfolding main_parts runtime_parts
      wp_check [of _ "Status \<lparr>kr_namespace = st_namespace st, kr_image = st_image st\<rparr> i"]
    by (rule wp_mono [OF Status_saw])
      (auto simp del: wp_check intro!: again split: sum.split intro: confirmed_pod)
  have compete: "wp (audit unaudited) (check (cas_any froms i to) fails (\<lambda>won.
      case won of None \<Rightarrow> Wake_loop n (main_waker st) i d | Some _ \<Rightarrow> p))
      (\<lambda>r s'. confirmed_result (st_namespace st) i r s') s"
    if "\<And>s. wp (audit unaudited) p (\<lambda>r s'. confirmed_result (st_namespace st) i r s') s" for froms to p s
    unfolding wp_check by (rule wp_mono [OF audit_extends]) (simp add: Suc that split: sum.split option.split)
  have stop_start: "wp (audit unaudited) (bind p (\<lambda>_. startCompute n (main_waker st) i))
      (\<lambda>r s'. confirmed_result (st_namespace st) i r s') s" for p :: "'c prog" and s
    unfolding wp_bind by (rule wp_mono [OF audit_extends]) (rule startCompute_confirmed)
  have act: "wp (audit unaudited) (case action of
      VerifyRunning addr \<Rightarrow>
        check (rt_Status (wk_runtime (main_waker st)) i) fails (\<lambda>ps.
          if ps_exists ps \<and> ps_phase ps = ''Running'' \<and> addr \<noteq> [] \<and> HasPrefix addr (ps_ip ps @ '':'')
          then returns addr
          else check (TransitionEndpoint i ''running'' ''suspended'') fails (\<lambda>_. Wake_loop n (main_waker st) i d))
    | Take_over \<Rightarrow> check (cas_any [''starting'', ''suspending''] i ''starting'') fails (\<lambda>won.
        case won of None \<Rightarrow> Wake_loop n (main_waker st) i d
        | Some _ \<Rightarrow> bind (rt_Stop (wk_runtime (main_waker st)) i) (\<lambda>_. startCompute n (main_waker st) i))
    | Wait \<Rightarrow> Sleep (pollInterval (main_waker st)) (\<lambda>c. case c of None \<Rightarrow> Wake_loop n (main_waker st) i d | Some e \<Rightarrow> fails e)
    | Start_it \<Rightarrow> check (cas_any [''suspended'', ''failed''] i ''starting'') fails (\<lambda>won.
        case won of None \<Rightarrow> Wake_loop n (main_waker st) i d | Some _ \<Rightarrow> startCompute n (main_waker st) i))
    (\<lambda>r s'. confirmed_result (st_namespace st) i r s') s" for action s
    by (cases action) (simp_all only: wake_action.case verify compete stop_start startCompute_confirmed,
        simp add: Suc split: option.split)
  have body: "wp (audit unaudited) (Now (\<lambda>now. if now < d then
      check (WithEndpointLock i (decide i)) fails (f now) else fails e))
      (\<lambda>r s'. confirmed_result (st_namespace st) i r s') s"
    if "\<And>now action s. wp (audit unaudited) (f now action) (\<lambda>r s'. confirmed_result (st_namespace st) i r s') s"
    for f e s
    using that by (auto split: sum.split intro!: wp_mono [OF audit_extends])
  show ?case unfolding Wake_loop.simps by (rule body) (rule act)
qed simp

section \<open>The clean-up of a failed start\<close>

text \<open>A start ends either by storing the address, or, whatever went wrong, by asking for the
  deletion of the pod and for the endpoint to be marked failed.\<close>

definition clean_up_sent :: "string \<Rightarrow> string \<Rightarrow> event list \<Rightarrow> bool" where
  "clean_up_sent ns i tr \<longleftrightarrow>
     (\<exists>tr1 tr2 r r'. tr = tr1 @ EK8s (DeletePod ns (podName i)) r # tr2
         @ [ESql [UpdateState i ''starting'' ''failed''] r'])"

definition ended_well :: "string \<Rightarrow> string \<Rightarrow> event list \<Rightarrow> bool" where
  "ended_well i addr tr \<longleftrightarrow> (\<exists>tr1 v. tr = tr1 @ [ESql [UpdateRunning i addr] (Inr v)])"

definition start_outcome :: "string \<Rightarrow> string \<Rightarrow> err + string \<Rightarrow> event list \<Rightarrow> bool" where
  "start_outcome ns i r tr \<longleftrightarrow> (case r of Inl e \<Rightarrow> clean_up_sent ns i tr | Inr addr \<Rightarrow> ended_well i addr tr)"

lemma start_fail_outcome:
  "wp (audit unaudited) (start_fail (main_waker st) i e) (\<lambda>r s'. start_outcome (st_namespace st) i r s') s"
proof -
  have stop: "wp (audit unaudited) (Stop r i)
      (\<lambda>a s'. \<exists>x tr2. s' = s @ EK8s (DeletePod (kr_namespace r) (podName i)) x # tr2) s" for r
    by (auto simp: Stop_def deleteConfigMap_def split: sum.split)
  show ?thesis
    unfolding start_fail_def wp_bind main_parts runtime_parts
    by (rule wp_mono [OF stop]) (auto simp: TransitionEndpoint_def start_outcome_def clean_up_sent_def)
qed

lemma startCompute_outcome:
  "wp (audit unaudited) (startCompute n (main_waker st) i) (\<lambda>r s'. start_outcome (st_namespace st) i r s') s"
proof -
  note failed = start_fail_outcome
  have step: "wp (audit unaudited) (check p (\<lambda>e. start_fail (main_waker st) i (f e)) k)
      (\<lambda>r s'. start_outcome (st_namespace st) i r s') s"
    if "\<And>x s. wp (audit unaudited) (k x) (\<lambda>r s'. start_outcome (st_namespace st) i r s') s"
    for p :: "(err + 'a) prog" and f k s
    unfolding wp_check by (rule wp_mono [OF audit_extends]) (simp add: failed that split: sum.split)
  have store: "wp (audit unaudited) (check (SetEndpointRunning i addr) (\<lambda>e. start_fail (main_waker st) i e)
      (\<lambda>_. returns addr)) (\<lambda>r s'. start_outcome (st_namespace st) i r s') s" for addr s
  proof -
    have "(case exec_reply r of Inl e \<Rightarrow> wp (audit unaudited) (start_fail (main_waker st) i e)
             (\<lambda>r s'. start_outcome (st_namespace st) i r s')
           | Inr _ \<Rightarrow> wp (audit unaudited) (returns addr) (\<lambda>r s'. start_outcome (st_namespace st) i r s'))
        (s @ [ESql [UpdateRunning i addr] r])" for r
      by (cases r) (simp_all add: failed exec_reply_def start_outcome_def ended_well_def)
    then show ?thesis by (simp add: SetEndpointRunning_def)
  qed
  show ?thesis
    unfolding startCompute_def Let_def by (rule step, rule step, rule step, rule store)
qed

section \<open>A takeover follows a look at a stale row\<close>

definition stale_look :: "string \<Rightarrow> event list \<Rightarrow> bool" where
  "stale_look i tr \<longleftrightarrow>
     (\<exists>ep eps now. ESql [SelectEndpointForUpdate i] (Inr (EndpointRows (ep # eps))) \<in> set tr \<and>
        e_state ep \<in> {''starting'', ''suspending''} \<and> ENow now \<in> set tr \<and>
        since now (e_updated ep) > 120 * second)"

fun is_takeover :: "event \<Rightarrow> bool" where
  "is_takeover (ESql [UpdateState i src dst] r) \<longleftrightarrow>
     dst = ''starting'' \<and> src \<in> {''starting'', ''suspending''}"
| "is_takeover _ = False"

definition takeover_audit :: "string \<Rightarrow> event list \<Rightarrow> event \<Rightarrow> bool" where
  "takeover_audit i tr ev \<longleftrightarrow> (if is_takeover ev then stale_look i tr else True)"

abbreviation quiet :: "event \<Rightarrow> bool" where "quiet ev \<equiv> \<not> is_takeover ev"

lemma quiet_classes:
  "looks ev \<Longrightarrow> quiet ev" "waits P ev \<Longrightarrow> quiet ev" "is_k8s P ev \<Longrightarrow> quiet ev"
  by (cases ev rule: is_takeover.cases; auto)+

lemma quiet_start: "emits quiet (startCompute n (main_waker st) i)"
proof -
  have stop: "emits quiet (Stop r i)" "emits quiet (Start r i cfg)" for r cfg
    by (rule emits_mono [OF Stop_emits quiet_classes(3)], assumption)
      (rule emits_mono [OF Start_emits quiet_classes(3)], assumption)
  have "emits quiet (start_fail (main_waker st) i e)" for e
    unfolding start_fail_def main_parts runtime_parts
    by (intro emits_bindI stop) (auto simp: emits_def TransitionEndpoint_def)
  moreover have "emits quiet (waitReady n (main_waker st) i)"
  proof (rule emits_mono [OF waitReady_emits [where P = "\<lambda>c. True"] quiet_classes(2)])
    fix id show "emits (is_k8s (\<lambda>c. True)) (rt_Status (wk_runtime (main_waker st)) id)"
      unfolding main_parts runtime_parts
      by (rule emits_mono [OF Status_emits]) (auto elim: is_k8s_elim)
  qed
  moreover have "emits quiet (SetEndpointRunning i addr)" for addr
    by (simp add: emits_def SetEndpointRunning_def)
  moreover have "emits quiet (specBuilder st i)"
    by (rule emits_mono [OF specBuilder_looks quiet_classes(1)])
  ultimately show ?thesis
    unfolding startCompute_def main_parts runtime_parts Let_def
    by (intro emits_checkI stop) (auto simp: emits_def)
qed

lemma quiet_audit:
  "emits quiet p \<Longrightarrow> wp (audit (takeover_audit i)) p (\<lambda>a s'. True) s"
  by (rule wp_mono [OF audit_emits [where H = quiet]]) (auto simp: takeover_audit_def)

lemma quiet_extends:
  "emits quiet p \<Longrightarrow> wp (audit (takeover_audit i)) p (\<lambda>a s'. \<exists>u. s' = s @ u) s"
  by (rule wp_mono [OF audit_emits [where H = quiet]]) (auto simp: takeover_audit_def)

lemma decide_stale:
  "wp (audit (takeover_audit i)) (WithEndpointLock i (decide i))
     (\<lambda>a s'. a = Inr Take_over \<longrightarrow> stale_look i s') s"
proof -
  have row: "\<exists>rows. r = Inr (EndpointRows (ep # rows))" if "scanEndpoint r = Inr ep" for r ep
    using that
    by (cases r) (auto simp: scanEndpoint_def or_not_found_def query_row_reply_def query_reply_def
        split: option.splits list.splits elim!: as_endpoints.elims)
  have "stale_look i (s @ [ESql [SelectEndpointForUpdate i] r, ENow now, ESql [] c])"
    if "scanEndpoint r = Inr ep" "e_state ep \<in> {''starting'', ''suspending''}" "since now (e_updated ep) > staleAfter"
    for r ep now c
    using row [OF that(1)] that(2,3) by (auto simp: stale_look_def staleAfter_def)
  then show ?thesis
    by (auto simp: WithEndpointLock_def decide_def takeover_audit_def split: sum.split)
qed

lemma stale_look_append: "stale_look i tr \<Longrightarrow> stale_look i (tr @ tr')"
  unfolding stale_look_def by fastforce

lemma Wake_takeover_audit:
  "wp (audit (takeover_audit i)) (Wake_loop n (main_waker st) i d) (\<lambda>_ _. True) s"
proof (induction n arbitrary: s)
  case (Suc n)
  note start = quiet_audit [OF quiet_start]
  have stop: "emits quiet (Stop r i)" "emits quiet (Status r i)" for r
    by (rule emits_mono [OF Stop_emits quiet_classes(3)], assumption)
      (rule emits_mono [OF Status_emits quiet_classes(3)], assumption)
  have revert: "wp (audit (takeover_audit i)) (check (TransitionEndpoint i ''running'' ''suspended'') fails
             (\<lambda>_. Wake_loop n (main_waker st) i d)) (\<lambda>_ _. True) s" for s
    by (simp add: TransitionEndpoint_def takeover_audit_def Suc split: sum.split)
  have verify: "wp (audit (takeover_audit i)) (check (rt_Status (wk_runtime (main_waker st)) i) fails (\<lambda>ps.
      if ps_exists ps \<and> ps_phase ps = ''Running'' \<and> addr \<noteq> [] \<and> HasPrefix addr (ps_ip ps @ '':'')
      then returns addr
      else check (TransitionEndpoint i ''running'' ''suspended'') fails
             (\<lambda>_. Wake_loop n (main_waker st) i d))) (\<lambda>_ _. True) s" for addr s
    unfolding main_parts runtime_parts
      wp_check [of _ "Status \<lparr>kr_namespace = st_namespace st, kr_image = st_image st\<rparr> i"]
    by (rule wp_mono [OF quiet_audit [OF stop(2)]]) (simp add: revert del: wp_check split: sum.split)
  have win: "wp (audit (takeover_audit i)) (check (cas_any [''suspended'', ''failed''] i ''starting'') fails (\<lambda>won.
      case won of None \<Rightarrow> Wake_loop n (main_waker st) i d | Some _ \<Rightarrow> startCompute n (main_waker st) i))
      (\<lambda>_ _. True) s" for s
    by (auto simp: TransitionEndpoint_def takeover_audit_def Suc start split: sum.split option.split)
  have stop_start: "wp (audit (takeover_audit i)) (bind (rt_Stop (wk_runtime (main_waker st)) i)
      (\<lambda>_. startCompute n (main_waker st) i)) (\<lambda>_ _. True) s" for s
    unfolding main_parts runtime_parts wp_bind
    by (rule wp_mono [OF quiet_audit [OF stop(1)]]) (rule start)
  have take_over: "wp (audit (takeover_audit i)) (check (cas_any [''starting'', ''suspending''] i ''starting'') fails (\<lambda>won.
      case won of None \<Rightarrow> Wake_loop n (main_waker st) i d
      | Some _ \<Rightarrow> bind (rt_Stop (wk_runtime (main_waker st)) i) (\<lambda>_. startCompute n (main_waker st) i)))
      (\<lambda>_ _. True) s" if "stale_look i s" for s
    using that stale_look_append [OF that]
    by (auto simp: TransitionEndpoint_def takeover_audit_def Suc stop_start [unfolded main_parts runtime_parts]
        simp del: wp_bind split: sum.split option.split)
  have act: "wp (audit (takeover_audit i)) (case action of
      VerifyRunning addr \<Rightarrow>
        check (rt_Status (wk_runtime (main_waker st)) i) fails (\<lambda>ps.
          if ps_exists ps \<and> ps_phase ps = ''Running'' \<and> addr \<noteq> [] \<and> HasPrefix addr (ps_ip ps @ '':'')
          then returns addr
          else check (TransitionEndpoint i ''running'' ''suspended'') fails (\<lambda>_. Wake_loop n (main_waker st) i d))
    | Take_over \<Rightarrow> check (cas_any [''starting'', ''suspending''] i ''starting'') fails (\<lambda>won.
        case won of None \<Rightarrow> Wake_loop n (main_waker st) i d
        | Some _ \<Rightarrow> bind (rt_Stop (wk_runtime (main_waker st)) i) (\<lambda>_. startCompute n (main_waker st) i))
    | Wait \<Rightarrow> Sleep (pollInterval (main_waker st)) (\<lambda>c. case c of None \<Rightarrow> Wake_loop n (main_waker st) i d | Some e \<Rightarrow> fails e)
    | Start_it \<Rightarrow> check (cas_any [''suspended'', ''failed''] i ''starting'') fails (\<lambda>won.
        case won of None \<Rightarrow> Wake_loop n (main_waker st) i d | Some _ \<Rightarrow> startCompute n (main_waker st) i))
    (\<lambda>_ _. True) s" if "action = Take_over \<longrightarrow> stale_look i s" for action s
  proof (cases action)
    case Take_over
    with that take_over show ?thesis by (simp only: wake_action.case)
  qed (simp_all only: wake_action.case verify win, simp add: takeover_audit_def Suc split: option.split)
  have body: "wp (audit (takeover_audit i)) (Now (\<lambda>now. if now < d then
      check (WithEndpointLock i (decide i)) fails (f now) else fails e)) (\<lambda>_ _. True) s"
    if "\<And>now action s. action = Take_over \<longrightarrow> stale_look i s \<Longrightarrow>
      wp (audit (takeover_audit i)) (f now action) (\<lambda>_ _. True) s" for f e s
    by (auto simp: takeover_audit_def split: sum.split intro!: wp_mono [OF decide_stale] that)
  show ?case unfolding Wake_loop.simps by (rule body) (rule act)
qed simp

section \<open>The loops end\<close>

lemma sleep_in_time:
  assumes "clocked clock E" and "\<And>y. clock x + d \<le> clock y \<Longrightarrow> result E p y \<noteq> OutOfFuel"
  shows "result E (Sleep d (\<lambda>c. case c of Some e \<Rightarrow> fails e | None \<Rightarrow> p)) x \<noteq> OutOfFuel"
proof -
  obtain c y where c: "env_sleep E d x = (c, y)" by (cases "env_sleep E d x")
  with clocked_sleep [OF assms(1) c] assms(2) show ?thesis by (cases c) auto
qed

lemma halts_in_time: "halts p \<Longrightarrow> result E p x \<noteq> OutOfFuel"
  by (rule halts_result)

lemma runtime_halts: "halts (Start r i cfg)" "halts (Stop r i)" "halts (Status r i)"
  by (auto simp: Start_def Stop_def Status_def createPod_def deleteConfigMap_def Let_def
      split: sum.split k8s_object.split)

lemma probe_halts: "halts (rt_Status (wk_runtime w) i) \<Longrightarrow> halts (probe w i)"
  unfolding probe_def by (rule halts_bind) (auto split: sum.split prod.split)

lemma waitReady_loop_in_time:
  assumes cl: "clocked clock E" and st: "halts (rt_Status (wk_runtime w) i)"
  shows "0 < n \<Longrightarrow> deadline \<le> clock x + int (n - 1) * pollInterval w \<Longrightarrow>
    result E (waitReady_loop n w i deadline) x \<noteq> OutOfFuel"
proof (induction n arbitrary: x)
  case (Suc n)
  obtain now x1 where now: "env_now E x = (now, x1)" by (cases "env_now E x")
  from clocked_now [OF cl now] have le: "clock x \<le> now" "now \<le> clock x1" by auto
  show ?case
  proof (cases "now < deadline")
    case True
    with le Suc.prems have pos: "0 < n" by (cases n) auto
    have "result E (waitReady_loop n w i deadline) y \<noteq> OutOfFuel"
      if "clock x1 + pollInterval w \<le> clock y" for y
    proof (rule Suc.IH [OF pos])
      have "int (Suc n - 1) * pollInterval w = int (n - 1) * pollInterval w + pollInterval w"
        using pos by (cases n) (simp_all add: algebra_simps)
      with that le Suc.prems(2) show "deadline \<le> clock y + int (n - 1) * pollInterval w" by linarith
    qed
    then have turn: "result E (Sleep (pollInterval w) (\<lambda>c. case c of Some e \<Rightarrow> fails e
        | None \<Rightarrow> waitReady_loop n w i deadline)) y \<noteq> OutOfFuel" if "clock x1 \<le> clock y" for y
      using that by (intro sleep_in_time [OF cl]) simp
    have "result E (bind (probe w i) (\<lambda>verdict. case verdict of Some r \<Rightarrow> Return r
        | None \<Rightarrow> Sleep (pollInterval w) (\<lambda>c. case c of Some e \<Rightarrow> fails e
            | None \<Rightarrow> waitReady_loop n w i deadline))) x1 \<noteq> OutOfFuel"
      by (rule bind_in_time [OF cl halts_result [OF probe_halts [OF st]]])
        (simp add: turn del: result_simps(5) split: option.split)
    with now True show ?thesis by simp
  qed (use now in simp)
qed simp

lemma waitReady_in_time:
  assumes cl: "clocked clock E" and "halts (rt_Status (wk_runtime w) i)"
    and n: "0 < n" "readyTimeout w \<le> int (n - 1) * pollInterval w"
  shows "result E (waitReady n w i) x \<noteq> OutOfFuel"
proof -
  obtain now x1 where now: "env_now E x = (now, x1)" by (cases "env_now E x")
  have "result E (waitReady_loop n w i (now + readyTimeout w)) x1 \<noteq> OutOfFuel"
    using clocked_now [OF cl now] n by (intro waitReady_loop_in_time [OF assms(1,2)]) auto
  with now show ?thesis by (simp add: waitReady_def)
qed

lemma store_halts:
  "halts (TransitionEndpoint i src dst)" "halts (SetEndpointRunning i a)" "halts (cas_any froms i dst)"
  "halts (WithEndpointLock i (decide i))"
proof -
  show "halts (TransitionEndpoint i src dst)" for src by (simp add: TransitionEndpoint_def)
  then show "halts (cas_any froms i dst)"
    by (induction froms) (auto intro!: halts_check)
  show "halts (SetEndpointRunning i a)" by (simp add: SetEndpointRunning_def)
  show "halts (WithEndpointLock i (decide i))"
    by (auto simp: WithEndpointLock_def decide_def check_def split: sum.split)
qed

lemma start_fail_halts: "halts (start_fail (main_waker st) i e)"
  unfolding start_fail_def main_parts runtime_parts by (intro halts_bind runtime_halts store_halts) simp

lemma startCompute_in_time:
  assumes cl: "clocked clock E" and n: "241 \<le> n"
  shows "result E (startCompute n (main_waker st) i) x \<noteq> OutOfFuel"
proof -
  note failed = halts_result [OF start_fail_halts]
  have "0 < n" "readyTimeout (main_waker st) \<le> int (n - 1) * pollInterval (main_waker st)"
    using n by simp_all
  then have ready: "result E (waitReady n (main_waker st) i) x \<noteq> OutOfFuel" for x
    by (intro waitReady_in_time [OF cl]) (simp_all add: runtime_halts)
  show ?thesis
    unfolding startCompute_def main_parts runtime_parts Let_def
    by (intro check_in_time [OF cl] failed ready halts_result specBuilder_halts runtime_halts store_halts) simp
qed

lemma Wake_loop_in_time:
  assumes tk: "ticking clock E"
  shows "deadline + 242 \<le> clock x + int n \<Longrightarrow> 0 < n \<Longrightarrow>
    result E (Wake_loop n (main_waker st) i deadline) x \<noteq> OutOfFuel"
proof (induction n arbitrary: x)
  case (Suc n)
  have cl: "clocked clock E" using tk by (simp add: ticking_def)
  obtain now x1 where now: "env_now E x = (now, x1)" by (cases "env_now E x")
  from clocked_now [OF cl now] ticking_now [OF tk now]
  have le: "clock x \<le> now" "clock x + 1 \<le> clock x1" by auto
  show ?case
  proof (cases "now < deadline")
    case True
    with le Suc.prems have n: "241 \<le> n" by simp
    have again: "result E (Wake_loop n (main_waker st) i deadline) y \<noteq> OutOfFuel" if "clock x1 \<le> clock y" for y
      using that le Suc.prems n by (intro Suc.IH) auto
    note start = startCompute_in_time [OF cl n]
    have revert: "result E (check (TransitionEndpoint i ''running'' ''suspended'') fails
        (\<lambda>_. Wake_loop n (main_waker st) i deadline)) y \<noteq> OutOfFuel" if "clock x1 \<le> clock y" for y
      by (rule check_in_time [OF cl halts_result [OF store_halts(1)]]) (use that again in auto)
    let ?turn = "\<lambda>action. case action of
        VerifyRunning addr \<Rightarrow>
          check (rt_Status (wk_runtime (main_waker st)) i) fails (\<lambda>ps.
            if ps_exists ps \<and> ps_phase ps = ''Running'' \<and> addr \<noteq> [] \<and> HasPrefix addr (ps_ip ps @ '':'')
            then returns addr
            else check (TransitionEndpoint i ''running'' ''suspended'') fails (\<lambda>_. Wake_loop n (main_waker st) i deadline))
      | Start_it \<Rightarrow> check (cas_any [''suspended'', ''failed''] i ''starting'') fails (\<lambda>won.
          case won of None \<Rightarrow> Wake_loop n (main_waker st) i deadline | Some _ \<Rightarrow> startCompute n (main_waker st) i)
      | Take_over \<Rightarrow> check (cas_any [''starting'', ''suspending''] i ''starting'') fails (\<lambda>won.
          case won of None \<Rightarrow> Wake_loop n (main_waker st) i deadline
          | Some _ \<Rightarrow> bind (rt_Stop (wk_runtime (main_waker st)) i) (\<lambda>_. startCompute n (main_waker st) i))
      | Wait \<Rightarrow> Sleep (pollInterval (main_waker st)) (\<lambda>c.
          case c of None \<Rightarrow> Wake_loop n (main_waker st) i deadline | Some e \<Rightarrow> fails e)"
    have stop_start: "result E (bind (Stop r i) (\<lambda>_. startCompute n (main_waker st) i)) y \<noteq> OutOfFuel" for r y
      by (rule bind_in_time [OF cl halts_result [OF runtime_halts(2)]]) (rule start)
    have turn: "result E (?turn action) y \<noteq> OutOfFuel" if y: "clock x1 \<le> clock y" for action y
    proof (cases action)
      case (VerifyRunning addr)
      show ?thesis unfolding VerifyRunning wake_action.case main_parts runtime_parts
        by (rule check_in_time [OF cl halts_result [OF runtime_halts(3)]])
          (use y revert in auto)
    next
      case Take_over
      show ?thesis unfolding Take_over wake_action.case main_parts runtime_parts
        by (rule check_in_time [OF cl halts_result [OF store_halts(3)]])
          (use y stop_start in \<open>auto intro!: again split: option.split\<close>)
    next
      case Wait
      show ?thesis unfolding Wait wake_action.case
      proof (rule sleep_in_time [OF cl])
        fix ya
        assume "clock y + pollInterval (main_waker st) \<le> clock ya"
        with y have "clock x1 \<le> clock ya" by simp
        then show "result E (Wake_loop n (main_waker st) i deadline) ya \<noteq> OutOfFuel" by (rule again)
      qed
    next
      case Start_it
      show ?thesis unfolding Start_it wake_action.case
        by (rule check_in_time [OF cl halts_result [OF store_halts(3)]])
          (use y in \<open>auto intro!: start again split: option.split\<close>)
    qed
    have "result E (Wake_loop (Suc n) (main_waker st) i deadline) x =
      result E (check (WithEndpointLock i (decide i)) fails (\<lambda>action. ?turn action)) x1"
      by (simp only: Wake_loop.simps result_simps now prod.case True if_True)
    also have "\<dots> \<noteq> OutOfFuel"
      by (rule check_in_time [OF cl halts_result [OF store_halts(4)]]) (rule halts_result, simp, rule turn)
    finally show ?thesis .
  qed (use now in simp)
qed simp

lemma Wake_in_time:
  assumes tk: "ticking clock E" and n: "150 * second + 242 \<le> int n"
  shows "result E (Wake n (main_waker st) i) x \<noteq> OutOfFuel"
proof -
  have cl: "clocked clock E" using tk by (simp add: ticking_def)
  obtain now x1 where now: "env_now E x = (now, x1)" by (cases "env_now E x")
  have "result E (Wake_loop n (main_waker st) i (now + (readyTimeout (main_waker st) + 30 * second))) x1 \<noteq> OutOfFuel"
    using clocked_now [OF cl now] n by (intro Wake_loop_in_time [OF tk]) auto
  with now show ?thesis by (simp add: Wake_def)
qed

section \<open>The interface\<close>

text \<open>The waker of \<^verbatim>\<open>main\<close> provides the interface its clients consume.\<close>

interpretation waking: waker_interface "Wake n (main_waker st)" "confirmed (st_namespace st)" for n st
  by unfold_locales (use Wake_loop_confirmed in \<open>simp add: Wake_def confirmed_result_def\<close>)

section \<open>A wake does not panic\<close>

lemma steady_store:
  "steady b (TransitionEndpoint i src dst)" "steady b (SetEndpointRunning i a)" "steady b (specBuilder st i)"
  "steady b (cas_any froms i dst)" "steady b (WithEndpointLock i (decide i))"
proof -
  show *: "steady b (TransitionEndpoint i src dst)" for src by (simp add: TransitionEndpoint_def)
  show "steady b (cas_any froms i dst)" by (induction froms) (auto intro!: steady_check *)
  show "steady b (SetEndpointRunning i a)" by (simp add: SetEndpointRunning_def)
  show "steady b (specBuilder st i)"
    by (auto simp: specBuilder_def GetAccessControl_def GetProjectByID_def GetBranchByID_def intro!: steady_check)
  show "steady b (WithEndpointLock i (decide i))"
    by (auto simp: WithEndpointLock_def decide_def check_def split: sum.split)
qed

lemma steady_runtime: "steady b (Start r i cfg)" "steady b (Stop r i)" "steady b (Status r i)"
  by (auto simp: Start_def Stop_def Status_def createPod_def deleteConfigMap_def Let_def split: sum.split k8s_object.split)

lemma steady_start: "steady b (startCompute n (main_waker st) i)"
proof -
  have fail: "steady b (start_fail (main_waker st) i e)" for e
    unfolding start_fail_def by (intro steady_bind) (simp_all add: steady_runtime steady_store)
  have "steady b (probe (main_waker st) i)"
    unfolding probe_def by (rule steady_bind) (auto simp: steady_runtime split: sum.split prod.split)
  then have "steady b (waitReady_loop n (main_waker st) i d)" for d
    by (induction n) (auto intro!: steady_bind split: option.split)
  then have "steady b (waitReady n (main_waker st) i)" by (simp add: waitReady_def)
  with fail show ?thesis
    unfolding startCompute_def main_parts runtime_parts Let_def
    by (intro steady_check) (simp_all add: steady_runtime steady_store)
qed

lemma steady_Wake: "steady b (Wake n (main_waker st) i)"
proof -
  have "steady b (Wake_loop n (main_waker st) i d)" for d
  proof (induction n)
    case (Suc n)
    then show ?case
      by (auto intro!: steady_check steady_bind simp: steady_store steady_runtime steady_start split: option.split wake_action.split)
  qed simp
  then show ?thesis by (simp add: Wake_def)
qed

section \<open>Properties\<close>

text \<open>C14. Whatever the cluster, the computes and the database answer: an address that \<^verbatim>\<open>Wake\<close>
  returns is not empty, and either the endpoint's pod was seen \<^verbatim>\<open>Running\<close> with the address's IP, or
  the last effect of this wake stored the address, and before that it saw the pod's IP and saw
  \<^verbatim>\<open>compute_ctl\<close> report \<^verbatim>\<open>running\<close> at it.\<close>

theorem wake_address_confirmed:
  "audited unaudited (Wake n (main_waker st) i)
     (\<lambda>r tr. case r of Inl e \<Rightarrow> True | Inr addr \<Rightarrow> confirmed (st_namespace st) i addr tr)"
  using Wake_loop_confirmed by (simp add: audited_def Wake_def confirmed_result_def)

text \<open>C23. A start that fails, whatever the reason, requests the deletion of the endpoint's pod and
  then, as its last effect, the compare-and-swap from \<^verbatim>\<open>starting\<close> to \<^verbatim>\<open>failed\<close>; either request may
  fail itself. A start that succeeds ends by storing the address it returns.\<close>

theorem start_failure_clean_up:
  "audited unaudited (startCompute n (main_waker st) i)
     (\<lambda>r tr. case r of Inl e \<Rightarrow> clean_up_sent (st_namespace st) i tr | Inr addr \<Rightarrow> ended_well i addr tr)"
  using startCompute_outcome by (simp add: audited_def start_outcome_def)

text \<open>A wake tries to move an endpoint from \<^verbatim>\<open>starting\<close> or \<^verbatim>\<open>suspending\<close> to \<^verbatim>\<open>starting\<close> only
  after it read the row in such a state and the clock was more than two minutes past the
  row's last update.\<close>

lemma takeover_only_when_stale:
  "audited (\<lambda>tr ev. if is_takeover ev then stale_look i tr else True)
     (Wake n (main_waker st) i) (\<lambda>_ _. True)"
  using Wake_takeover_audit [of i] by (simp add: audited_def Wake_def takeover_audit_def [abs_def])

text \<open>Where time passes, waiting for a compute ends: with one unit of fuel more than the
  number of polls that fit into the timeout, it returns an address or an error.\<close>

lemma waitReady_terminates:
  assumes "clocked clock E" and "halts (rt_Status (wk_runtime w) i)"
    and "0 < n" and "readyTimeout w \<le> int (n - 1) * pollInterval w"
  shows "\<exists>r. result E (waitReady n w i) x = Returned r \<or> (\<exists>e. result E (waitReady n w i) x = Panicked e)"
  using waitReady_in_time [OF assms] by (cases "result E (waitReady n w i) x") auto

lemma waitReady_terminates_witness:
  "\<exists>r. result clock_env (waitReady 241 (main_waker default_settings) ''ep-1'') 0 = Returned r \<or>
     (\<exists>e. result clock_env (waitReady 241 (main_waker default_settings) ''ep-1'') 0 = Panicked e)"
proof (rule waitReady_terminates [where clock = id])
  show "clocked id clock_env" using clock_env_ticking by (simp add: ticking_def)
qed (simp_all add: runtime_halts)

text \<open>C29. Where reading the clock takes time, every wake of every endpoint returns, with an address
  or an error: 150 seconds' worth of fuel is enough for the loop, which may turn without sleeping
  when it loses a race, and for the start in its last turn; and nothing in it panics.\<close>

theorem Wake_terminates:
  assumes "ticking clock E" and "150 * second + 242 \<le> int n"
  shows "\<exists>r. result E (Wake n (main_waker st) i) x = Returned r"
  using Wake_in_time [OF assms, of st i x] steady_panic [OF steady_Wake [of False n st i]]
  by (cases "result E (Wake n (main_waker st) i) x") auto

lemma Wake_terminates_witness:
  "\<exists>r. result clock_env (Wake (nat (150 * second + 242)) (main_waker default_settings) ''ep-1'') 0 = Returned r"
  by (rule Wake_terminates [OF clock_env_ticking]) simp

end
