(* ===== verification/Service_Facts.thy ===== *)
theory Service_Facts
  imports Wake_Facts Suspend_Facts Store_Facts
begin

text \<open>
  The service as a whole: who may call what, that the routes do not overlap, that every
  request is answered, what the proxy learns, and how start-up retries the migration.
\<close>

section \<open>Routes\<close>

text \<open>Two path patterns that some path could match both.\<close>

fun overlap :: "segment list \<Rightarrow> segment list \<Rightarrow> bool" where
  "overlap [] [] = True"
| "overlap (Lit a # p) (Lit b # q) = (a = b \<and> overlap p q)"
| "overlap (Lit a # p) (Wild w # q) = overlap p q"
| "overlap (Wild v # p) (Lit b # q) = overlap p q"
| "overlap (Wild v # p) (Wild w # q) = overlap p q"
| "overlap _ _ = False"

lemma match_empty: "match_path [] xs = (if xs = [] then Some [] else None)" "match_path (p # ps) [] = None"
  by (cases xs; simp) (cases p; simp)

lemma match_overlap: "match_path p xs = Some vs \<Longrightarrow> match_path q xs = Some ws \<Longrightarrow> overlap p q"
proof (induction p q arbitrary: xs vs ws rule: overlap.induct)
  case (2 a p b q)
  then show ?case by (cases xs) (auto split: if_splits)
next
  case (3 a p w q)
  then show ?case by (cases xs) (auto split: if_splits)
next
  case (4 v p b q)
  then show ?case by (cases xs) (auto split: if_splits)
next
  case (5 v p w q)
  then show ?case by (cases xs) (auto split: if_splits)
qed (auto simp: match_empty split: if_splits)

lemma match_one_method: "match_method a m \<Longrightarrow> match_method b m \<Longrightarrow> a \<in> {''GET'', ''POST'', ''DELETE''} \<Longrightarrow>
    b \<in> {''GET'', ''POST'', ''DELETE''} \<Longrightarrow> a = b"
  by (auto simp: match_method_def)

definition may_clash :: "route \<Rightarrow> route \<Rightarrow> bool" where
  "may_clash r1 r2 \<longleftrightarrow> rt_method r1 = rt_method r2 \<and> overlap (rt_path r1) (rt_path r2)"

lemma mux_methods: "rt \<in> set (main_mux n st f) \<Longrightarrow> rt_method rt \<in> {''GET'', ''POST'', ''DELETE''}"
  by (auto simp: main_mux_def Routes_def Register_def Let_def)

lemma mux_no_clash: "sorted_wrt (\<lambda>r1 r2. \<not> may_clash r1 r2) (main_mux n st f)"
  by (cases "st_debug st") (simp_all add: main_mux_def Routes_def Register_def Let_def may_clash_def)

section \<open>Access\<close>

lemma serve_routes_answer:
  assumes "\<And>rt vs i b. rt \<in> set rts \<Longrightarrow> match_path (rt_path rt) path = Some vs \<Longrightarrow>
      \<exists>resp. rt_handler rt (r\<lparr>in_id := i, in_bid := b\<rparr>) = Return resp \<and> resp_status resp \<in> S"
    and "404 \<in> S" "405 \<in> S"
  shows "\<exists>resp. serve_routes rts seen m path r = Return resp \<and> resp_status resp \<in> S"
  using assms
proof (induction rts arbitrary: seen)
  case (Cons rt rts)
  then show ?case by (auto split: option.split)
qed (simp add: writeJSON_def)

lemma refused:
  assumes "cf_auth_token (sv_cfg s) \<noteq> []" and "in_auth r \<noteq> ''Bearer '' @ cf_auth_token (sv_cfg s)"
  shows "requireAuth s h (r\<lparr>in_id := i, in_bid := b\<rparr>) =
    Return \<lparr>resp_status = 401, resp_body = JObj [(''error'', JStr ''unauthorized'')]\<rparr>"
  using assms by (simp add: requireAuth_def writeErr_def writeJSON_def)

lemma v1_routes:
  assumes "rt \<in> set (main_mux n st f)" and "match_path (rt_path rt) (''v1'' # path) = Some vs"
  obtains h where "rt_handler rt = requireAuth (main_server n st f) h"
  using assms that by (auto simp: main_mux_def Routes_def Register_def Let_def split: if_splits)

section \<open>Every request is answered\<close>

lemma store_halts':
  "halts (CreateProject p b ep)" "halts (CreateBranch b ep)" "halts (SetEndpointSuspended i)" "halts (DeleteProject i)"
  "halts (DeleteBranch i)" "halts (GetProjectByID i)" "halts (GetBranchByID i)" "halts (ListBranchesByProject i)"
  "halts (GetEndpointByBranch i)" "halts (GetAccessControl i)"
  by (simp_all add: store_defs)

lemma rand_halts:
  "halts NewHex32" "halts NewProjectID" "halts NewBranchID" "halts NewEndpointID" "halts RandomPassword"
  "halts (BuildVerifier f pw)"
  by (auto simp: NewHex32_def NewProjectID_def NewBranchID_def NewEndpointID_def randHex_def
      RandomPassword_def BuildVerifier_def split: sum.split)

lemma answer_halts: "halts (writeErr c m)" "halts (writeJSON c j)"
  by (simp_all add: writeErr_def writeJSON_def)

text \<open>Programs that never run out of fuel in an environment.\<close>

definition ends :: "'x env \<Rightarrow> 'a prog \<Rightarrow> bool" where
  "ends E p \<longleftrightarrow> (\<forall>x. result E p x \<noteq> OutOfFuel)"

lemma ends_halts: "halts p \<Longrightarrow> ends E p"
  by (simp add: ends_def halts_result)

lemma ends_bind: "ends E p \<Longrightarrow> (\<And>a. ends E (f a)) \<Longrightarrow> ends E (bind p f)"
  by (auto simp: ends_def result_bind split: outcome.split)

lemma ends_check: "ends E p \<Longrightarrow> (\<And>e. ends E (h e)) \<Longrightarrow> (\<And>a. ends E (k a)) \<Longrightarrow> ends E (check p h k)"
  unfolding check_def by (rule ends_bind) (auto split: sum.split)

lemmas ends_answer [simp] = answer_halts [THEN ends_halts]
lemmas ends_store [simp] = store_halts' [THEN ends_halts]
lemmas ends_rand [simp] = rand_halts [THEN ends_halts]

lemma ends_pageserver [simp]:
  "ends E (AttachTenant ps tn)" "ends E (CreateTimeline ps tn tm v)" "ends E (DeleteTenant ps tn)"
  "ends E (CreateBranchAtLSN ps tn tm anc l)" "ends E (GetTimeline ps tn tm)"
  by (simp_all add: AttachTenant_def CreateTimeline_def DeleteTenant_def CreateBranchAtLSN_def
      expect2xx_halts GetTimeline_halts ends_halts)

lemma ends_runtime [simp]: "ends E (Start r i cfg)" "ends E (Stop r i)" "ends E (Status r i)"
  by (simp_all add: runtime_halts ends_halts)

lemma ends_MaxCommitLSN [simp]: "ends E (MaxCommitLSN c tn tm)"
  by (rule ends_halts [OF safekeeper.halts])

lemma ingest_in_time:
  assumes cl: "clocked clock E"
  shows "0 < n \<Longrightarrow> deadline < clock x + int (n - 1) * (200 * millisecond) \<Longrightarrow>
    result E (ingest_loop n s tn tm l deadline) x \<noteq> OutOfFuel"
proof (induction n arbitrary: x)
  case (Suc n)
  have turn: "result E (Now (\<lambda>now.
      if now > deadline then fails (Errorf ''pageserver did not reach lsn %s (at %s)'' [Str l, Str at])
      else Sleep (200 * millisecond) (\<lambda>c. case c of Some e \<Rightarrow> fails e | None \<Rightarrow> ingest_loop n s tn tm l deadline))) y \<noteq> OutOfFuel"
    if y: "clock x \<le> clock y" for y at
  proof -
    obtain now y1 where now: "env_now E y = (now, y1)" by (cases "env_now E y")
    obtain r y2 where r: "env_sleep E (200 * millisecond) y1 = (r, y2)" by (cases "env_sleep E (200 * millisecond) y1")
    have "result E (ingest_loop n s tn tm l deadline) y2 \<noteq> OutOfFuel" if "\<not> now > deadline" "r = None"
    proof (rule Suc.IH)
      from clocked_now [OF cl now] clocked_sleep [OF cl r] y that
      have le: "clock x \<le> now" "clock x + 200 * millisecond \<le> clock y2" by auto
      with that Suc.prems show pos: "0 < n" by (cases n) auto
      then have "int (Suc n - 1) * (200 * millisecond) = int (n - 1) * (200 * millisecond) + 200 * millisecond"
        by (cases n) (simp_all add: algebra_simps)
      with le Suc.prems(2) show "deadline < clock y2 + int (n - 1) * (200 * millisecond)" by linarith
    qed
    with now r show ?thesis by (auto split: option.split simp del: ingest_loop.simps)
  qed
  show ?case
    unfolding ingest_loop.simps
    by (rule check_in_time [OF cl halts_result [OF GetTimeline_halts]])
      (use turn in \<open>auto split: sum.split simp del: result_simps(4)\<close>)
qed simp

lemma wait_in_time:
  assumes cl: "clocked clock E" and "152 \<le> n" and sk: "sv_safekeeper s = MaxCommitLSN c"
  shows "ends E (waitAncestorIngested n s tn tm)"
proof -
  have "ends E (Now (\<lambda>now. ingest_loop n s tn tm l (now + 30 * second)))" for l
    unfolding ends_def
  proof
    fix y
    obtain now y1 where now: "env_now E y = (now, y1)" by (cases "env_now E y")
    have "151 \<le> int (n - 1)" using assms(2) by simp
    then have "151 * (200 * millisecond) \<le> int (n - 1) * (200 * millisecond)" by (intro mult_right_mono) simp_all
    moreover have "now \<le> clock y1" using clocked_now [OF cl now] by simp
    ultimately have "now + 30 * second < clock y1 + int (n - 1) * (200 * millisecond)" by linarith
    from ingest_in_time [OF cl _ this] now assms(2)
    show "result E (Now (\<lambda>now. ingest_loop n s tn tm l (now + 30 * second))) y \<noteq> OutOfFuel" by simp
  qed
  then show ?thesis
    unfolding waitAncestorIngested_def sk by (intro ends_check) (simp_all add: ends_halts)
qed

lemma handlers_end:
  assumes cl: "clocked clock E" and n: "152 \<le> n"
  shows "ends E (createProject (main_server m st f) r)" "ends E (getProject (main_server m st f) r)"
    "ends E (createBranch n (main_server m st f) r)" "ends E (deleteBranch n (main_server m st f) r)"
    "ends E (deleteProject (main_server m st f) r)" "ends E (usage (main_server m st f) r)"
    "ends E (debugStop (main_server m st f) r)" "ends E (accessControl r)" "ends E (jwks r)" "ends E (healthz r)"
proof -
  let ?s = "main_server m st f"
  have project: "ends E (with_project i k)" if "\<And>p. ends E (k p)" for i k
    unfolding with_project_def by (intro ends_check) (simp_all add: that)
  have timeline: "ends E (DeleteTimeline n ps tn tm)" for ps tn tm
    using DeleteTimeline_in_time [OF cl] n by (simp add: ends_def)
  have wait: "ends E (waitAncestorIngested n ?s tn tm)" for tn tm
    by (rule wait_in_time [OF cl n main_server_parts(2)])
  have branches: "ends E (describe_branches ?s bs out)" for bs out
    by (induction bs arbitrary: out) (auto intro!: ends_check simp: ends_halts)
  have sizes: "ends E (usage_loop ?s tn bs tot out)" for tn bs tot out
    by (induction bs arbitrary: tot out) (auto intro!: ends_check simp: ends_halts)
  have stop: "ends E (stop_branch ?s b)" for b
    unfolding stop_branch_def by (intro ends_check ends_bind) (simp_all add: ends_halts)
  then have stops: "ends E (stop_branches ?s bs)" for bs
    by (induction bs) (auto intro!: ends_bind simp: ends_halts)
  show "ends E (createProject ?s r)"
    unfolding createProject_def provision_project_def
    by (auto intro!: ends_check ends_bind split: option.split prod.split)
  show "ends E (getProject ?s r)"
    unfolding getProject_def by (intro project ends_check) (simp_all add: branches)
  have ancestor: "ends E (resolve_parent p parentID k)" if "\<And>b. ends E (k b)" for p parentID k
    unfolding resolve_parent_def by (auto intro!: ends_check simp: that split: option.split)
  show "ends E (createBranch n ?s r)"
    unfolding createBranch_def provision_branch_def
    by (auto intro!: project ancestor ends_check ends_bind simp: wait timeline Let_def split: option.split)
  show "ends E (deleteBranch n ?s r)"
    unfolding deleteBranch_def by (auto intro!: ends_check ends_bind simp: stop timeline)
  show "ends E (deleteProject ?s r)"
    unfolding deleteProject_def by (intro project ends_check ends_bind) (simp_all add: stops)
  show "ends E (usage ?s r)"
    unfolding usage_def by (intro project ends_check) (auto simp: sizes)
  show "ends E (debugStop ?s r)"
    unfolding debugStop_def by (intro ends_check) simp_all
  show "ends E (accessControl r)"
    unfolding accessControl_def with_access_def Let_def
    by (intro ends_check) (simp_all add: writeCPError_def)
  show "ends E (jwks r)" "ends E (healthz r)" by (simp_all add: jwks_def healthz_def)
qed

lemma wake_handlers_end:
  assumes "\<And>i. ends E (wake i)"
  shows "sv_waker s = wake \<Longrightarrow> ends E (debugStart s r)" "ends E (wakeCompute wake r)"
proof -
  show "sv_waker s = wake \<Longrightarrow> ends E (debugStart s r)"
    unfolding debugStart_def using assms by (intro ends_check) simp_all
  show "ends E (wakeCompute wake r)"
    unfolding wakeCompute_def with_access_def Let_def
    using assms by (intro ends_check) (simp_all add: writeCPError_def)
qed

lemma serve_in_time:
  assumes tk: "ticking clock E" and n: "150 * second + 242 \<le> int n"
  shows "ends E (serve n st f m path r)"
proof -
  have cl: "clocked clock E" using tk by (simp add: ticking_def)
  have n': "152 \<le> n" using n by simp
  have wake: "ends E (Wake n (main_waker st) i)" for i
    using Wake_in_time [OF tk n] by (simp add: ends_def)
  have auth: "ends E (requireAuth (main_server n st f) h r')" if "\<And>r'. ends E (h r')" for h r'
    using that by (simp add: requireAuth_def Let_def)
  have "ends E (rt_handler rt r')" if "rt \<in> set (main_mux n st f)" for rt r'
    using that handlers_end [OF cl n'] wake_handlers_end [OF wake]
    by (auto simp: main_mux_def Routes_def Register_def Let_def split: if_splits intro!: auth)
  then have "ends E (serve_routes rts seen m path r)" if "set rts \<subseteq> set (main_mux n st f)" for rts seen
    using that by (induction rts arbitrary: seen) (auto split: option.split)
  then show ?thesis by (simp add: serve_def)
qed

section \<open>Panics\<close>

text \<open>Only the random source can make a handler panic: the identifiers' generators do so when it
  fails, and nothing else does.\<close>

lemma steady_calls [simp]:
  "steady b (CreateProject p br ep)" "steady b (CreateBranch br ep)" "steady b (SetEndpointSuspended i)"
  "steady b (DeleteProject i)" "steady b (DeleteBranch i)" "steady b (GetProjectByID i)" "steady b (GetBranchByID i)"
  "steady b (ListBranchesByProject i)" "steady b (GetEndpointByBranch i)" "steady b (GetAccessControl i)"
  "steady b (writeErr c m)" "steady b (writeJSON c j)" "steady b (writeCPError c m code reason)"
  "steady b (do_request ps m path body)" "steady b (commitLSN base tn tm)"
  by (simp_all add: store_defs writeErr_def writeJSON_def writeCPError_def do_request_def commitLSN_def split: sum.split)

lemma steady_rand [simp]:
  "steady True NewHex32" "steady True NewProjectID" "steady True NewBranchID" "steady True NewEndpointID"
  "steady True RandomPassword" "steady True (BuildVerifier f pw)"
  by (auto simp: NewHex32_def NewProjectID_def NewBranchID_def NewEndpointID_def randHex_def
      RandomPassword_def BuildVerifier_def split: sum.split)

lemma steady_pageserver [simp]:
  "steady b (AttachTenant ps tn)" "steady b (CreateTimeline ps tn tm v)" "steady b (DeleteTenant ps tn)"
  "steady b (CreateBranchAtLSN ps tn tm anc l)" "steady b (GetTimeline ps tn tm)" "steady b (DeleteTimeline n ps tn tm)"
proof -
  have gone: "steady b (await_gone n ps path tm d)" for path d
    by (induction n) (auto intro!: steady_check split: option.split)
  show "steady b (AttachTenant ps tn)" "steady b (CreateTimeline ps tn tm v)" "steady b (DeleteTenant ps tn)"
    "steady b (CreateBranchAtLSN ps tn tm anc l)" "steady b (GetTimeline ps tn tm)" "steady b (DeleteTimeline n ps tn tm)"
    by (auto simp: AttachTenant_def CreateTimeline_def DeleteTenant_def CreateBranchAtLSN_def GetTimeline_def
        DeleteTimeline_def expect2xx_def Let_def gone intro!: steady_check)
qed

lemma steady_MaxCommitLSN [simp]: "steady b (MaxCommitLSN c tn tm)"
proof -
  have "steady b (max_loop bases tn tm best)" for bases best
    by (induction bases arbitrary: best) (auto intro!: steady_bind)
  then show ?thesis unfolding MaxCommitLSN_def by (intro steady_bind) simp_all
qed

lemma steady_handlers:
  assumes s: "s = main_server m st f"
  shows "steady True (createProject s r)" "steady True (getProject s r)" "steady True (createBranch n s r)"
    "steady True (deleteBranch n s r)" "steady True (deleteProject s r)" "steady True (usage s r)"
    "steady True (debugStart s r)" "steady True (debugStop s r)" "steady True (accessControl r)"
    "steady True (wakeCompute (Wake m (main_waker st)) r)" "steady True (jwks r)" "steady True (healthz r)"
proof -
  have project: "steady True (with_project i k)" if "\<And>p. steady True (k p)" for i k
    unfolding with_project_def by (intro steady_check) (simp_all add: that)
  have access: "steady True (with_access i k)" if "\<And>p. steady True (k p)" for i k
    unfolding with_access_def by (intro steady_check) (simp_all add: that)
  have ancestor: "steady True (resolve_parent p i k)" if "\<And>b. steady True (k b)" for p i k
    unfolding resolve_parent_def by (auto intro!: steady_check simp: that split: option.split)
  have "steady True (ingest_loop n s tn tm l d)" for tn tm l d
    by (induction n) (auto intro!: steady_check split: sum.split option.split)
  then have wait: "steady True (waitAncestorIngested n s tn tm)" for tn tm
    unfolding waitAncestorIngested_def s by (intro steady_check) simp_all
  have branches: "steady True (describe_branches s bs out)" for bs out
    by (induction bs arbitrary: out) (auto intro!: steady_check)
  have sizes: "steady True (usage_loop s tn bs tot out)" for tn bs tot out
    by (induction bs arbitrary: tot out) (auto intro!: steady_check)
  have stop: "steady True (stop_branch s b)" for b
    unfolding stop_branch_def s by (intro steady_check steady_bind) (simp_all add: steady_runtime)
  then have stops: "steady True (stop_branches s bs)" for bs
    by (induction bs) (auto intro!: steady_bind)
  show "steady True (createProject s r)"
    unfolding createProject_def provision_project_def
    by (auto intro!: steady_check steady_bind split: option.split prod.split)
  show "steady True (getProject s r)"
    unfolding getProject_def by (intro project steady_check) (simp_all add: branches)
  show "steady True (createBranch n s r)"
    unfolding createBranch_def provision_branch_def
    by (auto intro!: project ancestor steady_check steady_bind simp: wait Let_def split: option.split)
  show "steady True (deleteBranch n s r)"
    unfolding deleteBranch_def by (auto intro!: steady_check steady_bind simp: stop)
  show "steady True (deleteProject s r)"
    unfolding deleteProject_def by (intro project steady_check steady_bind) (simp_all add: stops)
  show "steady True (usage s r)"
    unfolding usage_def by (intro project steady_check) (auto simp: sizes)
  show "steady True (debugStart s r)" "steady True (debugStop s r)"
    unfolding debugStart_def debugStop_def s by (intro steady_check; simp add: steady_Wake steady_runtime)+
  show "steady True (accessControl r)" "steady True (wakeCompute (Wake m (main_waker st)) r)"
    unfolding accessControl_def wakeCompute_def Let_def by (intro access steady_check; simp add: steady_Wake)+
  show "steady True (jwks r)" "steady True (healthz r)" by (simp_all add: jwks_def healthz_def)
qed

lemma steady_serve: "steady True (serve n st f m path r)"
proof -
  have auth: "steady True (requireAuth s h r')" if "\<And>r'. steady True (h r')" for s h r'
    using that by (simp add: requireAuth_def Let_def)
  have "steady True (rt_handler rt r')" if "rt \<in> set (main_mux n st f)" for rt r'
    using that steady_handlers [OF HOL.refl]
    by (auto simp: main_mux_def Routes_def Register_def Let_def split: if_splits intro!: auth)
  then have "steady True (serve_routes rts seen m path r)" if "set rts \<subseteq> set (main_mux n st f)" for rts seen
    using that by (induction rts arbitrary: seen) (auto split: option.split)
  then show ?thesis by (simp add: serve_def)
qed

section \<open>Answers\<close>

text \<open>What the answer of a handler looks like: an error status comes with a message under
  \<^verbatim>\<open>error\<close>, a success with an object that has no such member. The health check answers with an
  empty body, and the mux with plain text.\<close>

definition proper_answer :: "response \<Rightarrow> bool" where
  "proper_answer resp \<longleftrightarrow>
     (case resp_body resp of
        JObj kvs \<Rightarrow>
          (case map_of kvs ''error'' of
             None \<Rightarrow> resp_status resp \<in> {200, 201}
           | Some v \<Rightarrow> resp_status resp \<in> {400, 401, 404, 500, 502} \<and> (\<exists>msg. v = JStr msg))
      | _ \<Rightarrow> False)"

definition routed :: "route list \<Rightarrow> string \<Rightarrow> string list \<Rightarrow> bool" where
  "routed rts m path \<longleftrightarrow> list_ex (\<lambda>rt. match_path (rt_path rt) path \<noteq> None \<and> match_method (rt_method rt) m) rts"

definition routed_answer :: "string list \<Rightarrow> response \<Rightarrow> bool" where
  "routed_answer path resp \<longleftrightarrow>
     (if path = [''healthz''] then resp = \<lparr>resp_status = 200, resp_body = JStr []\<rparr> else proper_answer resp)"

definition service_answer :: "route list \<Rightarrow> string \<Rightarrow> string list \<Rightarrow> response \<Rightarrow> bool" where
  "service_answer rts m path resp \<longleftrightarrow>
     (if routed rts m path then routed_answer path resp
      else resp \<in> {\<lparr>resp_status = 404, resp_body = JStr ''404 page not found''\<rparr>,
                   \<lparr>resp_status = 405, resp_body = JStr ''Method Not Allowed''\<rparr>})"

lemma yields_bind: "(\<And>a. yields (f a) R) \<Longrightarrow> yields (bind p f) R"
  unfolding yields_def wp_bind by (induction p) (auto simp: after_def)

lemma yields_check: "(\<And>e. yields (h e) R) \<Longrightarrow> (\<And>a. yields (k a) R) \<Longrightarrow> yields (check p h k) R"
  unfolding check_def by (rule yields_bind) (auto split: sum.split)

lemma yields_error [simp]: "c \<in> {400, 401, 404, 500, 502} \<Longrightarrow> yields (writeErr c m) proper_answer"
  by (auto simp: yields_def writeErr_def writeJSON_def proper_answer_def)

lemma yields_cp_error [simp]: "c \<in> {404, 500} \<Longrightarrow> yields (writeCPError c m code reason) proper_answer"
  by (auto simp: yields_def writeCPError_def writeJSON_def proper_answer_def)

lemma yields_object [simp]:
  "c \<in> {200, 201} \<Longrightarrow> map_of kvs ''error'' = None \<Longrightarrow> yields (writeJSON c (JObj kvs)) proper_answer"
  by (auto simp: yields_def writeJSON_def proper_answer_def)

lemma handlers_proper:
  "yields (createProject s r) proper_answer" "yields (getProject s r) proper_answer"
  "yields (createBranch n s r) proper_answer" "yields (deleteBranch n s r) proper_answer"
  "yields (deleteProject s r) proper_answer" "yields (usage s r) proper_answer"
  "yields (debugStart s r) proper_answer" "yields (debugStop s r) proper_answer"
  "yields (accessControl r) proper_answer" "yields (wakeCompute wake r) proper_answer"
  "yields (jwks r) proper_answer"
proof -
  have project: "yields (with_project i k) proper_answer" if "\<And>p. yields (k p) proper_answer" for i k
    unfolding with_project_def by (intro yields_check) (simp_all add: that)
  have access: "yields (with_access i k) proper_answer" if "\<And>p. yields (k p) proper_answer" for i k
    unfolding with_access_def by (intro yields_check) (simp_all add: that)
  have ancestor: "yields (resolve_parent p i k) proper_answer" if "\<And>b. yields (k b) proper_answer" for p i k
    unfolding resolve_parent_def by (auto intro!: yields_check simp: that split: option.split)
  show "yields (createProject s r) proper_answer"
    unfolding createProject_def provision_project_def
    by (auto intro!: yields_check yields_bind split: option.split prod.split)
  show "yields (getProject s r) proper_answer"
    unfolding getProject_def by (intro project yields_check) simp_all
  show "yields (createBranch n s r) proper_answer"
    unfolding createBranch_def provision_branch_def
    by (auto intro!: project ancestor yields_check yields_bind simp: Let_def split: option.split)
  show "yields (deleteBranch n s r) proper_answer"
    unfolding deleteBranch_def by (auto intro!: yields_check yields_bind)
  show "yields (deleteProject s r) proper_answer"
    unfolding deleteProject_def by (intro project yields_check yields_bind) simp_all
  show "yields (usage s r) proper_answer"
    unfolding usage_def by (intro project yields_check) auto
  show "yields (debugStart s r) proper_answer" "yields (debugStop s r) proper_answer"
    unfolding debugStart_def debugStop_def by (intro yields_check; simp)+
  show "yields (accessControl r) proper_answer" "yields (wakeCompute wake r) proper_answer"
    unfolding accessControl_def wakeCompute_def Let_def by (intro access yields_check; simp)+
  show "yields (jwks r) proper_answer"
    by (simp add: jwks_def yields_def writeJSON_def proper_answer_def)
qed

lemma route_answers:
  assumes "rt \<in> set (main_mux n st f)" and "match_path (rt_path rt) path = Some vs"
  shows "yields (rt_handler rt r) (routed_answer path)"
proof (cases "path = [''healthz'']")
  case True
  with assms have "rt_handler rt = healthz"
    by (auto simp: main_mux_def Routes_def Register_def Let_def split: if_splits)
  with True show ?thesis by (simp add: healthz_def yields_def writeJSON_def routed_answer_def)
next
  case False
  have auth: "yields (requireAuth s h r) proper_answer" if "yields (h r) proper_answer" for s h
    using that by (simp add: requireAuth_def Let_def)
  have one: "match_path [Lit ''healthz''] path = None"
    using False by (cases path; cases "tl path") auto
  from False have "routed_answer path = proper_answer" by (simp add: routed_answer_def fun_eq_iff)
  moreover have "yields (rt_handler rt r) proper_answer"
    using assms one handlers_proper
    by (auto simp: main_mux_def Routes_def Register_def Let_def simp del: match_path.simps split: if_splits intro!: auth)
  ultimately show ?thesis by simp
qed

text \<open>C36. Every answer to every request is well-formed. A request that some route accepts is answered
  with a JSON object whose status is 200, 201, 400, 401, 404, 500 or 502 and which has a message under
  \<^verbatim>\<open>error\<close> exactly when the status is not 200 or 201; the health check alone answers 200 with an empty
  body. A request that no route accepts gets the mux's plain text with 404 or 405.\<close>

theorem answers_well_formed:
  "yields (serve n st f m path r) (service_answer (main_mux n st f) m path)"
proof -
  have "yields (serve_routes rts seen m path r) (service_answer rts m path)"
    if "set rts \<subseteq> set (main_mux n st f)" for rts seen
    using that
  proof (induction rts arbitrary: seen)
    case Nil
    show ?case by (simp add: yields_def writeJSON_def service_answer_def routed_def)
  next
    case (Cons rt rts)
    show ?case
    proof (cases "match_path (rt_path rt) path \<noteq> None \<and> match_method (rt_method rt) m")
      case True
      then have "service_answer (rt # rts) m path = routed_answer path"
        by (simp add: service_answer_def routed_def fun_eq_iff)
      with True route_answers [of rt n st f path] Cons.prems show ?thesis by auto
    next
      case False
      then have "service_answer (rt # rts) m path = service_answer rts m path"
        by (auto simp: service_answer_def routed_def fun_eq_iff)
      with False Cons show ?thesis by (auto split: option.split)
    qed
  qed
  then show ?thesis by (simp add: serve_def)
qed

section \<open>Start-up\<close>

lemma migrate_halts: "i + n = 31 \<Longrightarrow> 0 < n \<Longrightarrow> halts (migrate_loop n i)"
proof (induction n arbitrary: i)
  case (Suc n)
  then show ?case by (auto simp: Migrate_def split: sum.split)
qed simp

abbreviation failed_try :: "event \<Rightarrow> bool" where
  "failed_try ev \<equiv> \<exists>e. ev = ESql [CreateSchema] (Inl e)"

lemma migrate_tries:
  "i + n = 31 \<Longrightarrow> 0 < n \<Longrightarrow> length (filter is_sql s) = i \<Longrightarrow> list_all failed_try (filter is_sql s) \<Longrightarrow>
   wp (audit unaudited) (migrate_loop n i) (\<lambda>res tr.
     let tries = filter is_sql tr in
     list_all failed_try (butlast tries) \<and>
     (case res of Inl e \<Rightarrow> length tries = 31 \<and> last tries = ESql [CreateSchema] (Inl e)
      | Inr _ \<Rightarrow> length tries \<le> 31 \<and> (\<exists>v. last tries = ESql [CreateSchema] (Inr v)))) s"
proof (induction n arbitrary: i s)
  case (Suc n)
  have again: "wp (audit unaudited) (migrate_loop n (Suc i)) (\<lambda>res tr.
     let tries = filter is_sql tr in
     list_all failed_try (butlast tries) \<and>
     (case res of Inl e \<Rightarrow> length tries = 31 \<and> last tries = ESql [CreateSchema] (Inl e)
      | Inr _ \<Rightarrow> length tries \<le> 31 \<and> (\<exists>v. last tries = ESql [CreateSchema] (Inr v))))
     (s @ [ESql [CreateSchema] (Inl e), ESleep d c])" if "i < 30" for e d c
    using Suc.prems that by (intro Suc.IH) auto
  then show ?case
    using Suc.prems by (auto simp: Migrate_def exec_reply_def map_sum_def Let_def split: sum.splits)
qed simp

section \<open>The size of a project\<close>

definition sized :: "64 word list \<Rightarrow> json list \<Rightarrow> bool" where
  "sized sizes out \<longleftrightarrow> map (member ''logical_size_bytes'') out = map (\<lambda>z. Some (JInt (uint z))) sizes"

lemma usage_loop_sizes:
  "wp (watch (\<lambda>ev. True)) (usage_loop s tn bs tot out)
     (\<lambda>r _. \<forall>tot' out'. r = Inr (tot', out') \<longrightarrow>
        (\<exists>sizes new. out' = out @ new \<and> sized sizes new \<and> length sizes = length bs \<and> tot' = tot + sum_list sizes)) u"
proof (induction bs arbitrary: tot out u)
  case (Cons b bs)
  have step: "sized (td_logical_size d # sizes) (JObj [(''branch_id'', JStr (b_id b)),
      (''logical_size_bytes'', JInt (uint (td_logical_size d))), (''name'', JStr (b_name b))] # new)"
    if "sized sizes new" for d :: timeline_detail and sizes new
    using that by (simp add: sized_def)
  show ?case
    unfolding usage_loop.simps
  proof (rule wp_checkI [where P = "\<lambda>_ _. True"], goal_cases)
    case 1
    show ?case using emits_any by (simp add: emits_def)
  next
    case 2
    show ?case by simp
  next
    case (3 d u')
    show ?case
    proof (rule wp_mono [OF Cons.IH], intro allI impI)
      fix r tot' out' and u'' :: unit
      assume "\<forall>t o'. r = Inr (t, o') \<longrightarrow> (\<exists>sizes new. o' = (out @ [JObj [(''branch_id'', JStr (b_id b)),
            (''logical_size_bytes'', JInt (uint (td_logical_size d))), (''name'', JStr (b_name b))]]) @ new \<and>
          sized sizes new \<and> length sizes = length bs \<and> t = tot + td_logical_size d + sum_list sizes)"
        and "r = Inr (tot', out')"
      then obtain sizes new where "out' = (out @ [JObj [(''branch_id'', JStr (b_id b)),
            (''logical_size_bytes'', JInt (uint (td_logical_size d))), (''name'', JStr (b_name b))]]) @ new"
        "sized sizes new" "length sizes = length bs" "tot' = tot + td_logical_size d + sum_list sizes" by blast
      then show "\<exists>sizes new. out' = out @ new \<and> sized sizes new \<and> length sizes = length (b # bs) \<and> tot' = tot + sum_list sizes"
        by (intro exI [of _ "td_logical_size d # sizes"] exI [of _ "_ # new"] conjI) (auto simp: step algebra_simps)
    qed
  qed
qed (simp add: sized_def)

lemma uint_sum_list: "uint (sum_list (ws :: 64 word list)) = sum_list (map uint ws) mod 2 ^ 64"
  by (induction ws) (simp_all add: uint_word_arith_bintrs take_bit_eq_mod mod_simps)

section \<open>Properties\<close>

text \<open>C19. With a token configured, a request to \<^verbatim>\<open>/v1/...\<close> without exactly the header
  \<^verbatim>\<open>Bearer <token>\<close> is refused at once, with 401 or as an unknown route or method: no database,
  cluster or page server sees an effect of it.\<close>

theorem unauthorized_request_refused:
  assumes "st_auth_token st \<noteq> []" and "in_auth r \<noteq> ''Bearer '' @ st_auth_token st"
  shows "\<exists>resp. serve n st f m (''v1'' # path) r = Return resp \<and> resp_status resp \<in> {401, 404, 405}"
  unfolding serve_def
proof (rule serve_routes_answer)
  fix rt vs i b
  assume "rt \<in> set (main_mux n st f)" "match_path (rt_path rt) (''v1'' # path) = Some vs"
  then obtain h where "rt_handler rt = requireAuth (main_server n st f) h" by (rule v1_routes)
  then show "\<exists>resp. rt_handler rt (r\<lparr>in_id := i, in_bid := b\<rparr>) = Return resp \<and> resp_status resp \<in> {401, 404, 405}"
    using assms by (simp add: refused)
qed simp_all

definition demo_request :: request where
  "demo_request = \<lparr>in_auth = ''Bearer wrong'', in_query = (\<lambda>_. []), in_id = [], in_bid = [],
     in_body = \<lparr>pl_text = [], pl_value = None, pl_trailing = False\<rparr>\<rparr>"

lemma unauthorized_request_refused_witness:
  "\<exists>resp. serve 152 (default_settings\<lparr>st_auth_token := ''secret''\<rparr>) (\<lambda>p s n k. []) ''DELETE''
       [''v1'', ''projects'', ''prj-1''] demo_request = Return resp \<and> resp_status resp \<in> {401, 404, 405}"
  by (rule unauthorized_request_refused) (simp_all add: demo_request_def)

text \<open>Unless they are enabled, the debug routes do not exist: every request below
  \<^verbatim>\<open>/v1/debug\<close> is answered by 404 without any effect.\<close>

lemma debug_routes_hidden:
  assumes "\<not> st_debug st"
  shows "serve n st f m (''v1'' # ''debug'' # path) r = writeJSON 404 (JStr ''404 page not found'')"
  using assms by (simp add: serve_def main_mux_def Routes_def Register_def Let_def)

lemma debug_routes_hidden_witness:
  "serve 152 default_settings (\<lambda>p s n k. []) ''POST'' [''v1'', ''debug'', ''endpoints'', ''ep-1'', ''stop''] demo_request =
     writeJSON 404 (JStr ''404 page not found'')"
  by (rule debug_routes_hidden) (simp add: default_settings_def read_settings_def env_or_def)

text \<open>No request matches two routes, so registering them does not fail and their order does
  not matter: of any two routes of the mux, at most one accepts a method and a path.\<close>

lemma routes_unambiguous:
  "sorted_wrt (\<lambda>r1 r2. \<not> (match_method (rt_method r1) m \<and> match_path (rt_path r1) path \<noteq> None \<and>
       match_method (rt_method r2) m \<and> match_path (rt_path r2) path \<noteq> None))
     (main_mux n st f)"
proof (rule sorted_wrt_mono_rel [OF _ mux_no_clash])
  fix r1 r2
  assume r: "r1 \<in> set (main_mux n st f)" "r2 \<in> set (main_mux n st f)" "\<not> may_clash r1 r2"
  show "\<not> (match_method (rt_method r1) m \<and> match_path (rt_path r1) path \<noteq> None \<and>
       match_method (rt_method r2) m \<and> match_path (rt_path r2) path \<noteq> None)"
    using r(3) match_one_method [OF _ _ mux_methods [OF r(1)] mux_methods [OF r(2)]]
    by (auto simp: may_clash_def) (metis match_overlap not_None_eq)
qed

text \<open>C16. Every request, whatever its method, path and body, is answered where reading the clock
  takes time: no handler polls for ever, whatever the other services answer. The one exception is a
  failure of the random source, at which the generators of identifiers panic.\<close>

theorem every_request_answered:
  assumes "ticking clock E" and "150 * second + 242 \<le> int n"
  shows "(\<exists>resp. result E (serve n st f m path r) x = Returned resp) \<or>
    (\<exists>e k err. result E (serve n st f m path r) x = Panicked e \<and> ERand k (Inl err) \<in> set (trace E (serve n st f m path r) x))"
  using serve_in_time [OF assms] steady_panic [OF steady_serve]
  by (cases "result E (serve n st f m path r) x") (auto simp: ends_def)

lemma every_request_answered_witness:
  "(\<exists>resp. result clock_env (serve (nat (150 * second + 242)) default_settings (\<lambda>p s n k. []) ''POST''
     [''v1'', ''projects''] demo_request) 0 = Returned resp) \<or>
   (\<exists>e k err. result clock_env (serve (nat (150 * second + 242)) default_settings (\<lambda>p s n k. []) ''POST''
     [''v1'', ''projects''] demo_request) 0 = Panicked e \<and>
     ERand k (Inl err) \<in> set (trace clock_env (serve (nat (150 * second + 242)) default_settings (\<lambda>p s n k. []) ''POST''
     [''v1'', ''projects''] demo_request) 0))"
  by (rule every_request_answered [OF clock_env_ticking]) simp

text \<open>\<^verbatim>\<open>GET /v1/projects/{id}/usage\<close> adds the branches' sizes as \<^verbatim>\<open>uint64\<close>: the total it
  reports is the sum of the sizes it lists, up to a multiple of 2 to the 64.\<close>

lemma usage_total_wraps:
  "yields (usage s r) (\<lambda>resp. if resp_status resp = 200
     then \<exists>sizes out. member ''branches'' (resp_body resp) = Some (JArr out) \<and> sized sizes out \<and>
       member ''total_logical_size_bytes'' (resp_body resp) = Some (JInt (sum_list (map uint sizes) mod 2 ^ 64))
     else True)"
proof -
  have loop: "wp (watch (\<lambda>ev. True)) (usage_loop s tn bs 0 [])
      (\<lambda>res _. \<forall>tot out. res = Inr (tot, out) \<longrightarrow> (\<exists>sizes. sized sizes out \<and> tot = sum_list sizes)) u" for tn bs u
    by (rule wp_mono [OF usage_loop_sizes]) force
  show ?thesis
    unfolding yields_def usage_def with_project_def
    by (auto simp: GetProjectByID_def ListBranchesByProject_def writeErr_def writeJSON_def uint_sum_list
        split: sum.split intro!: wp_mono [OF loop]) blast
qed

text \<open>C31. The proxy gets the verifier of the endpoint's project only for the project's own role:
  with any other role the secret is empty, and for an unknown endpoint the answer is 404
  with the reason \<^verbatim>\<open>ENDPOINT_NOT_FOUND\<close>.\<close>

theorem secret_only_for_own_role:
  assumes "faultless fault" and "schema_ok db"
  shows "\<exists>resp. result (with_db fault E) (accessControl r) (db, x) = Returned resp \<and>
    (case access_of (catalog_of db) (in_query r ''endpointish'') of
       None \<Rightarrow> resp_status resp = 404 \<and>
         members [''status'', ''details'', ''error_info'', ''reason''] (resp_body resp) = Some (JStr ''ENDPOINT_NOT_FOUND'')
     | Some ac \<Rightarrow> resp_status resp = 200 \<and> member ''project_id'' (resp_body resp) = Some (JStr (ac_project ac)) \<and>
         member ''role_secret'' (resp_body resp) =
           Some (JStr (if in_query r ''role'' = ac_role ac then ac_verifier ac else [])))"
  using access_result [OF assms, of E "in_query r ''endpointish''" x]
  by (simp add: accessControl_def with_access_def check_result writeCPError_def writeJSON_def Let_def split: option.split)

lemma secret_only_for_own_role_witness:
  "\<exists>resp. result demo_db_env (accessControl (demo_request\<lparr>in_query := (\<lambda>k. if k = ''role'' then ''admin'' else ''ep-1'')\<rparr>))
       (demo_db, 9) = Returned resp \<and> member ''role_secret'' (resp_body resp) = Some (JStr [])"
proof -
  have "map_option ac_role (access_of (catalog_of demo_db) ''ep-1'') = Some ''firth''" by code_simp
  then show ?thesis
    using secret_only_for_own_role [OF demo_faultless demo_db_ok, where E = quiet_env and x = 9 and
      r = "demo_request\<lparr>in_query := (\<lambda>k. if k = ''role'' then ''admin'' else ''ep-1'')\<rparr>"]
    by (auto simp: demo_db_env_def demo_request_def split: option.splits)
qed

text \<open>C30. The address \<^verbatim>\<open>wake_compute\<close> answers with 200 is the confirmed address of the endpoint
  asked for, and the endpoint was found in the database before anything was woken; so is the
  address the debugging start answers with.\<close>

theorem wake_compute_answers_confirmed:
  "audited (looked_up (in_query r ''endpointish'')) (wakeCompute (Wake n (main_waker st)) r)
     (answers_address (confirmed (st_namespace st) (in_query r ''endpointish''))) \<and>
   audited unaudited (debugStart (main_server n st f) r)
     (answers_address (confirmed (st_namespace st) (in_id r)))"
  by (intro conjI waking.wakeCompute_answers waking.debugStart_answers) simp

text \<open>C35. Start-up tries the migration at most 31 times and then ends: with the Kubernetes
  client and the interval of the sweeps after the first try that succeeds, or with the exit status
  1, which has a reason: an interval that is not a duration or a state database URL the driver
  refuses, both before the first try, 31 failed tries, or no Kubernetes client.\<close>

theorem startup_outcome:
  "halts (startup 31 pf st) \<and>
   audited unaudited (startup 31 pf st) (\<lambda>res tr.
     let tries = filter is_sql tr;
         bad_interval = isl (ParseDuration (st_suspend_interval st));
         bad_url = isl (pf_pool pf (st_database_url st)) in
     if bad_interval \<or> bad_url then res = Inl 1 \<and> tr = []
     else list_all (\<lambda>ev. \<exists>e. ev = ESql [CreateSchema] (Inl e)) (butlast tries) \<and>
       (case res of
          Inl c \<Rightarrow> c = 1 \<and> (length tries = 31 \<and> (\<exists>e. last tries = ESql [CreateSchema] (Inl e)) \<or> isl (k8sClient pf))
        | Inr (kube, d) \<Rightarrow> k8sClient pf = Inr kube \<and> ParseDuration (st_suspend_interval st) = Inr d \<and>
            length tries \<le> 31 \<and> (\<exists>v. last tries = ESql [CreateSchema] (Inr v))))"
proof (rule conjI, goal_cases)
  case 1
  show ?case
    using migrate_halts [of 0 31] by (auto simp: startup_def intro!: halts_check split: sum.split)
next
  case 2
  show ?case
    unfolding audited_def startup_def
    by (auto split: sum.split simp: Let_def simp del: wp_check
        intro!: wp_checkI [OF migrate_tries [of 0 31 "[]"]])
qed

section \<open>The suspender's goroutine\<close>

lemma sweeps_returning: "returning (sweeps k st)"
  by (induction k) (auto intro!: returning_bind simp: sweep_returning)

text \<open>C32. Start-up takes every duration for the interval of the sweeps: where the database URL is
  accepted, the migration commits and there is a Kubernetes client, it succeeds with the duration
  that \<^verbatim>\<open>SUSPEND_CHECK_INTERVAL\<close> denotes, positive or not. With a positive one the suspender's
  goroutine runs all its sweeps without a panic, whatever the cluster, the computes and the database
  answer; with \<^verbatim>\<open>0s\<close> or \<^verbatim>\<open>-30s\<close> it panics in \<^verbatim>\<open>time.NewTicker\<close>, which ends the service.\<close>

theorem sweeping_survives:
  assumes "ParseDuration (st_suspend_interval st) = Inr d" and "pf_pool pf (st_database_url st) = Inr ()"
    and "k8sClient pf = Inr kube" and "\<And>x. \<exists>v. fst (env_sql E [CreateSchema] x) = Inr v"
  shows "result E (startup 31 pf st) x = Returned (Inr (kube, d)) \<and>
    result E' (suspend_goroutine k st d) y =
      (if d \<le> 0 then Panicked (ExtErr ''non-positive interval for NewTicker'') else Returned ())"
proof (rule conjI)
  obtain v x1 where "env_sql E [CreateSchema] x = (Inr v, x1)" using assms(4) [of x] by (metis prod.collapse)
  then have "result E (migrate_loop 31 0) x = Returned (Inr ())"
    by (simp add: numeral_eq_Suc Migrate_def exec_reply_def)
  with assms(1-3) show "result E (startup 31 pf st) x = Returned (Inr (kube, d))"
    by (simp add: startup_def check_result)
  have "result E' (sweeps k st) y = Returned ()"
    using returning_result [OF sweeps_returning] by auto
  then show "result E' (suspend_goroutine k st d) y =
      (if d \<le> 0 then Panicked (ExtErr ''non-positive interval for NewTicker'') else Returned ())"
    by (simp add: suspend_goroutine_def)
qed

text \<open>A platform whose driver and client accept everything, and the interval \<^verbatim>\<open>0s\<close>.\<close>

definition easy_platform :: "(unit, unit) platform" where
  "easy_platform = \<lparr>pf_pool = (\<lambda>_. Inr ()), pf_in_cluster = Inr (), pf_kubeconfig = Inr (),
     pf_new_for_config = (\<lambda>_. Inr ())\<rparr>"

definition zero_interval :: settings where
  "zero_interval = default_settings\<lparr>st_suspend_interval := ''0s''\<rparr>"

lemma sweeping_survives_witness:
  "result demo_db_env (startup 31 easy_platform zero_interval) (demo_db, 8) = Returned (Inr ((), 0)) \<and>
   result quiet_env (suspend_goroutine 3 zero_interval 0) () =
     (if (0::int) \<le> 0 then Panicked (ExtErr ''non-positive interval for NewTicker'') else Returned ())"
proof (rule sweeping_survives)
  show "ParseDuration (st_suspend_interval zero_interval) = Inr 0" by code_simp
  show "pf_pool easy_platform (st_database_url zero_interval) = Inr ()" "k8sClient easy_platform = Inr ()"
    by (simp_all add: easy_platform_def k8sClient_def)
  show "\<exists>v. fst (env_sql demo_db_env [CreateSchema] x) = Inr v" for x
    by (cases x) (auto simp: demo_db_env_def with_db_def exec_tx_single Let_def split_beta)
qed

end
