(* ===== verification/Safekeeper_Facts.thy ===== *)
theory Safekeeper_Facts
  imports Safekeeper
begin

text \<open>
  \<^verbatim>\<open>MaxCommitLSN\<close> against a reference: the loop with its four variables does the same, effect by
  effect and error by error, as asking every safekeeper first and then looking for the highest
  position in the list of their replies.
\<close>

section \<open>The reference\<close>

fun ask_all :: "string list \<Rightarrow> string \<Rightarrow> string \<Rightarrow> (err + string) list prog" where
  "ask_all [] tenantID timelineID = Return []"
| "ask_all (base # bases) tenantID timelineID =
     bind (commitLSN base tenantID timelineID) (\<lambda>r.
     bind (ask_all bases tenantID timelineID) (\<lambda>rs. Return (r # rs)))"

text \<open>What a reply is worth: an error, or a position with its value.\<close>

definition verdict :: "err + string \<Rightarrow> err + string \<times> 64 word" where
  "verdict r =
     (case r of
        Inl e \<Rightarrow> Inl e
      | Inr s \<Rightarrow> (case Parse s of Inl e \<Rightarrow> Inl e | Inr v \<Rightarrow> Inr (s, v)))"

definition candidates :: "(err + string) list \<Rightarrow> (string \<times> 64 word) list" where
  "candidates rs = List.map_filter (\<lambda>r. case verdict r of Inl e \<Rightarrow> None | Inr p \<Rightarrow> Some p) rs"

definition failures :: "(err + string) list \<Rightarrow> err list" where
  "failures rs = List.map_filter (\<lambda>r. case verdict r of Inl e \<Rightarrow> Some e | Inr p \<Rightarrow> None) rs"

text \<open>The first candidate that no other one exceeds.\<close>

definition first_max :: "(string \<times> 64 word) list \<Rightarrow> (string \<times> 64 word) option" where
  "first_max cs = List.find (\<lambda>p. list_all (\<lambda>q. snd q \<le> snd p) cs) cs"

definition quorum_position :: "(err + string) list \<Rightarrow> err + string" where
  "quorum_position rs =
     (case first_max (candidates rs) of
        Some (s, v) \<Rightarrow> Inr s
      | None \<Rightarrow> Inl (Valf ''no safekeeper returned commit_lsn: %v''
          (if failures rs = [] then None else Some (last (failures rs)))))"

section \<open>The loop's variables are those of the reference\<close>

lemma candidates_snoc [simp]:
  "verdict r = Inl e \<Longrightarrow> candidates (rs @ [r]) = candidates rs"
  "verdict r = Inr p \<Longrightarrow> candidates (rs @ [r]) = candidates rs @ [p]"
  by (simp_all add: candidates_def List.map_filter_def)

lemma failures_snoc [simp]:
  "verdict r = Inl e \<Longrightarrow> failures (rs @ [r]) = failures rs @ [e]"
  "verdict r = Inr p \<Longrightarrow> failures (rs @ [r]) = failures rs"
  by (simp_all add: failures_def List.map_filter_def)

lemma first_max_snoc:
  "first_max [] = None" "first_max [p] = Some p"
  "first_max cs = Some q \<Longrightarrow> first_max (cs @ [p]) = Some (if snd q < snd p then p else q)"
proof -
  show "first_max [] = None" "first_max [p] = Some p" by (simp_all add: first_max_def)
  assume q: "first_max cs = Some q"
  let ?top = "\<lambda>x. list_all (\<lambda>y. snd y \<le> snd x) cs"
  let ?top' = "\<lambda>x. list_all (\<lambda>y. snd y \<le> snd x) (cs @ [p])"
  from q have top: "?top q" and mem: "q \<in> set cs"
    by (auto simp: first_max_def find_Some_iff)
  have app: "List.find P (xs @ ys) = (case List.find P xs of None \<Rightarrow> List.find P ys | Some x \<Rightarrow> Some x)"
    for P :: "string \<times> 64 word \<Rightarrow> bool" and xs ys by (induction xs) auto
  show "first_max (cs @ [p]) = Some (if snd q < snd p then p else q)"
  proof (cases "snd q < snd p")
    case True
    with top have "List.find ?top' cs = None" "?top' p"
      by (auto simp: find_None_iff list_all_iff)
    with True show ?thesis by (simp add: first_max_def app)
  next
    case False
    have "?top' x = ?top x" if "x \<in> set cs" for x
    proof (cases "?top x")
      case True
      with mem have "snd q \<le> snd x" by (simp add: list_all_iff)
      with False have "snd p \<le> snd x" by simp
      with True show ?thesis by simp
    qed simp
    then have "List.find ?top' cs = List.find ?top cs" by (intro find_cong) simp_all
    with False q show ?thesis by (simp add: first_max_def app)
  qed
qed

definition tracks :: "best_so_far \<Rightarrow> (err + string) list \<Rightarrow> bool" where
  "tracks b rs \<longleftrightarrow>
     bs_last_err b = (if failures rs = [] then None else Some (last (failures rs))) \<and>
     (if bs_seen b then first_max (candidates rs) = Some (bs_best b, bs_val b) else candidates rs = [])"

lemma take_reply_tracks: "tracks b rs \<Longrightarrow> tracks (take_reply r b) (rs @ [r])"
proof (cases "verdict r")
  case (Inl e)
  then have "take_reply r b = b\<lparr>bs_last_err := Some e\<rparr>"
    by (auto simp: take_reply_def verdict_def split: sum.splits)
  with Inl show "tracks b rs \<Longrightarrow> ?thesis" by (simp add: tracks_def)
next
  case (Inr p)
  then have "take_reply r b = (if \<not> bs_seen b \<or> bs_val b < snd p
      then b\<lparr>bs_best := fst p, bs_val := snd p, bs_seen := True\<rparr> else b)"
    by (auto simp: take_reply_def verdict_def split: sum.splits)
  with Inr show "tracks b rs \<Longrightarrow> ?thesis"
    by (cases "bs_seen b") (auto simp: tracks_def first_max_snoc)
qed

lemma max_loop_fold:
  "max_loop bases tn tm b = bind (ask_all bases tn tm) (\<lambda>rs. Return (fold take_reply rs b))"
  by (induction bases arbitrary: b) (simp_all add: bind_assoc)

lemma fold_tracks: "tracks b rs \<Longrightarrow> tracks (fold take_reply rs' b) (rs @ rs')"
proof (induction rs' arbitrary: b rs)
  case (Cons r rs')
  from Cons.IH [OF take_reply_tracks [OF Cons.prems]] show ?case by simp
qed simp

section \<open>Properties\<close>

text \<open>C40. \<^verbatim>\<open>MaxCommitLSN\<close> is its reference, as a program: whatever the safekeepers answer, it asks each of
  them once, in the order of the list, whatever the others answered, and then returns the first
  of the replies with the highest position; when no reply is a position, it fails with the
  last error.\<close>

theorem max_commit_is_reference:
  "MaxCommitLSN c tn tm = bind (ask_all (sk_base_urls c) tn tm) (\<lambda>rs. Return (quorum_position rs))"
proof -
  have start: "tracks \<lparr>bs_best = [], bs_val = 0, bs_last_err = None, bs_seen = False\<rparr> []"
    by (simp add: tracks_def candidates_def failures_def List.map_filter_def)
  have answer: "(if \<not> bs_seen b then fails (Valf ''no safekeeper returned commit_lsn: %v'' (bs_last_err b))
      else returns (bs_best b)) = Return (quorum_position rs)" if "tracks b rs" for b rs
    using that by (cases "bs_seen b") (simp_all add: tracks_def quorum_position_def first_max_snoc(1))
  show ?thesis
    unfolding MaxCommitLSN_def max_loop_fold bind_assoc bind.simps
      answer [OF fold_tracks [OF start, unfolded append.simps]] ..
qed

end
