(* ===== verification/Spec2Isabelle.thy ===== *)
theory Spec2Isabelle
  imports Hazards Reclaim Compute_Facts Delete_Facts Service_Facts Safekeeper_Facts
begin

text \<open>
  The control plane of firth-pgsql: serverless PostgreSQL on Neon storage and Kubernetes.

  \<^bold>\<open>The program.\<close> One Go process (\<^verbatim>\<open>src/cmd/controlplane/main.go\<close>) serves two HTTP interfaces from
  one mux and runs one background loop, all over one PostgreSQL database of projects, branches
  and endpoints.
  The REST API (\<^verbatim>\<open>internal/api\<close>) creates and deletes projects and branches: it talks to the
  pageserver and the safekeepers (\<^verbatim>\<open>internal/neonclient\<close>) and stores rows (\<^verbatim>\<open>internal/state\<close>).
  The proxy contract (\<^verbatim>\<open>internal/proxycontract\<close>) answers the Neon proxy: the role secret of an
  endpoint, and its address, for which it wakes the endpoint's compute (\<^verbatim>\<open>internal/wake\<close>).
  A wake moves the endpoint through the states \<^verbatim>\<open>suspended\<close>, \<^verbatim>\<open>starting\<close> and \<^verbatim>\<open>running\<close> by
  compare-and-swap updates and has the runtime (\<^verbatim>\<open>internal/compute\<close>) create a config map and a pod;
  the loop (\<^verbatim>\<open>internal/suspend\<close>) moves idle endpoints through \<^verbatim>\<open>suspending\<close> back to \<^verbatim>\<open>suspended\<close> and
  has the pod deleted. Wakes, sweeps and requests run concurrently and meet in the endpoint's row.

  \<^bold>\<open>How code is modelled.\<close> A function without effects is a HOL function. A function that talks to
  the clock, the random source, the network, the Kubernetes API or the database is a value of
  \<open>'a prog\<close> (\<open>Effects\<close>): it is done, or it performs one effect and continues with the reply.
  Errors are values of \<open>err\<close> in a sum, a panic is \<open>Panic\<close>, a loop whose fuel is used up \<open>Diverge\<close>.
  A Go struct is a record, an interface the record or the function of its methods, and a
  transaction the list of its SQL statements, one constructor for each statement text, whose
  effect on the tables is \<open>exec_stmt\<close>. The same definition of a function serves both semantics:
  \<open>run\<close> against a deterministic environment, and \<open>sys_steps\<close>, where any number of programs
  interleave their effects over one database and every other reply is arbitrary.

  \<^bold>\<open>Theories of the model\<close>, in the order of the code:
  \<^item> \<open>Prelude\<close>: strings, numbers, the verbs of \<^verbatim>\<open>fmt\<close>, error values, JSON decoding and time.
  \<^item> \<open>Database\<close>: rows, tables and statements of \<^verbatim>\<open>internal/state/store.go\<close> and \<^verbatim>\<open>schema.sql\<close>, with
    keys, checks and cascades, and the schema's invariant \<open>schema_ok\<close>.
  \<^item> \<open>Kube\<close>, \<open>Effects\<close>: the objects exchanged with Kubernetes and over HTTP; programs, their two
    semantics and the weakest precondition \<open>wp\<close> over a monitor of the effects, sound for both.
  \<^item> \<open>Compute_Spec\<close>, \<open>Compute_K8s\<close>: \<^verbatim>\<open>internal/compute\<close>, the configuration of a compute and its
    JSON; the runtime and its contract, the locale \<open>compute_runtime\<close>.
  \<^item> \<open>Lifecycle\<close>: the endpoint's states as a lease with the roles \<open>Owner\<close> and \<open>Suspender\<close>, and the
    locale \<open>endpoint_cell\<close>, the contract of the store's updates that makes a role exclusive.
  \<^item> \<open>Store\<close>: the methods of \<^verbatim>\<open>Store\<close>, and the interpretation of \<open>endpoint_cell\<close> on the tables.
  \<^item> \<open>Wake\<close>, \<open>Suspend\<close>, \<open>Rfc3339\<close>: \<^verbatim>\<open>internal/wake\<close>, \<^verbatim>\<open>internal/suspend\<close> and the time stamps it
    parses; both keep to the lease, proved once in the context of \<open>compute_runtime\<close>.
  \<^item> \<open>Clock\<close>: environments in which time passes, for termination.
  \<^item> \<open>Pageserver\<close>, \<open>Safekeeper\<close>, \<open>Lsn\<close>: \<^verbatim>\<open>internal/neonclient\<close> and \<^verbatim>\<open>internal/lsn\<close>; the locale
    \<open>safekeeper_lsn\<close> is the interface the API consumes.
  \<^item> \<open>Ids\<close>, \<open>Sha256\<close>, \<open>Scram\<close>: identifiers, the hash, SCRAM verifiers and random passwords.
  \<^item> \<open>Api\<close>, \<open>Proxycontract\<close>: the handlers, the authentication and the routes.
  \<^item> \<open>Waker\<close>: the interface \<^verbatim>\<open>Waker\<close> that both of them consume, the locale \<open>waker_interface\<close>, with
    what the clients make of its contract; \<open>Wake_Facts\<close> interprets it on \<open>Wake\<close>.
  \<^item> \<open>Duration\<close>, \<open>Controlplane\<close>: \<^verbatim>\<open>time.ParseDuration\<close>; \<^verbatim>\<open>main\<close> with its settings, start-up, the
    wiring (\<open>serve\<close> answers a request to the assembled mux) and the suspender's goroutine.
  \<^item> \<open>Concurrency\<close>, \<open>Fleet\<close>: the interleaving semantics with its scheduler \<open>play\<close>, and the tasks of
    the control plane, each shown to keep to the lease.

  \<^bold>\<open>Theories of the results.\<close>
  \<^item> \<open>Schedules\<close>: over all interleavings of requests, wakes and sweeps, the start of an endpoint
    has one owner, starts do not overlap and the roles agree with the database. Three schedules
    show the limits: a takeover and a repair each admit a second owner, and a deletion can leave a
    pod behind.
  \<^item> \<open>Hazards\<close>: two more schedules, with their clock readings. A start that is alive and within its
    own timeout is taken over; and a takeover creates no pod while the old one is terminating.
  \<^item> \<open>Responsive\<close>, \<open>Healing\<close>, \<open>Reclaim\<close>: progress of one program that is alone on the tables.
    \<open>responsive\<close> states what the services around the control plane do when they work, as far as one
    endpoint is concerned: every call takes at most a second, transactions commit (an update of
    another endpoint may fail), a deleted pod is gone within a grace period and keeps its name until
    then, a pod whose containers ended keeps it until it is deleted, and a new pod's compute answers
    \<^verbatim>\<open>running\<close> within 115 seconds; calls about other objects may answer anything. Then two wakes heal
    an endpoint from any state of its row and its pod, one is enough when nothing blocks the
    pod's name, and a sweep reclaims an idle endpoint. \<open>attains\<close> is total correctness of a run.
  \<^item> \<open>Store_Facts\<close>: the tables refine an abstract catalog of three partial maps; what a creation
    stored is what lookups return, until it is deleted; a transition is a compare-and-swap.
  \<^item> \<open>Traces\<close>: \<open>audited G p Q\<close>, the form of most statements about one program: whatever the
    replies, each effect is permitted by \<open>G\<close> after those before it, and the result satisfies \<open>Q\<close>
    with the whole trace. It says nothing of a program that never returns; that one does return
    is proved separately.
  \<^item> \<open>Safekeeper_Facts\<close>: \<open>MaxCommitLSN\<close> equals a reference that first asks everybody and then chooses.
  \<^item> \<open>Wake_Facts\<close>, \<open>Suspend_Facts\<close>, \<open>Compute_Facts\<close>, \<open>Api_Facts\<close>, \<open>Delete_Facts\<close>: what each operation
    does in which order on every branch, its errors and compensations included.
  \<^item> \<open>Service_Facts\<close>: authentication, routes, the form of every answer, that every request is
    answered, what the proxy learns, start-up, and what ends the suspender's goroutine.

  \<^bold>\<open>Fuel.\<close> A polling loop takes one unit of fuel a turn. Where the clock advances by the time
  slept, 121 turns are enough for \<open>DeleteTimeline\<close> (60 s in steps of 500 ms), 152 for \<open>waitAncestorIngested\<close> (30 s in steps of 200 ms) and 241 for the wait of a
  start (two minutes in steps of 500 ms). The loop of \<open>Wake\<close> does not sleep on every turn; where
  reading the clock takes at least a nanosecond, one unit for each nanosecond of its 150 s and
  242 more are enough. In a responsive environment 500 turns of either loop are enough for a wake:
  it waits at most 251 turns for a start to become stale and 241 for its own compute. The migration is tried at most 31 times. Every other loop is structural.

  \<^bold>\<open>Not modelled.\<close>
  \<^item> PostgreSQL beyond the effect of each statement: a transaction is atomic and either commits or
    fails without an effect, so a commit whose acknowledgement is lost does not occur; \<^verbatim>\<open>FOR UPDATE\<close>
    does not block other programs, which admits more interleavings than the server does. A NUL byte
    in the condition of a statement matches no row instead of failing, rows come in the order of the
    tables, and times are not rounded to microseconds.
  \<^item> Kubernetes, the pageserver, the safekeepers and the computes: every answer is possible, in
    any order. The constructors of \<^verbatim>\<open>pgx\<close> and \<^verbatim>\<open>client-go\<close> and the key derivation of
    \<^verbatim>\<open>golang.org/x/crypto\<close> are parameters.
  \<^item> The lexical level of JSON and HTTP, response headers, the redirect of unclean paths, TLS, log
    output, the listener, and the times at which a ticker fires.
  \<^item> The context of a request: a cancellation is only an error of each effect that follows. So it
    cannot be stated that the clean-up of a failed start, which runs under the context whose
    cancellation made it fail, is lost with it (\<^verbatim>\<open>wake.go\<close>, line 142).
  \<^item> The few spellings \<^verbatim>\<open>time.Parse\<close> accepts beyond RFC 3339 proper; they are errors here.

  \<^bold>\<open>Left for later.\<close> Progress under interference, where several wakes of one endpoint share a
  responsive cluster; monotonicity of the safekeepers' commit position across branch creations.
\<close>

end
